(* ===== verification/Go_Prelude.thy ===== *)
theory Go_Prelude
  imports Main "HOL-Library.Finite_Map" "HOL-Library.Char_ord" "HOL-Library.List_Lexorder"
begin

text \<open>
  Shared vocabulary of the development.  It holds the HOL counterparts of the Go types the
  repository uses, the collections of facts the component proofs share, and generic lemmas on
  lists, sorted keys and majorities.

  \<^item> a Go \<open>string\<close> or \<open>[]byte\<close> is a HOL \<open>string\<close> (a list of bytes);
  \<^item> a Go \<open>int\<close> is a HOL \<open>int\<close>;
  \<^item> a Go \<open>map[string]T\<close> is a finite map \<open>(string, 'a) fmap\<close>; copying one is the identity on
    values, a missing key reads as the zero value of \<open>'a\<close>;
  \<^item> \<open>sort.Strings\<close> over the keys of a map is the sorted list of its domain (byte-wise
    lexicographic order, as in Go).
\<close>

named_theorems node_defs "definitions of the operations on a node"
named_theorems frame "what an operation leaves unchanged"

type_synonym bytes = string
type_synonym 'a gomap = "(string, 'a) fmap"
type_synonym addrmap = "string gomap"

definition map_get :: "'a \<Rightarrow> 'a gomap \<Rightarrow> string \<Rightarrow> 'a" where
  "map_get zero m k = (case fmlookup m k of None \<Rightarrow> zero | Some v \<Rightarrow> v)"

definition map_keys :: "'a gomap \<Rightarrow> string list" where
  "map_keys m = sorted_list_of_set (fset (fmdom m))"

definition map_len :: "'a gomap \<Rightarrow> int" where
  "map_len m = int (length (map_keys m))"

definition map_has :: "'a gomap \<Rightarrow> string \<Rightarrow> bool" where
  "map_has m k = (fmlookup m k \<noteq> None)"

lemma map_get_upd [simp]:
  "map_get z (fmupd k v m) k' = (if k = k' then v else map_get z m k')"
  by (simp add: map_get_def)

lemma map_get_empty [simp]: "map_get z fmempty k = z"
  by (simp add: map_get_def)

lemma map_has_upd [simp]: "map_has (fmupd k v m) k' \<longleftrightarrow> k = k' \<or> map_has m k'"
  by (simp add: map_has_def)

lemma map_has_empty [simp]: "\<not> map_has fmempty k"
  by (simp add: map_has_def)

lemma set_map_keys [simp]: "set (map_keys m) = {k. map_has m k}"
  by (auto simp: map_keys_def map_has_def fmlookup_dom_iff)

lemma distinct_map_keys [simp]: "distinct (map_keys m)"
  by (simp add: map_keys_def)

lemma sorted_map_keys [simp]: "sorted (map_keys m)"
  by (simp add: map_keys_def)

lemma map_keys_empty [simp]: "map_keys fmempty = []"
  by (simp add: map_keys_def)

lemma map_keys_upd [simp]:
  "map_keys (fmupd k v m) = insort k (remove1 k (map_keys m))"
proof -
  have "insert k (fset (fmdom m)) = insert k (fset (fmdom m) - {k})" by blast
  then show ?thesis
    by (simp add: map_keys_def sorted_list_of_set_remove[symmetric])
qed

lemma sorted_snoc_iff: "sorted (xs @ [x]) \<longleftrightarrow> sorted xs \<and> (xs = [] \<or> last xs \<le> x)"
  by (cases xs rule: rev_cases) (auto simp: sorted_append)

end
