(* ===== verification/Raft_Types.thy ===== *)
theory Raft_Types
  imports Go_Prelude
begin

text \<open>
  The data of package \<open>raft\<close>: roles and errors (\<open>raft/node.go\<close>), log entries and membership
  changes, the arguments and replies of the three RPCs (\<open>raft/rpc.go\<close>, \<open>raft/snapshot.go\<close>),
  the durable state (\<open>raft/persist.go\<close>) and the node itself (\<open>RaftNode\<close>).

  The interfaces a node is configured with are records of functions.  A \<open>Storage\<close> acts on a
  disk of type \<open>'disk\<close>; the apply callback, the \<open>Snapshotter\<close> and the peer hook act on the
  state \<open>'w\<close> of whatever they close over (for the key-value server, its store and its
  redirect table).  Both are fields of the node, so a handler is a function on nodes.  A \<open>go\<close>
  statement appends the goroutine it starts to the field \<open>goroutines\<close>.
\<close>

subsection \<open>Roles and errors\<close>

datatype State = Follower | Candidate | Leader

definition State_String :: "State \<Rightarrow> string" where
  "State_String s = (case s of
     Follower \<Rightarrow> ''follower''
   | Candidate \<Rightarrow> ''candidate''
   | Leader \<Rightarrow> ''leader'')"

datatype raft_error =
    ErrNotLeader | ErrTimeout | ErrStaleLeader | ErrStopped | ErrUnreachable
  | ErrAlreadyMember | ErrNotMember | ErrConfigInProgress | ErrLastMember | ErrRemoveLeader
  | ErrMsg string

subsection \<open>Log entries\<close>

definition ChangeAdd :: string where "ChangeAdd = ''add''"
definition ChangeRemove :: string where "ChangeRemove = ''remove''"

record MembershipChange =
  chType :: string
  chID :: string
  chAddr :: string
  chHTTP :: string
  chPeers :: addrmap
  chHTTPAddrs :: addrmap

record LogEntry =
  eTerm :: int
  eIndex :: int
  eCommand :: bytes
  eChange :: "MembershipChange option"

record ApplyMsg =
  amIndex :: int
  amCommand :: bytes

subsection \<open>RPC arguments and replies\<close>

record RequestVoteRequest =
  rvTerm :: int
  rvCandidateID :: string
  rvLastLogIndex :: int
  rvLastLogTerm :: int

record RequestVoteResponse =
  rvrTerm :: int
  rvrVoteGranted :: bool

record AppendEntriesRequest =
  aeTerm :: int
  aeLeaderID :: string
  aePrevLogIndex :: int
  aePrevLogTerm :: int
  aeEntries :: "LogEntry list"
  aeLeaderCommit :: int

record AppendEntriesResponse =
  aerTerm :: int
  aerSuccess :: bool

record InstallSnapshotRequest =
  isTerm :: int
  isLeaderID :: string
  isLastIncludedIndex :: int
  isLastIncludedTerm :: int
  isData :: bytes
  isPeers :: addrmap
  isHTTP :: addrmap

record InstallSnapshotResponse =
  isrTerm :: int

subsection \<open>Interfaces\<close>

record DurableState =
  dsCurrentTerm :: int
  dsVotedFor :: string
  dsLog :: "LogEntry list"
  dsSnapshot :: bytes
  dsSnapshotPeers :: addrmap
  dsSnapshotHTTP :: addrmap

record 'disk Storage =
  Save :: "DurableState \<Rightarrow> 'disk \<Rightarrow> raft_error option \<times> 'disk"
  Load :: "'disk \<Rightarrow> raft_error + DurableState"

record 'w Snapshotter =
  Snapshot :: "'w \<Rightarrow> raft_error + bytes"
  Restore :: "bytes \<Rightarrow> 'w \<Rightarrow> raft_error option \<times> 'w"

text \<open>
  The client side of the gRPC transport keeps the dial addresses and, for every peer it has
  dialled, the address of the cached connection (\<open>raft/grpc.go\<close>).
\<close>

record GRPCTransport =
  addrs :: addrmap
  conns :: addrmap

datatype transport =
    MemoryTransport string
  | StubTransport
  | GRPC GRPCTransport
  | FilterTransport string transport

datatype goroutine =
    ReplicateTo string
  | SendRequestVote string RequestVoteRequest

subsection \<open>The node\<close>

record ('w, 'disk) RaftNode =
  nid :: string
  peerAddrs :: addrmap
  peerHTTP :: addrmap
  peerIDs :: "string list"
  basePeers :: addrmap
  baseHTTP :: addrmap
  joining :: bool
  peerHook :: "(addrmap \<Rightarrow> addrmap \<Rightarrow> 'w \<Rightarrow> 'w) option"
  transport :: "transport option"
  apply_fn :: "(ApplyMsg \<Rightarrow> 'w \<Rightarrow> 'w) option"
  storage :: "'disk Storage option"
  snapshotter :: "'w Snapshotter option"
  snapshotThreshold :: int
  snapshot :: bytes
  electionTimeoutMin :: int
  electionTimeoutMax :: int
  heartbeatInterval :: int
  state :: State
  currentTerm :: int
  votedFor :: string
  rlog :: "LogEntry list"
  commitIndex :: int
  lastApplied :: int
  nextIndex :: "int gomap"
  matchIndex :: "int gomap"
  replicating :: "bool gomap"
  votesReceived :: "bool gomap"
  leaderID :: string
  electionDeadline :: int
  nextHeartbeat :: int
  stopped :: bool
  disk :: 'disk
  world :: 'w
  goroutines :: "goroutine list"

text \<open>
  What a handler reads from the runtime: the clock (\<open>time.Now()\<close>) and one draw of the
  random generator, reduced to the requested range by \<open>Int63n\<close>.
\<close>

record Env =
  now :: int
  rnd :: int

definition Int63n :: "Env \<Rightarrow> int \<Rightarrow> int" where
  "Int63n e n = rnd e mod n"

lemma Int63n_range: "0 < n \<Longrightarrow> 0 \<le> Int63n e n \<and> Int63n e n < n"
  by (simp add: Int63n_def)

end
