(* ===== verification/Raft_Log.thy ===== *)
theory Raft_Log
  imports Raft_Types
begin

text \<open>
  Access to the log of a node by Raft index (\<open>raft/log.go\<close>, lines 3 to 40) and the writing of
  durable state (\<open>raft/persist.go\<close>, \<open>persistLocked\<close>).  The log is never empty: its head is a
  dummy entry whose index and term are those of the last entry the snapshot includes (0 and 0
  before the first compaction).
\<close>

subsection \<open>Operations\<close>

definition lastLogIndexLocked :: "('w, 'd) RaftNode \<Rightarrow> int" where
  "lastLogIndexLocked n = eIndex (last (rlog n))"

definition lastLogTermLocked :: "('w, 'd) RaftNode \<Rightarrow> int" where
  "lastLogTermLocked n = eTerm (last (rlog n))"

definition lastIncludedIndexLocked :: "('w, 'd) RaftNode \<Rightarrow> int" where
  "lastIncludedIndexLocked n = eIndex (hd (rlog n))"

definition lastIncludedTermLocked :: "('w, 'd) RaftNode \<Rightarrow> int" where
  "lastIncludedTermLocked n = eTerm (hd (rlog n))"

definition sliceIndexLocked :: "('w, 'd) RaftNode \<Rightarrow> int \<Rightarrow> int" where
  "sliceIndexLocked n raftIndex = raftIndex - eIndex (hd (rlog n))"

definition entryAtLocked :: "('w, 'd) RaftNode \<Rightarrow> int \<Rightarrow> LogEntry option" where
  "entryAtLocked n raftIndex =
     (let si = sliceIndexLocked n raftIndex in
      if si < 0 \<or> si \<ge> int (length (rlog n)) then None
      else Some (rlog n ! nat si))"

definition termAtLocked :: "('w, 'd) RaftNode \<Rightarrow> int \<Rightarrow> int option" where
  "termAtLocked n raftIndex = map_option eTerm (entryAtLocked n raftIndex)"

definition durableOf :: "('w, 'd) RaftNode \<Rightarrow> DurableState" where
  "durableOf n =
     \<lparr>dsCurrentTerm = currentTerm n, dsVotedFor = votedFor n, dsLog = rlog n,
      dsSnapshot = snapshot n, dsSnapshotPeers = basePeers n, dsSnapshotHTTP = baseHTTP n\<rparr>"

text \<open>An error of \<open>Save\<close> is logged and otherwise ignored.\<close>

definition persistLocked :: "('w, 'd) RaftNode \<Rightarrow> ('w, 'd) RaftNode" where
  "persistLocked n = n\<lparr>disk :=
     (case storage n of
        None \<Rightarrow> disk n
      | Some s \<Rightarrow> snd (Save s (durableOf n) (disk n)))\<rparr>"

definition cloneEntries :: "LogEntry list \<Rightarrow> LogEntry list" where
  "cloneEntries entries = map (\<lambda>e. e) entries"

lemma cloneEntries_id [simp]: "cloneEntries entries = entries"
  by (simp add: cloneEntries_def)

subsection \<open>Well-formed logs\<close>

text \<open>
  The indices of a log are contiguous: entry \<open>k\<close> of the slice has Raft index
  \<open>lastIncludedIndex + k\<close>.
\<close>

definition contiguous :: "LogEntry list \<Rightarrow> bool" where
  "contiguous es \<longleftrightarrow> (\<forall>k < length es. eIndex (es ! k) = eIndex (hd es) + int k)"

definition log_ok :: "LogEntry list \<Rightarrow> bool" where
  "log_ok es \<longleftrightarrow> es \<noteq> [] \<and> contiguous es \<and> sorted (map eTerm es)"

lemma contiguousI [intro]:
  "(\<And>k. k < length es \<Longrightarrow> eIndex (es ! k) = eIndex (hd es) + int k) \<Longrightarrow> contiguous es"
  by (simp add: contiguous_def)

lemma contiguousD: "contiguous es \<Longrightarrow> k < length es \<Longrightarrow> eIndex (es ! k) = eIndex (hd es) + int k"
  by (simp add: contiguous_def)

lemma contiguous_last:
  "contiguous es \<Longrightarrow> es \<noteq> [] \<Longrightarrow> eIndex (last es) = eIndex (hd es) + int (length es) - 1"
  by (cases es rule: rev_cases) (auto simp: contiguous_def nth_append dest: spec[of _ "length es - 1"])

lemma contiguous_take [intro]: "contiguous es \<Longrightarrow> contiguous (take k es)"
  by (cases "es = [] \<or> k = 0") (auto simp: contiguous_def hd_take)

lemma contiguous_singleton [simp]: "contiguous [e]"
  by (simp add: contiguous_def)

lemma contiguous_append:
  assumes "es \<noteq> []"
  shows "contiguous (es @ fs) \<longleftrightarrow>
    contiguous es \<and> (\<forall>k < length fs. eIndex (fs ! k) = eIndex (hd es) + int (length es) + int k)"
proof -
  have "(\<forall>k < length (es @ fs). eIndex ((es @ fs) ! k) = eIndex (hd es) + int k) \<longleftrightarrow>
     (\<forall>k < length es. eIndex (es ! k) = eIndex (hd es) + int k) \<and>
     (\<forall>k < length fs. eIndex (fs ! k) = eIndex (hd es) + int (length es) + int k)"
    (is "?L \<longleftrightarrow> ?A \<and> ?B")
  proof
    assume L: ?L
    have ?A using L by (metis length_append nth_append trans_less_add1)
    moreover have ?B
    proof (intro allI impI)
      fix k assume "k < length fs"
      then show "eIndex (fs ! k) = eIndex (hd es) + int (length es) + int k"
        using L[rule_format, of "length es + k"] by simp
    qed
    ultimately show "?A \<and> ?B" ..
  next
    assume "?A \<and> ?B"
    then show ?L
      by (auto simp: nth_append not_less algebra_simps)
  qed
  then show ?thesis using assms by (simp add: contiguous_def)
qed

lemma contiguous_snoc:
  "es \<noteq> [] \<Longrightarrow> contiguous (es @ [e]) \<longleftrightarrow> contiguous es \<and> eIndex e = eIndex (hd es) + int (length es)"
  by (simp add: contiguous_append)

lemma contiguous_hd_tl: "contiguous (e # es) \<Longrightarrow> es \<noteq> [] \<Longrightarrow> eIndex (hd es) = eIndex e + 1"
  by (auto simp: contiguous_def hd_conv_nth dest: spec[of _ 1])

lemma contiguous_drop: "contiguous es \<Longrightarrow> contiguous (drop k es)"
  by (cases "k < length es") (auto simp: contiguous_def hd_drop_conv_nth)

lemma contiguous_Cons:
  "contiguous (e # es) \<longleftrightarrow> es = [] \<or> (contiguous es \<and> eIndex (hd es) = eIndex e + 1)"
proof (cases "es = []")
  case False
  have "contiguous (e # es) \<longleftrightarrow> (\<forall>k < length es. eIndex (es ! k) = eIndex e + 1 + int k)"
    using contiguous_append[of "[e]" es] by simp
  also have "\<dots> \<longleftrightarrow> contiguous es \<and> eIndex (hd es) = eIndex e + 1"
    using False by (auto simp: contiguous_def hd_conv_nth)
  finally show ?thesis using False by simp
qed simp

lemma log_ok_nonempty [dest]: "log_ok es \<Longrightarrow> es \<noteq> []"
  by (simp add: log_ok_def)

lemma log_ok_contiguous [dest]: "log_ok es \<Longrightarrow> contiguous es"
  by (simp add: log_ok_def)

lemma log_ok_take: "log_ok es \<Longrightarrow> 0 < k \<Longrightarrow> log_ok (take k es)"
  by (auto simp: log_ok_def take_map[symmetric] sorted_wrt_take)

lemma log_ok_snoc:
  "log_ok es \<Longrightarrow> eTerm (last es) \<le> eTerm e \<Longrightarrow> eIndex e = eIndex (last es) + 1 \<Longrightarrow> log_ok (es @ [e])"
  by (auto simp: log_ok_def contiguous_snoc contiguous_last sorted_snoc_iff last_map)

subsection \<open>Access by index\<close>

lemma entryAtLocked_Some_iff:
  "entryAtLocked n i = Some e \<longleftrightarrow>
     lastIncludedIndexLocked n \<le> i \<and>
     i < lastIncludedIndexLocked n + int (length (rlog n)) \<and>
     e = rlog n ! nat (i - lastIncludedIndexLocked n)"
  by (auto simp: entryAtLocked_def sliceIndexLocked_def lastIncludedIndexLocked_def Let_def)

lemma entryAtLocked_None_iff:
  "entryAtLocked n i = None \<longleftrightarrow>
     i < lastIncludedIndexLocked n \<or> lastIncludedIndexLocked n + int (length (rlog n)) \<le> i"
  by (auto simp: entryAtLocked_def sliceIndexLocked_def lastIncludedIndexLocked_def Let_def)

lemma entryAtLocked_cong:
  "rlog m = rlog n \<Longrightarrow> entryAtLocked m i = entryAtLocked n i"
  by (simp add: entryAtLocked_def sliceIndexLocked_def Let_def)

lemma lastLogIndexLocked_eq:
  "contiguous (rlog n) \<Longrightarrow> rlog n \<noteq> [] \<Longrightarrow>
   lastLogIndexLocked n = lastIncludedIndexLocked n + int (length (rlog n)) - 1"
  by (simp add: lastLogIndexLocked_def lastIncludedIndexLocked_def contiguous_last)

lemma entryAtLocked_index:
  "contiguous (rlog n) \<Longrightarrow> entryAtLocked n i = Some e \<Longrightarrow> eIndex e = i"
  by (auto simp: entryAtLocked_Some_iff lastIncludedIndexLocked_def contiguousD)

lemma entryAtLocked_defined:
  "log_ok (rlog n) \<Longrightarrow>
   (\<exists>e. entryAtLocked n i = Some e) \<longleftrightarrow> lastIncludedIndexLocked n \<le> i \<and> i \<le> lastLogIndexLocked n"
  by (auto simp: entryAtLocked_Some_iff lastLogIndexLocked_eq log_ok_def)

lemma entryAtLocked_last:
  "log_ok (rlog n) \<Longrightarrow> entryAtLocked n (lastLogIndexLocked n) = Some (last (rlog n))"
  by (auto simp: entryAtLocked_Some_iff lastLogIndexLocked_eq log_ok_def last_conv_nth
        nat_diff_distrib' Suc_le_eq)

lemma lastIncluded_le_last: "log_ok (rlog n) \<Longrightarrow> lastIncludedIndexLocked n \<le> lastLogIndexLocked n"
  by (auto simp: lastLogIndexLocked_eq log_ok_def Suc_le_eq)

end
