(* ===== verification/Raft_Membership.thy ===== *)
theory Raft_Membership
  imports Raft_Log
begin

text \<open>
  The configuration of a node (\<open>raft/membership.go\<close>): replaying the membership changes of the log
  over the snapshot's configuration, the tracking of new peers, the notification of the
  transport and of the peer hook, and the majority of the current configuration
  (\<open>raft/node.go\<close>, \<open>majority\<close>).
\<close>

subsection \<open>Operations\<close>

definition cloneStringMap :: "addrmap \<Rightarrow> addrmap" where
  "cloneStringMap m = m"

definition majority :: "('w, 'd) RaftNode \<Rightarrow> int" where
  "majority n = int (length (peerIDs n)) div 2 + 1"

definition isVoterLocked :: "('w, 'd) RaftNode \<Rightarrow> bool" where
  "isVoterLocked n = map_has (peerAddrs n) (nid n)"

text \<open>
  The source empties the two maps and refills them when the change carries a full
  configuration, and edits them in place otherwise.
\<close>

definition applyChange :: "addrmap \<Rightarrow> addrmap \<Rightarrow> MembershipChange \<Rightarrow> addrmap \<times> addrmap" where
  "applyChange peers httpAddrs ch =
     (if map_len (chPeers ch) > 0 then (chPeers ch, chHTTPAddrs ch)
      else if chType ch = ChangeAdd then
        (fmupd (chID ch) (chAddr ch) peers,
         if chHTTP ch \<noteq> '''' then fmupd (chID ch) (chHTTP ch) httpAddrs else httpAddrs)
      else if chType ch = ChangeRemove then
        (fmdrop (chID ch) peers, fmdrop (chID ch) httpAddrs)
      else (peers, httpAddrs))"

definition applyEntryChange :: "LogEntry \<Rightarrow> addrmap \<times> addrmap \<Rightarrow> addrmap \<times> addrmap" where
  "applyEntryChange e ph =
     (case eChange e of None \<Rightarrow> ph | Some ch \<Rightarrow> applyChange (fst ph) (snd ph) ch)"

definition rebuildPeerIDsLocked :: "('w, 'd) RaftNode \<Rightarrow> ('w, 'd) RaftNode" where
  "rebuildPeerIDsLocked n = n\<lparr>peerIDs := map_keys (peerAddrs n)\<rparr>"

definition rebuildMembershipLocked :: "('w, 'd) RaftNode \<Rightarrow> ('w, 'd) RaftNode" where
  "rebuildMembershipLocked n =
     (let ph = fold applyEntryChange (tl (rlog n))
                 (cloneStringMap (basePeers n), cloneStringMap (baseHTTP n))
      in rebuildPeerIDsLocked (n\<lparr>peerAddrs := fst ph, peerHTTP := snd ph\<rparr>))"

definition membershipAtLocked :: "('w, 'd) RaftNode \<Rightarrow> int \<Rightarrow> addrmap \<times> addrmap" where
  "membershipAtLocked n index =
     fold applyEntryChange (takeWhile (\<lambda>e. \<not> eIndex e > index) (tl (rlog n)))
       (cloneStringMap (basePeers n), cloneStringMap (baseHTTP n))"

fun hasUncommittedFrom :: "('w, 'd) RaftNode \<Rightarrow> int \<Rightarrow> nat \<Rightarrow> bool" where
  "hasUncommittedFrom n idx 0 = False"
| "hasUncommittedFrom n idx (Suc k) =
     (case entryAtLocked n idx of
        Some e \<Rightarrow> (if eChange e \<noteq> None then True else hasUncommittedFrom n (idx + 1) k)
      | None \<Rightarrow> hasUncommittedFrom n (idx + 1) k)"

definition hasUncommittedConfigLocked :: "('w, 'd) RaftNode \<Rightarrow> bool" where
  "hasUncommittedConfigLocked n =
     hasUncommittedFrom n (commitIndex n + 1) (nat (lastLogIndexLocked n - commitIndex n))"

definition trackPeer :: "string \<Rightarrow> ('w, 'd) RaftNode \<Rightarrow> ('w, 'd) RaftNode" where
  "trackPeer p n =
     (if map_has (nextIndex n) p then n
      else
        let last = lastLogIndexLocked n; snap = lastIncludedIndexLocked n in
        n\<lparr>nextIndex := fmupd p (if snap > 0 then snap else if last + 1 < 1 then 1 else last + 1)
                        (nextIndex n),
          matchIndex := fmupd p 0 (matchIndex n)\<rparr>)"

definition ensurePeerTrackingLocked :: "('w, 'd) RaftNode \<Rightarrow> ('w, 'd) RaftNode" where
  "ensurePeerTrackingLocked n = fold trackPeer (peerIDs n) n"

definition GRPC_SetPeerAddr :: "string \<Rightarrow> string \<Rightarrow> GRPCTransport \<Rightarrow> GRPCTransport" where
  "GRPC_SetPeerAddr peer addr t =
     (if map_get '''' (addrs t) peer = addr then t
      else t\<lparr>conns := fmdrop peer (conns t), addrs := fmupd peer addr (addrs t)\<rparr>)"

text \<open>The transports of the tests have no \<open>SetPeerAddr\<close>; the fault filter forwards to its inner one.\<close>

fun SetPeerAddr :: "string \<Rightarrow> string \<Rightarrow> transport \<Rightarrow> transport" where
  "SetPeerAddr peer addr (GRPC t) = GRPC (GRPC_SetPeerAddr peer addr t)"
| "SetPeerAddr peer addr (FilterTransport from inner) =
     FilterTransport from (SetPeerAddr peer addr inner)"
| "SetPeerAddr peer addr (MemoryTransport from) = MemoryTransport from"
| "SetPeerAddr peer addr StubTransport = StubTransport"

definition notifyPeersLocked :: "('w, 'd) RaftNode \<Rightarrow> ('w, 'd) RaftNode" where
  "notifyPeersLocked n = n\<lparr>
     transport := map_option
       (\<lambda>t. fold (\<lambda>p. SetPeerAddr p (map_get '''' (peerAddrs n) p)) (map_keys (peerAddrs n)) t)
       (transport n),
     world := (case peerHook n of
        None \<Rightarrow> world n
      | Some h \<Rightarrow> h (cloneStringMap (peerAddrs n)) (cloneStringMap (peerHTTP n)) (world n))\<rparr>"

definition SetPeerHook :: "(addrmap \<Rightarrow> addrmap \<Rightarrow> 'w \<Rightarrow> 'w) \<Rightarrow> ('w, 'd) RaftNode \<Rightarrow> ('w, 'd) RaftNode" where
  "SetPeerHook h n = n\<lparr>peerHook := Some h\<rparr>"

definition PeerHTTP :: "('w, 'd) RaftNode \<Rightarrow> string \<Rightarrow> string" where
  "PeerHTTP n p = map_get '''' (peerHTTP n) p"

lemmas membership_defs =
  rebuildMembershipLocked_def rebuildPeerIDsLocked_def notifyPeersLocked_def cloneStringMap_def

declare membership_defs [node_defs]

subsection \<open>Scanning the uncommitted suffix\<close>

definition changeAt :: "('w, 'd) RaftNode \<Rightarrow> int \<Rightarrow> bool" where
  "changeAt n i = (case entryAtLocked n i of None \<Rightarrow> False | Some e \<Rightarrow> eChange e \<noteq> None)"

lemma hasUncommittedFrom_iff:
  "hasUncommittedFrom n idx k \<longleftrightarrow> (\<exists>i. idx \<le> i \<and> i < idx + int k \<and> changeAt n i)"
proof (induction k arbitrary: idx)
  case 0
  then show ?case by simp
next
  case (Suc k)
  have range: "idx \<le> i \<and> i < idx + int (Suc k) \<longleftrightarrow> i = idx \<or> idx + 1 \<le> i \<and> i < idx + 1 + int k" for i
    by auto
  have "hasUncommittedFrom n idx (Suc k) \<longleftrightarrow> changeAt n idx \<or> hasUncommittedFrom n (idx + 1) k"
    by (auto simp: changeAt_def split: option.split)
  also have "\<dots> \<longleftrightarrow> (\<exists>i. (i = idx \<or> idx + 1 \<le> i \<and> i < idx + 1 + int k) \<and> changeAt n i)"
    unfolding Suc.IH by blast
  finally show ?case unfolding range[symmetric] by blast
qed

lemma hasUncommittedConfigLocked_iff:
  "hasUncommittedConfigLocked n \<longleftrightarrow>
     (\<exists>i. commitIndex n < i \<and> i \<le> lastLogIndexLocked n \<and> changeAt n i)"
proof -
  have "commitIndex n + 1 \<le> i \<and> i < commitIndex n + 1 + int (nat (lastLogIndexLocked n - commitIndex n))
    \<longleftrightarrow> commitIndex n < i \<and> i \<le> lastLogIndexLocked n" for i
    by auto
  then show ?thesis
    unfolding hasUncommittedConfigLocked_def hasUncommittedFrom_iff by blast
qed

subsection \<open>Replaying changes\<close>

lemma fold_applyEntryChange_none:
  "(\<forall>e \<in> set es. eChange e = None) \<Longrightarrow> fold applyEntryChange es ph = ph"
  by (induction es arbitrary: ph) (auto simp: applyEntryChange_def)

text \<open>
  The configuration that results from a log split at any point: this is what makes compaction
  transparent to membership.
\<close>

definition configOf :: "addrmap \<times> addrmap \<Rightarrow> LogEntry list \<Rightarrow> addrmap \<times> addrmap" where
  "configOf base es = fold applyEntryChange es base"

lemma configOf_append: "configOf base (es @ fs) = configOf (configOf base es) fs"
  by (simp add: configOf_def)

lemma rebuildMembershipLocked_config:
  "(peerAddrs (rebuildMembershipLocked n), peerHTTP (rebuildMembershipLocked n)) =
     configOf (basePeers n, baseHTTP n) (tl (rlog n))"
  by (simp add: rebuildMembershipLocked_def rebuildPeerIDsLocked_def configOf_def
      cloneStringMap_def Let_def)

lemma peerIDs_rebuild:
  "peerIDs (rebuildMembershipLocked n) = map_keys (peerAddrs (rebuildMembershipLocked n))"
  by (simp add: rebuildMembershipLocked_def rebuildPeerIDsLocked_def Let_def)

subsection \<open>Majorities\<close>

text \<open>
  What the rest of the protocol needs from a configuration: a family of quorums that meet
  pairwise.
\<close>

locale quorum_system =
  fixes quorum :: "'a set \<Rightarrow> bool"
  assumes quorum_meet: "quorum P \<Longrightarrow> quorum Q \<Longrightarrow> \<exists>p. p \<in> P \<and> p \<in> Q"
begin

lemma quorum_nonempty: "quorum Q \<Longrightarrow> Q \<noteq> {}"
  using quorum_meet by blast

lemma common_choice:
  assumes "quorum P" and "quorum Q"
    and "\<And>p. p \<in> P \<Longrightarrow> f p = x" and "\<And>p. p \<in> Q \<Longrightarrow> f p = y"
  shows "x = y"
  using quorum_meet[OF assms(1,2)] assms(3,4) by auto

end

text \<open>A set of peers is a majority of the configuration \<open>ids\<close> when it has more than half of them.\<close>

definition is_majority :: "string list \<Rightarrow> string set \<Rightarrow> bool" where
  "is_majority ids Q \<longleftrightarrow> Q \<subseteq> set ids \<and> int (card Q) \<ge> int (card (set ids)) div 2 + 1"

interpretation maj: quorum_system "is_majority ids" for ids
proof
  fix P Q assume PQ: "is_majority ids P" "is_majority ids Q"
  show "\<exists>p. p \<in> P \<and> p \<in> Q"
  proof (rule ccontr)
    assume "\<not> ?thesis"
    then have dis: "P \<inter> Q = {}" by blast
    have sub: "P \<union> Q \<subseteq> set ids" and fin: "finite P" "finite Q"
      using PQ by (auto simp: is_majority_def intro: finite_subset)
    have "card P + card Q = card (P \<union> Q)" using dis fin by (simp add: card_Un_disjoint)
    also have "\<dots> \<le> card (set ids)" using sub by (simp add: card_mono)
    finally have "card P + card Q \<le> card (set ids)" .
    moreover have "int (card P) + int (card Q) \<ge> 2 * (int (card (set ids)) div 2 + 1)"
      using PQ by (simp add: is_majority_def)
    ultimately show False by presburger
  qed
qed

end
