(* ===== verification/Raft_Snapshot.thy ===== *)
theory Raft_Snapshot
  imports Raft_Membership
begin

text \<open>
  Role changes shared by the receivers (\<open>becomeFollowerLocked\<close> of \<open>raft/node.go\<close>,
  \<open>resetElectionTimerLocked\<close> of \<open>raft/election.go\<close>) and log compaction
  (\<open>raft/snapshot.go\<close>): taking a snapshot at the last applied index, restoring one, and the
  InstallSnapshot RPC.
\<close>

subsection \<open>Operations\<close>

definition resetElectionTimerLocked :: "Env \<Rightarrow> ('w, 'd) RaftNode \<Rightarrow> ('w, 'd) RaftNode" where
  "resetElectionTimerLocked e n =
     (let span = electionTimeoutMax n - electionTimeoutMin n;
          jitter = (if span > 0 then Int63n e span else 0)
      in n\<lparr>electionDeadline := now e + (electionTimeoutMin n + jitter)\<rparr>)"

definition becomeFollowerLocked :: "int \<Rightarrow> string \<Rightarrow> ('w, 'd) RaftNode \<Rightarrow> ('w, 'd) RaftNode" where
  "becomeFollowerLocked term leader n =
     (let n1 = (if term > currentTerm n
                then persistLocked (n\<lparr>currentTerm := term, votedFor := ''''\<rparr>)
                else n)
      in n1\<lparr>state := Follower, leaderID := leader\<rparr>)"

definition compactLocked :: "int \<Rightarrow> ('w, 'd) RaftNode \<Rightarrow> ('w, 'd) RaftNode" where
  "compactLocked index n =
     (if index \<le> lastIncludedIndexLocked n then n
      else case entryAtLocked n index of
        None \<Rightarrow> n
      | Some e \<Rightarrow>
        (case snapshotter n of
           None \<Rightarrow> n
         | Some s \<Rightarrow>
           (case Snapshot s (world n) of
              Inl err \<Rightarrow> n
            | Inr data \<Rightarrow>
              (let si = sliceIndexLocked n index in
               if si < 0 \<or> si \<ge> int (length (rlog n)) then n
               else
                 let ph = membershipAtLocked n index;
                     suffix = cloneEntries (drop (nat si + 1) (rlog n));
                     dummy = \<lparr>eTerm = eTerm e, eIndex = index, eCommand = [], eChange = None\<rparr>;
                     n1 = n\<lparr>rlog := dummy # suffix, snapshot := data,
                            basePeers := fst ph, baseHTTP := snd ph\<rparr>
                 in persistLocked (notifyPeersLocked (rebuildMembershipLocked n1))))))"

definition maybeCompactLocked :: "('w, 'd) RaftNode \<Rightarrow> ('w, 'd) RaftNode" where
  "maybeCompactLocked n =
     (if snapshotter n = None \<or> snapshotThreshold n \<le> 0 then n
      else
        let applied = lastApplied n - lastIncludedIndexLocked n in
        if applied < snapshotThreshold n then n
        else compactLocked (lastApplied n) n)"

definition installSnapshotRequestLocked :: "('w, 'd) RaftNode \<Rightarrow> InstallSnapshotRequest" where
  "installSnapshotRequestLocked n =
     \<lparr>isTerm = currentTerm n, isLeaderID = nid n,
      isLastIncludedIndex = lastIncludedIndexLocked n,
      isLastIncludedTerm = lastIncludedTermLocked n,
      isData = snapshot n,
      isPeers = cloneStringMap (basePeers n), isHTTP = cloneStringMap (baseHTTP n)\<rparr>"

definition restoreWorld :: "('w, 'd) RaftNode \<Rightarrow> raft_error option \<times> 'w" where
  "restoreWorld n =
     (case snapshotter n of
        None \<Rightarrow> (None, world n)
      | Some s \<Rightarrow> if snapshot n = [] then (None, world n) else Restore s (snapshot n) (world n))"

text \<open>The part of the InstallSnapshot receiver that replaces log, snapshot and state machine.\<close>

definition installSnapshot :: "InstallSnapshotRequest \<Rightarrow> ('w, 'd) RaftNode \<Rightarrow> ('w, 'd) RaftNode" where
  "installSnapshot req n =
     (let n1 = n\<lparr>rlog := [\<lparr>eTerm = isLastIncludedTerm req, eIndex = isLastIncludedIndex req,
                          eCommand = [], eChange = None\<rparr>],
                snapshot := isData req\<rparr>;
          n2 = (if map_len (isPeers req) > 0
                then notifyPeersLocked (rebuildMembershipLocked
                       (n1\<lparr>basePeers := cloneStringMap (isPeers req),
                           baseHTTP := cloneStringMap (isHTTP req)\<rparr>))
                else n1);
          n3 = n2\<lparr>world := snd (restoreWorld n2)\<rparr>;
          n4 = n3\<lparr>lastApplied := isLastIncludedIndex req,
                  commitIndex := (if commitIndex n3 < isLastIncludedIndex req
                                  then isLastIncludedIndex req else commitIndex n3)\<rparr>
      in persistLocked n4)"

definition HandleInstallSnapshot ::
  "Env \<Rightarrow> InstallSnapshotRequest \<Rightarrow> ('w, 'd) RaftNode \<Rightarrow> InstallSnapshotResponse \<times> ('w, 'd) RaftNode" where
  "HandleInstallSnapshot e req n =
     (if isTerm req < currentTerm n then (\<lparr>isrTerm = currentTerm n\<rparr>, n)
      else
        let n1 = (if isTerm req > currentTerm n \<or> state n \<noteq> Follower
                  then becomeFollowerLocked (isTerm req) (isLeaderID req) n else n);
            n2 = (resetElectionTimerLocked e (n1\<lparr>leaderID := isLeaderID req\<rparr>))\<lparr>joining := False\<rparr>;
            resp = \<lparr>isrTerm = currentTerm n2\<rparr>
        in if isLastIncludedIndex req \<le> lastIncludedIndexLocked n2 then (resp, n2)
           else (resp, installSnapshot req n2))"

definition restoreSnapshotLocked :: "('w, 'd) RaftNode \<Rightarrow> ('w, 'd) RaftNode" where
  "restoreSnapshotLocked n =
     (if snapshotter n = None \<or> snapshot n = [] then n
      else case restoreWorld n of
        (Some err, w) \<Rightarrow> n\<lparr>world := w\<rparr>
      | (None, w) \<Rightarrow>
        let snapIdx = lastIncludedIndexLocked n in
        n\<lparr>world := w,
          lastApplied := (if lastApplied n < snapIdx then snapIdx else lastApplied n),
          commitIndex := (if commitIndex n < snapIdx then snapIdx else commitIndex n)\<rparr>)"

definition SetSnapshotter :: "'w Snapshotter \<Rightarrow> ('w, 'd) RaftNode \<Rightarrow> ('w, 'd) RaftNode" where
  "SetSnapshotter s n = restoreSnapshotLocked (n\<lparr>snapshotter := Some s\<rparr>)"

definition SnapshotIndex :: "('w, 'd) RaftNode \<Rightarrow> int" where
  "SnapshotIndex n = lastIncludedIndexLocked n"

definition LogLen :: "('w, 'd) RaftNode \<Rightarrow> int" where
  "LogLen n = (if rlog n = [] then 0 else int (length (rlog n)) - 1)"

declare resetElectionTimerLocked_def [node_defs] becomeFollowerLocked_def [node_defs]

end
