(* ===== verification/Raft_Replication.thy ===== *)
theory Raft_Replication
  imports Raft_Snapshot
begin

text \<open>
  Log replication (\<open>raft/log.go\<close>, lines 42 to 314): the leader's side (\<open>replicateTo\<close> and the
  request it builds), the AppendEntries receiver, the advancing of the commit index and the
  application of committed entries.

  \<open>replicateTo\<close> holds the mutex only between two RPCs.  Its body is split at those points:
  \<open>replicateSend\<close> is the part before the RPC, \<open>replicateInstallResp\<close> and
  \<open>replicateAppendResp\<close> are the parts after it (the boolean says whether the loop goes on) and
  \<open>replicateExit\<close> is the deferred function.
\<close>

subsection \<open>Applying committed entries\<close>

definition applyEntry :: "LogEntry \<Rightarrow> int \<Rightarrow> ('w, 'd) RaftNode \<Rightarrow> ('w, 'd) RaftNode" where
  "applyEntry e next n = n\<lparr>lastApplied := next,
     world := (case apply_fn n of
        None \<Rightarrow> world n
      | Some f \<Rightarrow> if eChange e = None
                  then f \<lparr>amIndex = next, amCommand = eCommand e\<rparr> (world n) else world n)\<rparr>"

function applyLoop :: "('w, 'd) RaftNode \<Rightarrow> ('w, 'd) RaftNode" where
  "applyLoop n =
     (if lastApplied n < commitIndex n then
        (let next = lastApplied n + 1 in
         case entryAtLocked n next of
           None \<Rightarrow> n
         | Some e \<Rightarrow> applyLoop (applyEntry e next n))
      else n)"
  by pat_completeness auto
termination
  by (relation "measure (\<lambda>n. nat (commitIndex n - lastApplied n))") (auto simp: applyEntry_def)

declare applyLoop.simps [simp del]

definition applyCommittedLocked :: "('w, 'd) RaftNode \<Rightarrow> ('w, 'd) RaftNode" where
  "applyCommittedLocked n = maybeCompactLocked (applyLoop n)"

subsection \<open>Advancing the commit index\<close>

definition matchCount :: "('w, 'd) RaftNode \<Rightarrow> int \<Rightarrow> int" where
  "matchCount n idx =
     int (length (filter (\<lambda>p. map_get 0 (matchIndex n) p \<ge> idx) (peerIDs n)))"

function advanceLoop :: "int \<Rightarrow> ('w, 'd) RaftNode \<Rightarrow> ('w, 'd) RaftNode" where
  "advanceLoop idx n =
     (if idx > commitIndex n then
        (if termAtLocked n idx \<noteq> Some (currentTerm n) then advanceLoop (idx - 1) n
         else if matchCount n idx \<ge> majority n then n\<lparr>commitIndex := idx\<rparr>
         else advanceLoop (idx - 1) n)
      else n)"
  by pat_completeness auto
termination
  by (relation "measure (\<lambda>(idx, n). nat (idx - commitIndex n))") auto

declare advanceLoop.simps [simp del]

definition advanceCommitLocked :: "('w, 'd) RaftNode \<Rightarrow> ('w, 'd) RaftNode" where
  "advanceCommitLocked n = advanceLoop (lastLogIndexLocked n) n"

subsection \<open>The leader's side\<close>

definition startReplication :: "string \<Rightarrow> ('w, 'd) RaftNode \<Rightarrow> ('w, 'd) RaftNode" where
  "startReplication peer n =
     (if peer = nid n then n
      else if map_get False (replicating n) peer then n
      else n\<lparr>replicating := fmupd peer True (replicating n),
             goroutines := goroutines n @ [ReplicateTo peer]\<rparr>)"

definition broadcastAppendEntriesLocked :: "('w, 'd) RaftNode \<Rightarrow> ('w, 'd) RaftNode" where
  "broadcastAppendEntriesLocked n =
     (if transport n = None then n else fold startReplication (peerIDs n) n)"

definition shouldInstallSnapshotLocked :: "string \<Rightarrow> ('w, 'd) RaftNode \<Rightarrow> bool" where
  "shouldInstallSnapshotLocked peer n =
     (let snap = lastIncludedIndexLocked n in snap > 0 \<and> map_get 0 (nextIndex n) peer \<le> snap)"

definition makeAppendRequestLocked ::
  "string \<Rightarrow> ('w, 'd) RaftNode \<Rightarrow> (AppendEntriesRequest \<times> int) option \<times> ('w, 'd) RaftNode" where
  "makeAppendRequestLocked peer n =
     (let next = map_get 0 (nextIndex n) peer; snap = lastIncludedIndexLocked n in
      if next \<le> snap then (None, n)
      else
        let last = lastLogIndexLocked n;
            next1 = (if next > last + 1 then last + 1 else next);
            n1 = (if next > last + 1 then n\<lparr>nextIndex := fmupd peer next1 (nextIndex n)\<rparr> else n);
            prevIndex = next1 - 1
        in case termAtLocked n1 prevIndex of
             None \<Rightarrow> (None, n1)
           | Some prevTerm \<Rightarrow>
             (let start0 = sliceIndexLocked n1 next1;
                  start1 = (if start0 < 1 then 1 else start0);
                  start2 = (if start1 > int (length (rlog n1)) then int (length (rlog n1)) else start1)
              in (Some (\<lparr>aeTerm = currentTerm n1, aeLeaderID = nid n1,
                         aePrevLogIndex = prevIndex, aePrevLogTerm = prevTerm,
                         aeEntries = cloneEntries (drop (nat start2) (rlog n1)),
                         aeLeaderCommit = commitIndex n1\<rparr>, currentTerm n1), n1)))"

datatype replicate_call =
    CallNone
  | CallInstall InstallSnapshotRequest int
  | CallAppend AppendEntriesRequest int

definition replicateSend ::
  "string \<Rightarrow> ('w, 'd) RaftNode \<Rightarrow> replicate_call \<times> ('w, 'd) RaftNode" where
  "replicateSend peer n =
     (if state n \<noteq> Leader then (CallNone, n)
      else if shouldInstallSnapshotLocked peer n
        then (CallInstall (installSnapshotRequestLocked n) (currentTerm n), n)
      else case makeAppendRequestLocked peer n of
        (None, n1) \<Rightarrow> (CallNone, n1)
      | (Some (req, term), n1) \<Rightarrow> (CallAppend req term, n1))"

definition stepDown :: "Env \<Rightarrow> int \<Rightarrow> ('w, 'd) RaftNode \<Rightarrow> ('w, 'd) RaftNode" where
  "stepDown e term n = resetElectionTimerLocked e (becomeFollowerLocked term '''' n)"

definition recordMatch :: "string \<Rightarrow> int \<Rightarrow> ('w, 'd) RaftNode \<Rightarrow> ('w, 'd) RaftNode" where
  "recordMatch peer idx n = n\<lparr>matchIndex := fmupd peer idx (matchIndex n),
                              nextIndex := fmupd peer (idx + 1) (nextIndex n)\<rparr>"

definition replicateInstallResp ::
  "Env \<Rightarrow> string \<Rightarrow> InstallSnapshotRequest \<Rightarrow> int \<Rightarrow> InstallSnapshotResponse \<Rightarrow>
   ('w, 'd) RaftNode \<Rightarrow> bool \<times> ('w, 'd) RaftNode" where
  "replicateInstallResp e peer req term resp n =
     (if state n \<noteq> Leader \<or> currentTerm n \<noteq> term then (False, n)
      else if isrTerm resp > currentTerm n then (False, stepDown e (isrTerm resp) n)
      else
        let n1 = applyCommittedLocked (advanceCommitLocked
                   (recordMatch peer (isLastIncludedIndex req) n))
        in (lastLogIndexLocked n1 > map_get 0 (matchIndex n1) peer, n1))"

definition backOff :: "string \<Rightarrow> ('w, 'd) RaftNode \<Rightarrow> ('w, 'd) RaftNode" where
  "backOff peer n =
     (let snap = lastIncludedIndexLocked n; next = map_get 0 (nextIndex n) peer in
      if next > snap + 1 then n\<lparr>nextIndex := fmupd peer (next - 1) (nextIndex n)\<rparr>
      else if snap > 0 then n\<lparr>nextIndex := fmupd peer snap (nextIndex n)\<rparr>
      else if next > 1 then n\<lparr>nextIndex := fmupd peer (next - 1) (nextIndex n)\<rparr>
      else n)"

definition replicateAppendResp ::
  "Env \<Rightarrow> string \<Rightarrow> AppendEntriesRequest \<Rightarrow> int \<Rightarrow> AppendEntriesResponse \<Rightarrow>
   ('w, 'd) RaftNode \<Rightarrow> bool \<times> ('w, 'd) RaftNode" where
  "replicateAppendResp e peer req term resp n =
     (if state n \<noteq> Leader \<or> currentTerm n \<noteq> term then (False, n)
      else if aerTerm resp > currentTerm n then (False, stepDown e (aerTerm resp) n)
      else if aerSuccess resp then
        let n1 = applyCommittedLocked (advanceCommitLocked
                   (recordMatch peer (aePrevLogIndex req + int (length (aeEntries req))) n))
        in (lastLogIndexLocked n1 > map_get 0 (matchIndex n1) peer, n1)
      else (True, backOff peer n))"

definition replicateExit :: "string \<Rightarrow> ('w, 'd) RaftNode \<Rightarrow> ('w, 'd) RaftNode" where
  "replicateExit peer n = n\<lparr>replicating := fmupd peer False (replicating n)\<rparr>"

subsection \<open>The AppendEntries receiver\<close>

fun appendEntriesLocked :: "LogEntry list \<Rightarrow> int \<Rightarrow> ('w, 'd) RaftNode \<Rightarrow> ('w, 'd) RaftNode" where
  "appendEntriesLocked [] startIndex n = n"
| "appendEntriesLocked (e # es) startIndex n =
     appendEntriesLocked es (startIndex + 1)
       (n\<lparr>rlog := rlog n @ [\<lparr>eTerm = eTerm e, eIndex = startIndex,
                            eCommand = eCommand e, eChange = eChange e\<rparr>]\<rparr>)"

text \<open>The loop over the entries of a request; the boolean is \<open>logDirty\<close>.\<close>

fun mergeEntries :: "LogEntry list \<Rightarrow> int \<Rightarrow> ('w, 'd) RaftNode \<Rightarrow> bool \<times> ('w, 'd) RaftNode" where
  "mergeEntries [] idx n = (False, n)"
| "mergeEntries (e # es) idx n =
     (case entryAtLocked n idx of
        Some existing \<Rightarrow>
          (if eTerm existing \<noteq> eTerm e then
             (let si0 = sliceIndexLocked n idx; si = (if si0 < 1 then 1 else si0) in
              (True, appendEntriesLocked (e # es) idx (n\<lparr>rlog := take (nat si) (rlog n)\<rparr>)))
           else mergeEntries es (idx + 1) n)
      | None \<Rightarrow> (True, appendEntriesLocked (e # es) idx n))"

definition followCommit :: "int \<Rightarrow> ('w, 'd) RaftNode \<Rightarrow> ('w, 'd) RaftNode" where
  "followCommit leaderCommit n =
     (if leaderCommit > commitIndex n then
        applyCommittedLocked (n\<lparr>commitIndex :=
          (if leaderCommit > lastLogIndexLocked n then lastLogIndexLocked n else leaderCommit)\<rparr>)
      else n)"

definition HandleAppendEntries ::
  "Env \<Rightarrow> AppendEntriesRequest \<Rightarrow> ('w, 'd) RaftNode \<Rightarrow> AppendEntriesResponse \<times> ('w, 'd) RaftNode" where
  "HandleAppendEntries e req n =
     (if aeTerm req < currentTerm n then (\<lparr>aerTerm = currentTerm n, aerSuccess = False\<rparr>, n)
      else
        let n1 = (if aeTerm req > currentTerm n \<or> state n \<noteq> Follower
                  then becomeFollowerLocked (aeTerm req) (aeLeaderID req) n else n);
            n2 = (resetElectionTimerLocked e (n1\<lparr>leaderID := aeLeaderID req\<rparr>))\<lparr>joining := False\<rparr>;
            fail = \<lparr>aerTerm = currentTerm n2, aerSuccess = False\<rparr>
        in if aePrevLogIndex req < lastIncludedIndexLocked n2 then (fail, n2)
           else case entryAtLocked n2 (aePrevLogIndex req) of
             None \<Rightarrow> (fail, n2)
           | Some prev \<Rightarrow>
             if eTerm prev \<noteq> aePrevLogTerm req then (fail, n2)
             else
               let (logDirty, n3) = mergeEntries (aeEntries req) (aePrevLogIndex req + 1) n2;
                   n4 = (if logDirty
                         then persistLocked (notifyPeersLocked (rebuildMembershipLocked n3))
                         else n3)
               in (\<lparr>aerTerm = currentTerm n2, aerSuccess = True\<rparr>,
                   followCommit (aeLeaderCommit req) n4))"

end
