(* ===== verification/Raft_Election.thy ===== *)
theory Raft_Election
  imports Raft_Replication
begin

text \<open>
  Leader election (\<open>raft/election.go\<close>) with the transition to leader of \<open>raft/node.go\<close>: starting
  an election, granting votes, counting them, and the first entry of a new leader.
\<close>

subsection \<open>Operations\<close>

definition trackFresh :: "int \<Rightarrow> string \<Rightarrow> ('w, 'd) RaftNode \<Rightarrow> ('w, 'd) RaftNode" where
  "trackFresh lastIdx p n = n\<lparr>nextIndex := fmupd p (lastIdx + 1) (nextIndex n),
                           matchIndex := fmupd p 0 (matchIndex n)\<rparr>"

definition noopEntry :: "('w, 'd) RaftNode \<Rightarrow> LogEntry" where
  "noopEntry n = \<lparr>eTerm = currentTerm n, eIndex = lastLogIndexLocked n + 1,
                  eCommand = [], eChange = None\<rparr>"

definition becomeLeaderLocked :: "('w, 'd) RaftNode \<Rightarrow> ('w, 'd) RaftNode" where
  "becomeLeaderLocked n =
     (let n1 = n\<lparr>state := Leader, leaderID := nid n,
                 nextIndex := fmempty, matchIndex := fmempty, replicating := fmempty\<rparr>;
          lastIdx = lastLogIndexLocked n1;
          n2 = fold (trackFresh lastIdx) (peerIDs n1) n1;
          noop = noopEntry n1;
          n3 = n2\<lparr>rlog := rlog n2 @ [noop],
                  matchIndex := fmupd (nid n2) (eIndex noop) (matchIndex n2),
                  nextIndex := fmupd (nid n2) (eIndex noop + 1) (nextIndex n2),
                  nextHeartbeat := 0\<rparr>
      in broadcastAppendEntriesLocked (applyCommittedLocked (advanceCommitLocked (persistLocked n3))))"

definition voteRequest :: "('w, 'd) RaftNode \<Rightarrow> RequestVoteRequest" where
  "voteRequest n =
     \<lparr>rvTerm = currentTerm n, rvCandidateID = nid n,
      rvLastLogIndex = lastLogIndexLocked n, rvLastLogTerm = lastLogTermLocked n\<rparr>"

definition startElectionLocked :: "Env \<Rightarrow> ('w, 'd) RaftNode \<Rightarrow> ('w, 'd) RaftNode" where
  "startElectionLocked e n =
     (if joining n \<or> \<not> isVoterLocked n then resetElectionTimerLocked e n
      else
        let n1 = persistLocked (resetElectionTimerLocked e
                   (n\<lparr>state := Candidate, currentTerm := currentTerm n + 1, votedFor := nid n,
                      leaderID := '''', votesReceived := fmupd (nid n) True fmempty\<rparr>));
            req = voteRequest n1
        in if map_len (votesReceived n1) \<ge> majority n1 then becomeLeaderLocked n1
           else n1\<lparr>goroutines := goroutines n1 @
                   map (\<lambda>p. SendRequestVote p req) (filter (\<lambda>p. p \<noteq> nid n1) (peerIDs n1))\<rparr>)"

text \<open>\<open>sendRequestVote\<close> after the RPC has returned.\<close>

definition requestVoteResp ::
  "Env \<Rightarrow> string \<Rightarrow> RequestVoteRequest \<Rightarrow> RequestVoteResponse \<Rightarrow> ('w, 'd) RaftNode \<Rightarrow> ('w, 'd) RaftNode" where
  "requestVoteResp e peer req resp n =
     (if rvrTerm resp > currentTerm n then stepDown e (rvrTerm resp) n
      else if state n \<noteq> Candidate \<or> currentTerm n \<noteq> rvTerm req then n
      else if \<not> rvrVoteGranted resp then n
      else
        let n1 = n\<lparr>votesReceived := fmupd peer True (votesReceived n)\<rparr>
        in if map_len (votesReceived n1) \<ge> majority n1 then becomeLeaderLocked n1 else n1)"

definition isLogUpToDateLocked :: "('w, 'd) RaftNode \<Rightarrow> int \<Rightarrow> int \<Rightarrow> bool" where
  "isLogUpToDateLocked n lastLogIndex lastLogTerm =
     (let myTerm = lastLogTermLocked n; myIndex = lastLogIndexLocked n in
      if lastLogTerm \<noteq> myTerm then lastLogTerm > myTerm else lastLogIndex \<ge> myIndex)"

definition HandleRequestVote ::
  "Env \<Rightarrow> RequestVoteRequest \<Rightarrow> ('w, 'd) RaftNode \<Rightarrow> RequestVoteResponse \<times> ('w, 'd) RaftNode" where
  "HandleRequestVote e req n =
     (if rvTerm req < currentTerm n then (\<lparr>rvrTerm = currentTerm n, rvrVoteGranted = False\<rparr>, n)
      else
        let n1 = (if rvTerm req > currentTerm n then becomeFollowerLocked (rvTerm req) '''' n else n);
            upToDate = isLogUpToDateLocked n1 (rvLastLogIndex req) (rvLastLogTerm req);
            canVote = votedFor n1 = '''' \<or> votedFor n1 = rvCandidateID req
        in if canVote \<and> upToDate then
             (\<lparr>rvrTerm = currentTerm n1, rvrVoteGranted = True\<rparr>,
              persistLocked (resetElectionTimerLocked e (n1\<lparr>votedFor := rvCandidateID req\<rparr>)))
           else (\<lparr>rvrTerm = currentTerm n1, rvrVoteGranted = False\<rparr>, n1))"

end
