(* ===== verification/Raft_Node.thy ===== *)
theory Raft_Node
  imports Raft_Election
begin

text \<open>
  The life of a node (\<open>raft/node.go\<close>): construction from configuration and disk, the ticker,
  client proposals and the wait for their application, the accessors, and the proposal of a
  membership change (\<open>raft/membership.go\<close>, lines 48 to 134).
\<close>

subsection \<open>Construction\<close>

record ('w, 'd) Config =
  cfgID :: string
  cfgPeerAddrs :: addrmap
  cfgElectionTimeoutMin :: int
  cfgElectionTimeoutMax :: int
  cfgHeartbeatInterval :: int
  cfgStorage :: "'d Storage option"
  cfgSnapshotter :: "'w Snapshotter option"
  cfgSnapshotThreshold :: int
  cfgHTTPAddrs :: addrmap
  cfgJoin :: bool

definition Millisecond :: int where
  "Millisecond = 1000000"

definition DefaultConfig :: "string \<Rightarrow> addrmap \<Rightarrow> ('w, 'd) Config" where
  "DefaultConfig i peers =
     \<lparr>cfgID = i, cfgPeerAddrs = peers,
      cfgElectionTimeoutMin = 150 * Millisecond, cfgElectionTimeoutMax = 300 * Millisecond,
      cfgHeartbeatInterval = 50 * Millisecond, cfgStorage = None, cfgSnapshotter = None,
      cfgSnapshotThreshold = 32, cfgHTTPAddrs = fmempty, cfgJoin = False\<rparr>"

definition clampConfig :: "('w, 'd) Config \<Rightarrow> ('w, 'd) Config" where
  "clampConfig cfg =
     (let c1 = (if cfgElectionTimeoutMin cfg \<le> 0
                then cfg\<lparr>cfgElectionTimeoutMin := 150 * Millisecond\<rparr> else cfg);
          c2 = (if cfgElectionTimeoutMax c1 \<le> cfgElectionTimeoutMin c1
                then c1\<lparr>cfgElectionTimeoutMax := cfgElectionTimeoutMin c1 + 150 * Millisecond\<rparr>
                else c1)
      in if cfgHeartbeatInterval c2 \<le> 0
         then c2\<lparr>cfgHeartbeatInterval := 50 * Millisecond\<rparr> else c2)"

definition freshNode :: "('w, 'd) Config \<Rightarrow> 'd \<Rightarrow> 'w \<Rightarrow> ('w, 'd) RaftNode" where
  "freshNode cfg d w =
     \<lparr>nid = cfgID cfg, peerAddrs = cloneStringMap (cfgPeerAddrs cfg),
      peerHTTP = cloneStringMap (cfgHTTPAddrs cfg),
      peerIDs = map_keys (cfgPeerAddrs cfg),
      basePeers = cloneStringMap (cfgPeerAddrs cfg), baseHTTP = cloneStringMap (cfgHTTPAddrs cfg),
      joining = cfgJoin cfg, peerHook = None, transport = None, apply_fn = None,
      storage = cfgStorage cfg, snapshotter = cfgSnapshotter cfg,
      snapshotThreshold = cfgSnapshotThreshold cfg, snapshot = [],
      electionTimeoutMin = cfgElectionTimeoutMin cfg,
      electionTimeoutMax = cfgElectionTimeoutMax cfg,
      heartbeatInterval = cfgHeartbeatInterval cfg,
      state = Follower, currentTerm = 0, votedFor = '''',
      rlog = [\<lparr>eTerm = 0, eIndex = 0, eCommand = [], eChange = None\<rparr>],
      commitIndex = 0, lastApplied = 0,
      nextIndex = fmempty, matchIndex = fmempty, replicating = fmempty, votesReceived = fmempty,
      leaderID = '''', electionDeadline = 0, nextHeartbeat = 0, stopped = False,
      disk = d, world = w, goroutines = []\<rparr>"

definition hasDurable :: "DurableState \<Rightarrow> bool" where
  "hasDurable st \<longleftrightarrow>
     dsCurrentTerm st \<noteq> 0 \<or> dsVotedFor st \<noteq> '''' \<or> dsLog st \<noteq> [] \<or> dsSnapshot st \<noteq> [] \<or>
     map_len (dsSnapshotPeers st) > 0"

definition recoverNode :: "DurableState \<Rightarrow> ('w, 'd) RaftNode \<Rightarrow> ('w, 'd) RaftNode" where
  "recoverNode st n =
     (let n1 = n\<lparr>currentTerm := dsCurrentTerm st, votedFor := dsVotedFor st,
                 rlog := (if dsLog st \<noteq> [] then dsLog st else rlog n),
                 snapshot := dsSnapshot st\<rparr>;
          n2 = (if map_len (dsSnapshotPeers st) > 0
                then n1\<lparr>basePeers := cloneStringMap (dsSnapshotPeers st),
                        baseHTTP := cloneStringMap (dsSnapshotHTTP st)\<rparr> else n1);
          n3 = (if snapshot n2 \<noteq> [] \<and> rlog n2 \<noteq> []
                then n2\<lparr>lastApplied := eIndex (hd (rlog n2)), commitIndex := eIndex (hd (rlog n2))\<rparr>
                else n2);
          n4 = rebuildMembershipLocked (restoreSnapshotLocked n3)
      in if length (peerIDs n4) > 1 then n4\<lparr>joining := False\<rparr> else n4)"

definition NewNode :: "('w, 'd) Config \<Rightarrow> 'd \<Rightarrow> 'w \<Rightarrow> ('w, 'd) RaftNode" where
  "NewNode cfg0 d w =
     (let cfg = clampConfig cfg0; n = freshNode cfg d w in
      case storage n of
        None \<Rightarrow> n
      | Some s \<Rightarrow>
        (case Load s d of
           Inl err \<Rightarrow> n
         | Inr st \<Rightarrow> if hasDurable st then recoverNode st n else n))"

definition SetTransport :: "transport \<Rightarrow> ('w, 'd) RaftNode \<Rightarrow> ('w, 'd) RaftNode" where
  "SetTransport t n = n\<lparr>transport := Some t\<rparr>"

definition SetApply :: "(ApplyMsg \<Rightarrow> 'w \<Rightarrow> 'w) \<Rightarrow> ('w, 'd) RaftNode \<Rightarrow> ('w, 'd) RaftNode" where
  "SetApply f n = n\<lparr>apply_fn := Some f\<rparr>"

subsection \<open>Running\<close>

text \<open>\<open>Start\<close> arms the election timer; the ticker it launches is the sequence of calls to \<open>tick\<close>.\<close>

definition Start :: "Env \<Rightarrow> ('w, 'd) RaftNode \<Rightarrow> ('w, 'd) RaftNode" where
  "Start e n = resetElectionTimerLocked e n"

definition Stop :: "('w, 'd) RaftNode \<Rightarrow> ('w, 'd) RaftNode" where
  "Stop n = (if stopped n then n else n\<lparr>stopped := True\<rparr>)"

definition tick :: "Env \<Rightarrow> ('w, 'd) RaftNode \<Rightarrow> ('w, 'd) RaftNode" where
  "tick e n = applyCommittedLocked
     (case state n of
        Leader \<Rightarrow>
          (if \<not> now e < nextHeartbeat n
           then broadcastAppendEntriesLocked (n\<lparr>nextHeartbeat := now e + heartbeatInterval n\<rparr>)
           else n)
      | _ \<Rightarrow>
          (if \<not> joining n \<and> isVoterLocked n \<and> \<not> now e < electionDeadline n
           then startElectionLocked e n else n))"

subsection \<open>Proposals\<close>

definition appendOwn :: "LogEntry \<Rightarrow> ('w, 'd) RaftNode \<Rightarrow> ('w, 'd) RaftNode" where
  "appendOwn entry n = n\<lparr>rlog := rlog n @ [entry]\<rparr>"

definition Propose ::
  "bytes \<Rightarrow> ('w, 'd) RaftNode \<Rightarrow> (int \<times> int \<times> raft_error option) \<times> ('w, 'd) RaftNode" where
  "Propose cmd n =
     (if stopped n then ((0, 0, Some ErrStopped), n)
      else if state n \<noteq> Leader then ((0, currentTerm n, Some ErrNotLeader), n)
      else
        let index = lastLogIndexLocked n + 1;
            term = currentTerm n;
            entry = \<lparr>eTerm = term, eIndex = index, eCommand = cmd, eChange = None\<rparr>;
            n1 = persistLocked (appendOwn entry n);
            n2 = recordMatch (nid n1) index n1
        in ((index, term, None),
            broadcastAppendEntriesLocked (applyCommittedLocked (advanceCommitLocked n2))))"

text \<open>
  \<open>WaitApplied\<close> is a loop over a three-way \<open>select\<close>; its run is determined by the sequence of
  events the select delivers.  The result is the error it returns (\<open>Some None\<close> for nil), or
  \<open>None\<close> when it is still waiting after those events.
\<close>

datatype ('w, 'd) wait_event =
    WaitStop
  | WaitTimer
  | WaitTick "('w, 'd) RaftNode"

fun WaitApplied :: "int \<Rightarrow> ('w, 'd) wait_event list \<Rightarrow> raft_error option option" where
  "WaitApplied index [] = None"
| "WaitApplied index (WaitStop # evs) = Some (Some ErrStopped)"
| "WaitApplied index (WaitTimer # evs) = Some (Some ErrTimeout)"
| "WaitApplied index (WaitTick n # evs) =
     (let applied = lastApplied n \<ge> index;
          committed = commitIndex n \<ge> index;
          leader = (state n = Leader)
      in if applied then Some None
         else if \<not> leader \<and> \<not> committed then Some (Some ErrNotLeader)
         else WaitApplied index evs)"

subsection \<open>Membership changes\<close>

definition newConfig :: "MembershipChange \<Rightarrow> ('w, 'd) RaftNode \<Rightarrow> raft_error + (addrmap \<times> addrmap)" where
  "newConfig ch n =
     (let newPeers = cloneStringMap (peerAddrs n); newHTTP = cloneStringMap (peerHTTP n) in
      if chType ch = ChangeAdd then
        (if map_has (peerAddrs n) (chID ch) then Inl ErrAlreadyMember
         else Inr (fmupd (chID ch) (chAddr ch) newPeers,
                   if chHTTP ch \<noteq> '''' then fmupd (chID ch) (chHTTP ch) newHTTP else newHTTP))
      else if chType ch = ChangeRemove then
        (if \<not> map_has (peerAddrs n) (chID ch) then Inl ErrNotMember
         else if chID ch = nid n then Inl ErrRemoveLeader
         else if length (peerIDs n) \<le> 1 then Inl ErrLastMember
         else Inr (fmdrop (chID ch) newPeers, fmdrop (chID ch) newHTTP))
      else Inl (ErrMsg ''unknown membership change''))"

definition proposeChangeLocked ::
  "MembershipChange \<Rightarrow> ('w, 'd) RaftNode \<Rightarrow> (raft_error + int) \<times> ('w, 'd) RaftNode" where
  "proposeChangeLocked ch n =
     (if stopped n then (Inl ErrStopped, n)
      else if state n \<noteq> Leader then (Inl ErrNotLeader, n)
      else if hasUncommittedConfigLocked n then (Inl ErrConfigInProgress, n)
      else case newConfig ch n of
        Inl err \<Rightarrow> (Inl err, n)
      | Inr (newPeers, newHTTP) \<Rightarrow>
        (let index = lastLogIndexLocked n + 1;
             cp = ch\<lparr>chPeers := newPeers, chHTTPAddrs := newHTTP\<rparr>;
             entry = \<lparr>eTerm = currentTerm n, eIndex = index, eCommand = [], eChange = Some cp\<rparr>;
             n1 = persistLocked (notifyPeersLocked (ensurePeerTrackingLocked
                    (rebuildMembershipLocked (appendOwn entry n))));
             n2 = recordMatch (nid n1) index n1
         in (Inr index,
             broadcastAppendEntriesLocked (applyCommittedLocked (advanceCommitLocked n2)))))"

definition AddServer ::
  "string \<Rightarrow> string \<Rightarrow> string \<Rightarrow> ('w, 'd) RaftNode \<Rightarrow> (raft_error + int) \<times> ('w, 'd) RaftNode" where
  "AddServer i addr httpAddr n =
     (if i = '''' \<or> addr = '''' then (Inl (ErrMsg ''id and raft address required''), n)
      else proposeChangeLocked
        \<lparr>chType = ChangeAdd, chID = i, chAddr = addr, chHTTP = httpAddr,
         chPeers = fmempty, chHTTPAddrs = fmempty\<rparr> n)"

definition RemoveServer :: "string \<Rightarrow> ('w, 'd) RaftNode \<Rightarrow> (raft_error + int) \<times> ('w, 'd) RaftNode" where
  "RemoveServer i n =
     (if i = '''' then (Inl (ErrMsg ''id required''), n)
      else proposeChangeLocked
        \<lparr>chType = ChangeRemove, chID = i, chAddr = '''', chHTTP = '''',
         chPeers = fmempty, chHTTPAddrs = fmempty\<rparr> n)"

subsection \<open>Accessors\<close>

definition IsLeader :: "('w, 'd) RaftNode \<Rightarrow> bool" where
  "IsLeader n = (state n = Leader)"

definition LeaderAddr :: "('w, 'd) RaftNode \<Rightarrow> string" where
  "LeaderAddr n = (if leaderID n = '''' then '''' else map_get '''' (peerAddrs n) (leaderID n))"

definition LogSnapshot :: "('w, 'd) RaftNode \<Rightarrow> LogEntry list" where
  "LogSnapshot n = cloneEntries (rlog n)"

definition PeerAddr :: "('w, 'd) RaftNode \<Rightarrow> string \<Rightarrow> string" where
  "PeerAddr n p = map_get '''' (peerAddrs n) p"

end
