(* ===== verification/Raft_Read.thy ===== *)
theory Raft_Read
  imports Raft_Node
begin

text \<open>
  Linearizable reads (\<open>raft/read.go\<close>).  \<open>ReadIndex\<close> waits until an entry of the current term is
  committed, remembers the commit index, confirms leadership with a round of heartbeats and
  waits until the index is applied.  It holds the mutex only in between its waits, so a run of it
  is determined by the node it observes at each of its critical sections and by the events its
  selects deliver; those are the arguments of the definitions below.  A result of \<open>None\<close> means
  that the call has not returned after these events.
\<close>

subsection \<open>Waiting for an entry of the current term\<close>

definition committedCurrentTermLocked :: "('w, 'd) RaftNode \<Rightarrow> bool" where
  "committedCurrentTermLocked n = (termAtLocked n (commitIndex n) = Some (currentTerm n))"

text \<open>One critical section of the loop: the error it returns with, if any, and the node it leaves.\<close>

definition waitCurrentTermIter ::
  "('w, 'd) RaftNode \<Rightarrow> raft_error option option \<times> ('w, 'd) RaftNode" where
  "waitCurrentTermIter n =
     (if state n \<noteq> Leader then (Some (Some ErrNotLeader), n)
      else if committedCurrentTermLocked n then (Some None, n)
      else (None, broadcastAppendEntriesLocked n))"

datatype select_event = SelStop | SelTimer | SelTick

fun waitCurrentTermCommitted ::
  "(('w, 'd) RaftNode \<times> select_event) list \<Rightarrow> raft_error option option" where
  "waitCurrentTermCommitted [] = None"
| "waitCurrentTermCommitted ((n, ev) # evs) =
     (case fst (waitCurrentTermIter n) of
        Some r \<Rightarrow> Some r
      | None \<Rightarrow>
        (case ev of
           SelStop \<Rightarrow> Some (Some ErrStopped)
         | SelTimer \<Rightarrow> Some (Some ErrTimeout)
         | SelTick \<Rightarrow> waitCurrentTermCommitted evs))"

subsection \<open>Confirming leadership\<close>

definition confirmHeartbeatLocked :: "('w, 'd) RaftNode \<Rightarrow> AppendEntriesRequest" where
  "confirmHeartbeatLocked n =
     \<lparr>aeTerm = currentTerm n, aeLeaderID = nid n,
      aePrevLogIndex = lastLogIndexLocked n, aePrevLogTerm = lastLogTermLocked n,
      aeEntries = [], aeLeaderCommit = commitIndex n\<rparr>"

text \<open>
  \<open>sendConfirmHeartbeat\<close> before and after its RPC: the request it sends, if any, and the result it
  puts on the channel.
\<close>

definition confirmSend :: "int \<Rightarrow> ('w, 'd) RaftNode \<Rightarrow> AppendEntriesRequest option" where
  "confirmSend term n =
     (if state n \<noteq> Leader \<or> currentTerm n \<noteq> term \<or> transport n = None then None
      else Some (confirmHeartbeatLocked n))"

definition confirmResp ::
  "Env \<Rightarrow> int \<Rightarrow> AppendEntriesResponse \<Rightarrow> ('w, 'd) RaftNode \<Rightarrow> bool \<times> ('w, 'd) RaftNode" where
  "confirmResp e term resp n =
     (if aerTerm resp > currentTerm n then (False, stepDown e (aerTerm resp) n)
      else (state n = Leader \<and> currentTerm n = term, n))"

datatype confirm_event = ConfStop | ConfTimer | ConfResult bool

fun confirmLoop :: "int \<Rightarrow> int \<Rightarrow> int \<Rightarrow> confirm_event list \<Rightarrow> raft_error option option" where
  "confirmLoop maj acks pending evs =
     (if \<not> acks < maj then Some None
      else case evs of
        [] \<Rightarrow> None
      | ConfStop # evs \<Rightarrow> Some (Some ErrStopped)
      | ConfTimer # evs \<Rightarrow> Some (Some ErrTimeout)
      | ConfResult ok # evs \<Rightarrow>
          (let pending1 = pending - 1; acks1 = (if ok then acks + 1 else acks) in
           if acks1 \<ge> maj then Some None
           else if acks1 + pending1 < maj then Some (Some ErrStaleLeader)
           else confirmLoop maj acks1 pending1 evs))"

declare confirmLoop.simps [simp del]

definition confirmLeadership ::
  "int \<Rightarrow> ('w, 'd) RaftNode \<Rightarrow> confirm_event list \<Rightarrow> raft_error option option" where
  "confirmLeadership term n evs =
     (if state n \<noteq> Leader \<or> currentTerm n \<noteq> term then Some (Some ErrNotLeader)
      else
        let maj = majority n; peers = filter (\<lambda>p. p \<noteq> nid n) (peerIDs n) in
        if 1 \<ge> maj then Some None
        else confirmLoop maj 1 (int (length peers)) evs)"

subsection \<open>ReadIndex\<close>

text \<open>
  A run observes: the events of the first wait; the node at the point where the read index is
  taken; whether time is left; the node and the results of the confirmation; whether time is
  left; the events of the wait for application; the node at the end.
\<close>

record ('w, 'd) read_run =
  rrWait :: "(('w, 'd) RaftNode \<times> select_event) list"
  rrNode :: "('w, 'd) RaftNode"
  rrRemain1 :: int
  rrConfNode :: "('w, 'd) RaftNode"
  rrConf :: "confirm_event list"
  rrRemain2 :: int
  rrApplied :: "('w, 'd) wait_event list"
  rrEnd :: "('w, 'd) RaftNode"

definition ReadIndex :: "('w, 'd) read_run \<Rightarrow> (raft_error + int) option" where
  "ReadIndex r =
     (case waitCurrentTermCommitted (rrWait r) of
        None \<Rightarrow> None
      | Some (Some err) \<Rightarrow> Some (Inl err)
      | Some None \<Rightarrow>
        if state (rrNode r) \<noteq> Leader then Some (Inl ErrNotLeader)
        else
          let readIndex = commitIndex (rrNode r); term = currentTerm (rrNode r) in
          if rrRemain1 r \<le> 0 then Some (Inl ErrTimeout)
          else case confirmLeadership term (rrConfNode r) (rrConf r) of
            None \<Rightarrow> None
          | Some (Some err) \<Rightarrow> Some (Inl err)
          | Some None \<Rightarrow>
            if rrRemain2 r \<le> 0 then Some (Inl ErrTimeout)
            else case WaitApplied readIndex (rrApplied r) of
              None \<Rightarrow> None
            | Some (Some err) \<Rightarrow> Some (Inl err)
            | Some None \<Rightarrow>
              if state (rrEnd r) \<noteq> Leader then Some (Inl ErrNotLeader)
              else Some (Inr readIndex))"

subsection \<open>How many acknowledgements a confirmation counts\<close>

lemma confirmLoop_acks:
  assumes "confirmLoop maj acks pending evs = Some None"
  shows "\<exists>k \<le> length evs. maj \<le> acks + int (length (filter (\<lambda>ev. ev = ConfResult True) (take k evs)))"
  using assms
proof (induction maj acks pending evs rule: confirmLoop.induct)
  case (1 maj acks pending evs)
  show ?case
  proof (cases "acks < maj")
    case False
    then show ?thesis by (intro exI[of _ 0]) simp
  next
    case True
    with "1.prems" obtain ok rest where evs: "evs = ConfResult ok # rest"
      by (subst (asm) confirmLoop.simps) (auto split: list.splits confirm_event.splits)
    let ?acks = "if ok then acks + 1 else acks"
    show ?thesis
    proof (cases "?acks \<ge> maj")
      case enough: True
      then have ok using True by (simp split: if_splits)
      then show ?thesis using enough evs by (intro exI[of _ 1]) simp
    next
      case more: False
      have "confirmLoop maj acks pending evs =
          (if ?acks + (pending - 1) < maj then Some (Some ErrStaleLeader)
           else confirmLoop maj ?acks (pending - 1) rest)"
        using True more by (subst confirmLoop.simps) (simp add: evs Let_def)
      then have "confirmLoop maj ?acks (pending - 1) rest = Some None"
        and "\<not> ?acks + (pending - 1) < maj"
        using "1.prems" by (simp_all split: if_splits)
      then obtain k where "k \<le> length rest"
          "maj \<le> ?acks + int (length (filter (\<lambda>ev. ev = ConfResult True) (take k rest)))"
        using "1.IH"[OF _ evs refl refl refl] True more by auto
      then show ?thesis
        using evs by (intro exI[of _ "Suc k"]) (auto split: if_splits)
    qed
  qed
qed

end
