(* ===== verification/Raft_Frames.thy ===== *)
theory Raft_Frames
  imports Raft_Node
begin

text \<open>
  What each step of a handler leaves unchanged.  The rules are simplification rules, so that a
  proof about a handler only sees the fields the handler writes.
\<close>

subsection \<open>Straight-line operations\<close>

lemma persistLocked_frame [simp]:
  shows
    "nid (persistLocked n) = nid n" "peerAddrs (persistLocked n) = peerAddrs n"
    "peerHTTP (persistLocked n) = peerHTTP n" "peerIDs (persistLocked n) = peerIDs n"
    "basePeers (persistLocked n) = basePeers n" "baseHTTP (persistLocked n) = baseHTTP n"
    "joining (persistLocked n) = joining n" "peerHook (persistLocked n) = peerHook n"
    "transport (persistLocked n) = transport n" "apply_fn (persistLocked n) = apply_fn n"
    "storage (persistLocked n) = storage n" "snapshotter (persistLocked n) = snapshotter n"
    "snapshotThreshold (persistLocked n) = snapshotThreshold n" "snapshot (persistLocked n) = snapshot n"
    "state (persistLocked n) = state n" "currentTerm (persistLocked n) = currentTerm n"
    "votedFor (persistLocked n) = votedFor n" "rlog (persistLocked n) = rlog n"
    "commitIndex (persistLocked n) = commitIndex n" "lastApplied (persistLocked n) = lastApplied n"
    "nextIndex (persistLocked n) = nextIndex n" "matchIndex (persistLocked n) = matchIndex n"
    "votesReceived (persistLocked n) = votesReceived n" "leaderID (persistLocked n) = leaderID n"
    "stopped (persistLocked n) = stopped n" "world (persistLocked n) = world n"
    "goroutines (persistLocked n) = goroutines n"
  by (simp_all add: persistLocked_def)

lemma resetElectionTimer_frame [simp]:
  shows
    "nid (resetElectionTimerLocked e n) = nid n" "peerAddrs (resetElectionTimerLocked e n) = peerAddrs n"
    "peerHTTP (resetElectionTimerLocked e n) = peerHTTP n" "peerIDs (resetElectionTimerLocked e n) = peerIDs n"
    "basePeers (resetElectionTimerLocked e n) = basePeers n"
    "baseHTTP (resetElectionTimerLocked e n) = baseHTTP n" "joining (resetElectionTimerLocked e n) = joining n"
    "peerHook (resetElectionTimerLocked e n) = peerHook n"
    "transport (resetElectionTimerLocked e n) = transport n"
    "apply_fn (resetElectionTimerLocked e n) = apply_fn n" "storage (resetElectionTimerLocked e n) = storage n"
    "snapshotter (resetElectionTimerLocked e n) = snapshotter n"
    "snapshotThreshold (resetElectionTimerLocked e n) = snapshotThreshold n"
    "snapshot (resetElectionTimerLocked e n) = snapshot n" "state (resetElectionTimerLocked e n) = state n"
    "currentTerm (resetElectionTimerLocked e n) = currentTerm n"
    "votedFor (resetElectionTimerLocked e n) = votedFor n" "rlog (resetElectionTimerLocked e n) = rlog n"
    "commitIndex (resetElectionTimerLocked e n) = commitIndex n"
    "lastApplied (resetElectionTimerLocked e n) = lastApplied n"
    "nextIndex (resetElectionTimerLocked e n) = nextIndex n"
    "matchIndex (resetElectionTimerLocked e n) = matchIndex n"
    "votesReceived (resetElectionTimerLocked e n) = votesReceived n"
    "leaderID (resetElectionTimerLocked e n) = leaderID n" "stopped (resetElectionTimerLocked e n) = stopped n"
    "disk (resetElectionTimerLocked e n) = disk n" "world (resetElectionTimerLocked e n) = world n"
    "goroutines (resetElectionTimerLocked e n) = goroutines n"
  by (simp_all add: resetElectionTimerLocked_def Let_def)

lemma rebuildMembership_frame [simp]:
  shows
    "nid (rebuildMembershipLocked n) = nid n" "basePeers (rebuildMembershipLocked n) = basePeers n"
    "baseHTTP (rebuildMembershipLocked n) = baseHTTP n" "joining (rebuildMembershipLocked n) = joining n"
    "peerHook (rebuildMembershipLocked n) = peerHook n" "transport (rebuildMembershipLocked n) = transport n"
    "apply_fn (rebuildMembershipLocked n) = apply_fn n" "storage (rebuildMembershipLocked n) = storage n"
    "snapshotter (rebuildMembershipLocked n) = snapshotter n"
    "snapshotThreshold (rebuildMembershipLocked n) = snapshotThreshold n"
    "snapshot (rebuildMembershipLocked n) = snapshot n" "state (rebuildMembershipLocked n) = state n"
    "currentTerm (rebuildMembershipLocked n) = currentTerm n" "votedFor (rebuildMembershipLocked n) = votedFor n"
    "rlog (rebuildMembershipLocked n) = rlog n" "commitIndex (rebuildMembershipLocked n) = commitIndex n"
    "lastApplied (rebuildMembershipLocked n) = lastApplied n"
    "nextIndex (rebuildMembershipLocked n) = nextIndex n" "matchIndex (rebuildMembershipLocked n) = matchIndex n"
    "votesReceived (rebuildMembershipLocked n) = votesReceived n"
    "leaderID (rebuildMembershipLocked n) = leaderID n" "stopped (rebuildMembershipLocked n) = stopped n"
    "disk (rebuildMembershipLocked n) = disk n" "world (rebuildMembershipLocked n) = world n"
    "goroutines (rebuildMembershipLocked n) = goroutines n"
  by (simp_all add: rebuildMembershipLocked_def rebuildPeerIDsLocked_def Let_def)

lemma notifyPeers_frame [simp]:
  shows
    "nid (notifyPeersLocked n) = nid n" "peerAddrs (notifyPeersLocked n) = peerAddrs n"
    "peerHTTP (notifyPeersLocked n) = peerHTTP n" "peerIDs (notifyPeersLocked n) = peerIDs n"
    "basePeers (notifyPeersLocked n) = basePeers n" "baseHTTP (notifyPeersLocked n) = baseHTTP n"
    "joining (notifyPeersLocked n) = joining n" "peerHook (notifyPeersLocked n) = peerHook n"
    "apply_fn (notifyPeersLocked n) = apply_fn n" "storage (notifyPeersLocked n) = storage n"
    "snapshotter (notifyPeersLocked n) = snapshotter n"
    "snapshotThreshold (notifyPeersLocked n) = snapshotThreshold n" "snapshot (notifyPeersLocked n) = snapshot n"
    "state (notifyPeersLocked n) = state n" "currentTerm (notifyPeersLocked n) = currentTerm n"
    "votedFor (notifyPeersLocked n) = votedFor n" "rlog (notifyPeersLocked n) = rlog n"
    "commitIndex (notifyPeersLocked n) = commitIndex n" "lastApplied (notifyPeersLocked n) = lastApplied n"
    "nextIndex (notifyPeersLocked n) = nextIndex n" "matchIndex (notifyPeersLocked n) = matchIndex n"
    "votesReceived (notifyPeersLocked n) = votesReceived n" "leaderID (notifyPeersLocked n) = leaderID n"
    "stopped (notifyPeersLocked n) = stopped n" "disk (notifyPeersLocked n) = disk n"
    "goroutines (notifyPeersLocked n) = goroutines n"
  by (simp_all add: notifyPeersLocked_def)

lemma becomeFollower_frame [simp]:
  shows
    "nid (becomeFollowerLocked t l n) = nid n" "peerAddrs (becomeFollowerLocked t l n) = peerAddrs n"
    "peerHTTP (becomeFollowerLocked t l n) = peerHTTP n" "peerIDs (becomeFollowerLocked t l n) = peerIDs n"
    "basePeers (becomeFollowerLocked t l n) = basePeers n" "baseHTTP (becomeFollowerLocked t l n) = baseHTTP n"
    "joining (becomeFollowerLocked t l n) = joining n" "peerHook (becomeFollowerLocked t l n) = peerHook n"
    "transport (becomeFollowerLocked t l n) = transport n" "apply_fn (becomeFollowerLocked t l n) = apply_fn n"
    "storage (becomeFollowerLocked t l n) = storage n" "snapshotter (becomeFollowerLocked t l n) = snapshotter n"
    "snapshotThreshold (becomeFollowerLocked t l n) = snapshotThreshold n"
    "snapshot (becomeFollowerLocked t l n) = snapshot n" "rlog (becomeFollowerLocked t l n) = rlog n"
    "commitIndex (becomeFollowerLocked t l n) = commitIndex n"
    "lastApplied (becomeFollowerLocked t l n) = lastApplied n"
    "nextIndex (becomeFollowerLocked t l n) = nextIndex n"
    "matchIndex (becomeFollowerLocked t l n) = matchIndex n"
    "votesReceived (becomeFollowerLocked t l n) = votesReceived n"
    "stopped (becomeFollowerLocked t l n) = stopped n" "world (becomeFollowerLocked t l n) = world n"
    "goroutines (becomeFollowerLocked t l n) = goroutines n"
  by (simp_all add: becomeFollowerLocked_def Let_def)

lemma becomeFollower_simps [simp]:
  shows "currentTerm (becomeFollowerLocked t l n) = max t (currentTerm n)"
    "votedFor (becomeFollowerLocked t l n) = (if t > currentTerm n then '''' else votedFor n)"
    "state (becomeFollowerLocked t l n) = Follower"
    "leaderID (becomeFollowerLocked t l n) = l"
  by (simp_all add: becomeFollowerLocked_def Let_def max_def)

lemma stepDown_frame [simp]:
  shows
    "nid (stepDown e t n) = nid n" "peerAddrs (stepDown e t n) = peerAddrs n"
    "peerHTTP (stepDown e t n) = peerHTTP n" "peerIDs (stepDown e t n) = peerIDs n"
    "basePeers (stepDown e t n) = basePeers n" "baseHTTP (stepDown e t n) = baseHTTP n"
    "joining (stepDown e t n) = joining n" "peerHook (stepDown e t n) = peerHook n"
    "transport (stepDown e t n) = transport n" "apply_fn (stepDown e t n) = apply_fn n"
    "storage (stepDown e t n) = storage n" "snapshotter (stepDown e t n) = snapshotter n"
    "snapshotThreshold (stepDown e t n) = snapshotThreshold n" "snapshot (stepDown e t n) = snapshot n"
    "rlog (stepDown e t n) = rlog n" "commitIndex (stepDown e t n) = commitIndex n"
    "lastApplied (stepDown e t n) = lastApplied n" "nextIndex (stepDown e t n) = nextIndex n"
    "matchIndex (stepDown e t n) = matchIndex n" "votesReceived (stepDown e t n) = votesReceived n"
    "stopped (stepDown e t n) = stopped n" "world (stepDown e t n) = world n"
    "goroutines (stepDown e t n) = goroutines n"
  by (simp_all add: stepDown_def)

lemma stepDown_simps [simp]:
  shows "currentTerm (stepDown e t n) = max t (currentTerm n)"
    "votedFor (stepDown e t n) = (if t > currentTerm n then '''' else votedFor n)"
    "state (stepDown e t n) = Follower"
  by (simp_all add: stepDown_def)

lemma recordMatch_frame [simp]:
  shows
    "nid (recordMatch p i n) = nid n" "peerAddrs (recordMatch p i n) = peerAddrs n"
    "peerHTTP (recordMatch p i n) = peerHTTP n" "peerIDs (recordMatch p i n) = peerIDs n"
    "basePeers (recordMatch p i n) = basePeers n" "baseHTTP (recordMatch p i n) = baseHTTP n"
    "joining (recordMatch p i n) = joining n" "peerHook (recordMatch p i n) = peerHook n"
    "transport (recordMatch p i n) = transport n" "apply_fn (recordMatch p i n) = apply_fn n"
    "storage (recordMatch p i n) = storage n" "snapshotter (recordMatch p i n) = snapshotter n"
    "snapshotThreshold (recordMatch p i n) = snapshotThreshold n" "snapshot (recordMatch p i n) = snapshot n"
    "state (recordMatch p i n) = state n" "currentTerm (recordMatch p i n) = currentTerm n"
    "votedFor (recordMatch p i n) = votedFor n" "rlog (recordMatch p i n) = rlog n"
    "commitIndex (recordMatch p i n) = commitIndex n" "lastApplied (recordMatch p i n) = lastApplied n"
    "votesReceived (recordMatch p i n) = votesReceived n" "leaderID (recordMatch p i n) = leaderID n"
    "stopped (recordMatch p i n) = stopped n" "disk (recordMatch p i n) = disk n"
    "world (recordMatch p i n) = world n" "goroutines (recordMatch p i n) = goroutines n"
  by (simp_all add: recordMatch_def)

lemma recordMatch_simps [simp]:
  shows "matchIndex (recordMatch p i n) = fmupd p i (matchIndex n)"
    "nextIndex (recordMatch p i n) = fmupd p (i + 1) (nextIndex n)"
  by (simp_all add: recordMatch_def)

lemma appendOwn_frame [simp]:
  shows
    "nid (appendOwn x n) = nid n" "peerAddrs (appendOwn x n) = peerAddrs n"
    "peerHTTP (appendOwn x n) = peerHTTP n" "peerIDs (appendOwn x n) = peerIDs n"
    "basePeers (appendOwn x n) = basePeers n" "baseHTTP (appendOwn x n) = baseHTTP n"
    "joining (appendOwn x n) = joining n" "peerHook (appendOwn x n) = peerHook n"
    "transport (appendOwn x n) = transport n" "apply_fn (appendOwn x n) = apply_fn n"
    "storage (appendOwn x n) = storage n" "snapshotter (appendOwn x n) = snapshotter n"
    "snapshotThreshold (appendOwn x n) = snapshotThreshold n" "snapshot (appendOwn x n) = snapshot n"
    "state (appendOwn x n) = state n" "currentTerm (appendOwn x n) = currentTerm n"
    "votedFor (appendOwn x n) = votedFor n" "commitIndex (appendOwn x n) = commitIndex n"
    "lastApplied (appendOwn x n) = lastApplied n" "nextIndex (appendOwn x n) = nextIndex n"
    "matchIndex (appendOwn x n) = matchIndex n" "votesReceived (appendOwn x n) = votesReceived n"
    "leaderID (appendOwn x n) = leaderID n" "stopped (appendOwn x n) = stopped n" "disk (appendOwn x n) = disk n"
    "world (appendOwn x n) = world n" "goroutines (appendOwn x n) = goroutines n"
  by (simp_all add: appendOwn_def)

lemma appendOwn_rlog [simp]: "rlog (appendOwn x n) = rlog n @ [x]"
  by (simp add: appendOwn_def)

lemma backOff_frame [simp]:
  shows
    "nid (backOff p n) = nid n" "peerAddrs (backOff p n) = peerAddrs n" "peerHTTP (backOff p n) = peerHTTP n"
    "peerIDs (backOff p n) = peerIDs n" "basePeers (backOff p n) = basePeers n"
    "baseHTTP (backOff p n) = baseHTTP n" "joining (backOff p n) = joining n"
    "peerHook (backOff p n) = peerHook n" "transport (backOff p n) = transport n"
    "apply_fn (backOff p n) = apply_fn n" "storage (backOff p n) = storage n"
    "snapshotter (backOff p n) = snapshotter n" "snapshotThreshold (backOff p n) = snapshotThreshold n"
    "snapshot (backOff p n) = snapshot n" "state (backOff p n) = state n"
    "currentTerm (backOff p n) = currentTerm n" "votedFor (backOff p n) = votedFor n"
    "rlog (backOff p n) = rlog n" "commitIndex (backOff p n) = commitIndex n"
    "lastApplied (backOff p n) = lastApplied n" "matchIndex (backOff p n) = matchIndex n"
    "votesReceived (backOff p n) = votesReceived n" "leaderID (backOff p n) = leaderID n"
    "stopped (backOff p n) = stopped n" "disk (backOff p n) = disk n" "world (backOff p n) = world n"
    "goroutines (backOff p n) = goroutines n"
  by (simp_all add: backOff_def Let_def)

lemma startReplication_frame [simp]:
  shows
    "nid (startReplication p n) = nid n" "peerAddrs (startReplication p n) = peerAddrs n"
    "peerHTTP (startReplication p n) = peerHTTP n" "peerIDs (startReplication p n) = peerIDs n"
    "basePeers (startReplication p n) = basePeers n" "baseHTTP (startReplication p n) = baseHTTP n"
    "joining (startReplication p n) = joining n" "peerHook (startReplication p n) = peerHook n"
    "transport (startReplication p n) = transport n" "apply_fn (startReplication p n) = apply_fn n"
    "storage (startReplication p n) = storage n" "snapshotter (startReplication p n) = snapshotter n"
    "snapshotThreshold (startReplication p n) = snapshotThreshold n"
    "snapshot (startReplication p n) = snapshot n" "state (startReplication p n) = state n"
    "currentTerm (startReplication p n) = currentTerm n" "votedFor (startReplication p n) = votedFor n"
    "rlog (startReplication p n) = rlog n" "commitIndex (startReplication p n) = commitIndex n"
    "lastApplied (startReplication p n) = lastApplied n" "nextIndex (startReplication p n) = nextIndex n"
    "matchIndex (startReplication p n) = matchIndex n" "votesReceived (startReplication p n) = votesReceived n"
    "leaderID (startReplication p n) = leaderID n" "stopped (startReplication p n) = stopped n"
    "disk (startReplication p n) = disk n" "world (startReplication p n) = world n"
  by (simp_all add: startReplication_def)

subsection \<open>Compaction\<close>

lemma compactLocked_frame [simp]:
  shows
    "nid (compactLocked i n) = nid n" "joining (compactLocked i n) = joining n"
    "peerHook (compactLocked i n) = peerHook n" "apply_fn (compactLocked i n) = apply_fn n"
    "storage (compactLocked i n) = storage n" "snapshotter (compactLocked i n) = snapshotter n"
    "snapshotThreshold (compactLocked i n) = snapshotThreshold n" "state (compactLocked i n) = state n"
    "currentTerm (compactLocked i n) = currentTerm n" "votedFor (compactLocked i n) = votedFor n"
    "commitIndex (compactLocked i n) = commitIndex n" "lastApplied (compactLocked i n) = lastApplied n"
    "nextIndex (compactLocked i n) = nextIndex n" "matchIndex (compactLocked i n) = matchIndex n"
    "votesReceived (compactLocked i n) = votesReceived n" "leaderID (compactLocked i n) = leaderID n"
    "stopped (compactLocked i n) = stopped n" "goroutines (compactLocked i n) = goroutines n"
  by (simp_all add: compactLocked_def Let_def split: option.split sum.split)

lemma maybeCompact_frame [simp]:
  shows
    "nid (maybeCompactLocked n) = nid n" "joining (maybeCompactLocked n) = joining n"
    "peerHook (maybeCompactLocked n) = peerHook n" "apply_fn (maybeCompactLocked n) = apply_fn n"
    "storage (maybeCompactLocked n) = storage n" "snapshotter (maybeCompactLocked n) = snapshotter n"
    "snapshotThreshold (maybeCompactLocked n) = snapshotThreshold n" "state (maybeCompactLocked n) = state n"
    "currentTerm (maybeCompactLocked n) = currentTerm n" "votedFor (maybeCompactLocked n) = votedFor n"
    "commitIndex (maybeCompactLocked n) = commitIndex n" "lastApplied (maybeCompactLocked n) = lastApplied n"
    "nextIndex (maybeCompactLocked n) = nextIndex n" "matchIndex (maybeCompactLocked n) = matchIndex n"
    "votesReceived (maybeCompactLocked n) = votesReceived n" "leaderID (maybeCompactLocked n) = leaderID n"
    "stopped (maybeCompactLocked n) = stopped n" "goroutines (maybeCompactLocked n) = goroutines n"
  by (simp_all add: maybeCompactLocked_def Let_def)

subsection \<open>Loops\<close>

text \<open>Whatever the body of a loop keeps, the loop keeps.\<close>

lemma applyLoop_keeps: "(\<And>e i n. f (applyEntry e i n) = f n) \<Longrightarrow> f (applyLoop n) = f n"
proof (induction n rule: applyLoop.induct)
  case (1 n)
  then show ?case
    by (auto simp: applyLoop.simps[of n] Let_def split: option.split)
qed

lemma advanceLoop_keeps: "(\<And>c n. f (n\<lparr>commitIndex := c\<rparr>) = f n) \<Longrightarrow> f (advanceLoop i n) = f n"
proof (induction i n rule: advanceLoop.induct)
  case (1 i n)
  then show ?case
    by (auto simp: advanceLoop.simps[of i n])
qed

lemma fold_keeps: "(\<And>x s. f (g x s) = f s) \<Longrightarrow> f (fold g xs s) = f s"
  by (induction xs arbitrary: s) simp_all

lemma mergeEntries_keeps:
  assumes "\<And>l m. f (m\<lparr>rlog := l\<rparr>) = f m"
  shows "f (snd (mergeEntries es i n)) = f n"
proof -
  have app: "f (appendEntriesLocked es i n) = f n" for es i n
    using assms by (induction es i n rule: appendEntriesLocked.induct) simp_all
  show ?thesis
    by (induction es i n rule: mergeEntries.induct)
       (auto simp: app assms Let_def split: option.split)
qed

lemma applyLoop_frame [simp]:
  shows
    "nid (applyLoop n) = nid n" "peerAddrs (applyLoop n) = peerAddrs n" "peerHTTP (applyLoop n) = peerHTTP n"
    "peerIDs (applyLoop n) = peerIDs n" "basePeers (applyLoop n) = basePeers n"
    "baseHTTP (applyLoop n) = baseHTTP n" "joining (applyLoop n) = joining n"
    "peerHook (applyLoop n) = peerHook n" "transport (applyLoop n) = transport n"
    "apply_fn (applyLoop n) = apply_fn n" "storage (applyLoop n) = storage n"
    "snapshotter (applyLoop n) = snapshotter n" "snapshotThreshold (applyLoop n) = snapshotThreshold n"
    "snapshot (applyLoop n) = snapshot n" "state (applyLoop n) = state n"
    "currentTerm (applyLoop n) = currentTerm n" "votedFor (applyLoop n) = votedFor n"
    "rlog (applyLoop n) = rlog n" "commitIndex (applyLoop n) = commitIndex n"
    "nextIndex (applyLoop n) = nextIndex n" "matchIndex (applyLoop n) = matchIndex n"
    "votesReceived (applyLoop n) = votesReceived n" "leaderID (applyLoop n) = leaderID n"
    "stopped (applyLoop n) = stopped n" "disk (applyLoop n) = disk n" "goroutines (applyLoop n) = goroutines n"
  by (rule applyLoop_keeps, simp add: applyEntry_def)+

lemma applyCommitted_frame [simp]:
  shows
    "nid (applyCommittedLocked n) = nid n" "joining (applyCommittedLocked n) = joining n"
    "peerHook (applyCommittedLocked n) = peerHook n" "apply_fn (applyCommittedLocked n) = apply_fn n"
    "storage (applyCommittedLocked n) = storage n" "snapshotter (applyCommittedLocked n) = snapshotter n"
    "snapshotThreshold (applyCommittedLocked n) = snapshotThreshold n" "state (applyCommittedLocked n) = state n"
    "currentTerm (applyCommittedLocked n) = currentTerm n" "votedFor (applyCommittedLocked n) = votedFor n"
    "commitIndex (applyCommittedLocked n) = commitIndex n" "nextIndex (applyCommittedLocked n) = nextIndex n"
    "matchIndex (applyCommittedLocked n) = matchIndex n"
    "votesReceived (applyCommittedLocked n) = votesReceived n" "leaderID (applyCommittedLocked n) = leaderID n"
    "stopped (applyCommittedLocked n) = stopped n" "goroutines (applyCommittedLocked n) = goroutines n"
  by (simp_all add: applyCommittedLocked_def)

lemma advanceCommit_frame [simp]:
  shows
    "nid (advanceCommitLocked n) = nid n" "peerAddrs (advanceCommitLocked n) = peerAddrs n"
    "peerHTTP (advanceCommitLocked n) = peerHTTP n" "peerIDs (advanceCommitLocked n) = peerIDs n"
    "basePeers (advanceCommitLocked n) = basePeers n" "baseHTTP (advanceCommitLocked n) = baseHTTP n"
    "joining (advanceCommitLocked n) = joining n" "peerHook (advanceCommitLocked n) = peerHook n"
    "transport (advanceCommitLocked n) = transport n" "apply_fn (advanceCommitLocked n) = apply_fn n"
    "storage (advanceCommitLocked n) = storage n" "snapshotter (advanceCommitLocked n) = snapshotter n"
    "snapshotThreshold (advanceCommitLocked n) = snapshotThreshold n"
    "snapshot (advanceCommitLocked n) = snapshot n" "state (advanceCommitLocked n) = state n"
    "currentTerm (advanceCommitLocked n) = currentTerm n" "votedFor (advanceCommitLocked n) = votedFor n"
    "rlog (advanceCommitLocked n) = rlog n" "lastApplied (advanceCommitLocked n) = lastApplied n"
    "nextIndex (advanceCommitLocked n) = nextIndex n" "matchIndex (advanceCommitLocked n) = matchIndex n"
    "votesReceived (advanceCommitLocked n) = votesReceived n" "leaderID (advanceCommitLocked n) = leaderID n"
    "stopped (advanceCommitLocked n) = stopped n" "disk (advanceCommitLocked n) = disk n"
    "world (advanceCommitLocked n) = world n" "goroutines (advanceCommitLocked n) = goroutines n"
  unfolding advanceCommitLocked_def by (rule advanceLoop_keeps, simp)+

lemma broadcast_keeps:
  "(\<And>p n. f (startReplication p n) = f n) \<Longrightarrow> f (broadcastAppendEntriesLocked n) = f n"
  unfolding broadcastAppendEntriesLocked_def by (simp add: fold_keeps[where f = f])

lemma broadcast_frame [simp]:
  shows
    "nid (broadcastAppendEntriesLocked n) = nid n" "peerAddrs (broadcastAppendEntriesLocked n) = peerAddrs n"
    "peerHTTP (broadcastAppendEntriesLocked n) = peerHTTP n"
    "peerIDs (broadcastAppendEntriesLocked n) = peerIDs n"
    "basePeers (broadcastAppendEntriesLocked n) = basePeers n"
    "baseHTTP (broadcastAppendEntriesLocked n) = baseHTTP n"
    "joining (broadcastAppendEntriesLocked n) = joining n"
    "peerHook (broadcastAppendEntriesLocked n) = peerHook n"
    "transport (broadcastAppendEntriesLocked n) = transport n"
    "apply_fn (broadcastAppendEntriesLocked n) = apply_fn n"
    "storage (broadcastAppendEntriesLocked n) = storage n"
    "snapshotter (broadcastAppendEntriesLocked n) = snapshotter n"
    "snapshotThreshold (broadcastAppendEntriesLocked n) = snapshotThreshold n"
    "snapshot (broadcastAppendEntriesLocked n) = snapshot n" "state (broadcastAppendEntriesLocked n) = state n"
    "currentTerm (broadcastAppendEntriesLocked n) = currentTerm n"
    "votedFor (broadcastAppendEntriesLocked n) = votedFor n" "rlog (broadcastAppendEntriesLocked n) = rlog n"
    "commitIndex (broadcastAppendEntriesLocked n) = commitIndex n"
    "lastApplied (broadcastAppendEntriesLocked n) = lastApplied n"
    "nextIndex (broadcastAppendEntriesLocked n) = nextIndex n"
    "matchIndex (broadcastAppendEntriesLocked n) = matchIndex n"
    "votesReceived (broadcastAppendEntriesLocked n) = votesReceived n"
    "leaderID (broadcastAppendEntriesLocked n) = leaderID n"
    "stopped (broadcastAppendEntriesLocked n) = stopped n" "disk (broadcastAppendEntriesLocked n) = disk n"
    "world (broadcastAppendEntriesLocked n) = world n"
  by (rule broadcast_keeps, simp)+

text \<open>Replication starts no vote request.\<close>

definition voteCalls :: "('w, 'd) RaftNode \<Rightarrow> (string \<times> RequestVoteRequest) set" where
  "voteCalls n = {(p, r). SendRequestVote p r \<in> set (goroutines n)}"

lemma voteCalls_cong: "goroutines m = goroutines n \<Longrightarrow> voteCalls m = voteCalls n"
  by (simp add: voteCalls_def)

lemma voteCalls_broadcast [simp]:
  fixes n :: "('w, 'd) RaftNode"
  shows "voteCalls (broadcastAppendEntriesLocked n) = voteCalls n"
proof -
  have "voteCalls (startReplication p m) = voteCalls m" for p and m :: "('w, 'd) RaftNode"
    by (auto simp: voteCalls_def startReplication_def)
  then show ?thesis by (rule broadcast_keeps)
qed

lemma fold_trackFresh_frame [simp]:
  shows
    "nid (fold (trackFresh l) ps n) = nid n" "peerAddrs (fold (trackFresh l) ps n) = peerAddrs n"
    "peerHTTP (fold (trackFresh l) ps n) = peerHTTP n" "peerIDs (fold (trackFresh l) ps n) = peerIDs n"
    "basePeers (fold (trackFresh l) ps n) = basePeers n" "baseHTTP (fold (trackFresh l) ps n) = baseHTTP n"
    "joining (fold (trackFresh l) ps n) = joining n" "peerHook (fold (trackFresh l) ps n) = peerHook n"
    "transport (fold (trackFresh l) ps n) = transport n" "apply_fn (fold (trackFresh l) ps n) = apply_fn n"
    "storage (fold (trackFresh l) ps n) = storage n" "snapshotter (fold (trackFresh l) ps n) = snapshotter n"
    "snapshotThreshold (fold (trackFresh l) ps n) = snapshotThreshold n"
    "snapshot (fold (trackFresh l) ps n) = snapshot n" "state (fold (trackFresh l) ps n) = state n"
    "currentTerm (fold (trackFresh l) ps n) = currentTerm n" "votedFor (fold (trackFresh l) ps n) = votedFor n"
    "rlog (fold (trackFresh l) ps n) = rlog n" "commitIndex (fold (trackFresh l) ps n) = commitIndex n"
    "lastApplied (fold (trackFresh l) ps n) = lastApplied n"
    "votesReceived (fold (trackFresh l) ps n) = votesReceived n"
    "leaderID (fold (trackFresh l) ps n) = leaderID n" "stopped (fold (trackFresh l) ps n) = stopped n"
    "disk (fold (trackFresh l) ps n) = disk n" "world (fold (trackFresh l) ps n) = world n"
    "goroutines (fold (trackFresh l) ps n) = goroutines n"
  by (rule fold_keeps, simp add: trackFresh_def)+

lemma mergeEntries_frame [simp]:
  shows
    "nid (snd (mergeEntries es i n)) = nid n" "peerAddrs (snd (mergeEntries es i n)) = peerAddrs n"
    "peerHTTP (snd (mergeEntries es i n)) = peerHTTP n" "peerIDs (snd (mergeEntries es i n)) = peerIDs n"
    "basePeers (snd (mergeEntries es i n)) = basePeers n" "baseHTTP (snd (mergeEntries es i n)) = baseHTTP n"
    "joining (snd (mergeEntries es i n)) = joining n" "peerHook (snd (mergeEntries es i n)) = peerHook n"
    "transport (snd (mergeEntries es i n)) = transport n" "apply_fn (snd (mergeEntries es i n)) = apply_fn n"
    "storage (snd (mergeEntries es i n)) = storage n" "snapshotter (snd (mergeEntries es i n)) = snapshotter n"
    "snapshotThreshold (snd (mergeEntries es i n)) = snapshotThreshold n"
    "snapshot (snd (mergeEntries es i n)) = snapshot n" "state (snd (mergeEntries es i n)) = state n"
    "currentTerm (snd (mergeEntries es i n)) = currentTerm n" "votedFor (snd (mergeEntries es i n)) = votedFor n"
    "commitIndex (snd (mergeEntries es i n)) = commitIndex n"
    "lastApplied (snd (mergeEntries es i n)) = lastApplied n"
    "nextIndex (snd (mergeEntries es i n)) = nextIndex n" "matchIndex (snd (mergeEntries es i n)) = matchIndex n"
    "votesReceived (snd (mergeEntries es i n)) = votesReceived n"
    "leaderID (snd (mergeEntries es i n)) = leaderID n" "stopped (snd (mergeEntries es i n)) = stopped n"
    "disk (snd (mergeEntries es i n)) = disk n" "world (snd (mergeEntries es i n)) = world n"
    "goroutines (snd (mergeEntries es i n)) = goroutines n"
  by (rule mergeEntries_keeps, simp)+

lemma followCommit_frame [simp]:
  shows
    "nid (followCommit c n) = nid n" "joining (followCommit c n) = joining n"
    "peerHook (followCommit c n) = peerHook n" "apply_fn (followCommit c n) = apply_fn n"
    "storage (followCommit c n) = storage n" "snapshotter (followCommit c n) = snapshotter n"
    "snapshotThreshold (followCommit c n) = snapshotThreshold n" "state (followCommit c n) = state n"
    "currentTerm (followCommit c n) = currentTerm n" "votedFor (followCommit c n) = votedFor n"
    "nextIndex (followCommit c n) = nextIndex n" "matchIndex (followCommit c n) = matchIndex n"
    "votesReceived (followCommit c n) = votesReceived n" "leaderID (followCommit c n) = leaderID n"
    "stopped (followCommit c n) = stopped n" "goroutines (followCommit c n) = goroutines n"
  by (simp_all add: followCommit_def)

lemma restoreSnapshot_frame [simp]:
  shows
    "nid (restoreSnapshotLocked n) = nid n" "peerAddrs (restoreSnapshotLocked n) = peerAddrs n"
    "peerHTTP (restoreSnapshotLocked n) = peerHTTP n" "peerIDs (restoreSnapshotLocked n) = peerIDs n"
    "basePeers (restoreSnapshotLocked n) = basePeers n" "baseHTTP (restoreSnapshotLocked n) = baseHTTP n"
    "joining (restoreSnapshotLocked n) = joining n" "peerHook (restoreSnapshotLocked n) = peerHook n"
    "transport (restoreSnapshotLocked n) = transport n" "apply_fn (restoreSnapshotLocked n) = apply_fn n"
    "storage (restoreSnapshotLocked n) = storage n" "snapshotter (restoreSnapshotLocked n) = snapshotter n"
    "snapshotThreshold (restoreSnapshotLocked n) = snapshotThreshold n"
    "snapshot (restoreSnapshotLocked n) = snapshot n" "state (restoreSnapshotLocked n) = state n"
    "currentTerm (restoreSnapshotLocked n) = currentTerm n" "votedFor (restoreSnapshotLocked n) = votedFor n"
    "rlog (restoreSnapshotLocked n) = rlog n" "nextIndex (restoreSnapshotLocked n) = nextIndex n"
    "matchIndex (restoreSnapshotLocked n) = matchIndex n"
    "votesReceived (restoreSnapshotLocked n) = votesReceived n" "leaderID (restoreSnapshotLocked n) = leaderID n"
    "stopped (restoreSnapshotLocked n) = stopped n" "disk (restoreSnapshotLocked n) = disk n"
    "goroutines (restoreSnapshotLocked n) = goroutines n"
  by (simp_all add: restoreSnapshotLocked_def Let_def split: prod.split option.split)

lemma installSnapshot_frame [simp]:
  shows
    "nid (installSnapshot req n) = nid n" "joining (installSnapshot req n) = joining n"
    "peerHook (installSnapshot req n) = peerHook n" "apply_fn (installSnapshot req n) = apply_fn n"
    "storage (installSnapshot req n) = storage n" "snapshotter (installSnapshot req n) = snapshotter n"
    "snapshotThreshold (installSnapshot req n) = snapshotThreshold n" "state (installSnapshot req n) = state n"
    "currentTerm (installSnapshot req n) = currentTerm n" "votedFor (installSnapshot req n) = votedFor n"
    "nextIndex (installSnapshot req n) = nextIndex n" "matchIndex (installSnapshot req n) = matchIndex n"
    "votesReceived (installSnapshot req n) = votesReceived n" "leaderID (installSnapshot req n) = leaderID n"
    "stopped (installSnapshot req n) = stopped n" "goroutines (installSnapshot req n) = goroutines n"
  by (simp_all add: installSnapshot_def Let_def)

end
