(* ===== verification/Raft_Events.thy ===== *)
theory Raft_Events
  imports Raft_Read Raft_Frames
begin

text \<open>
  A node as a state machine.  Every critical section of the package (code that runs under the
  node's mutex) is an event, \<open>handle\<close> is its effect, and a crash followed by a restart is the
  event \<open>EvRestart\<close>: everything but the disk is lost and the node is built again the way
  \<open>startNode\<close> (\<open>cmd/main.go\<close>) and \<open>startMemberJoin\<close> (\<open>cluster/cluster.go\<close>) build it.

  The second half is the durability contract: terms never go down, a vote is never changed within
  its term, and whatever a node has promised is on its disk.
\<close>

subsection \<open>Starting a node\<close>

record ('w, 'd) Boot =
  bCfg :: "('w, 'd) Config"
  bApply :: "ApplyMsg \<Rightarrow> 'w \<Rightarrow> 'w"
  bSnap :: "'w Snapshotter"
  bHook :: "addrmap \<Rightarrow> addrmap \<Rightarrow> 'w \<Rightarrow> 'w"
  bSetup :: "'w \<Rightarrow> 'w"
  bTransport :: transport
  bWorld :: 'w

definition wireUp :: "('w, 'd) Boot \<Rightarrow> ('w, 'd) RaftNode \<Rightarrow> ('w, 'd) RaftNode" where
  "wireUp b n =
     (let n1 = SetSnapshotter (bSnap b) (SetApply (bApply b) n);
          n2 = n1\<lparr>world := bSetup b (world n1)\<rparr>
      in SetPeerHook (bHook b) (SetTransport (bTransport b) n2))"

definition boot :: "('w, 'd) Boot \<Rightarrow> Env \<Rightarrow> 'd \<Rightarrow> ('w, 'd) RaftNode" where
  "boot b e d = Start e (wireUp b (NewNode (bCfg b) d (bWorld b)))"

subsection \<open>Events\<close>

datatype event =
    EvTick Env
  | EvVote Env RequestVoteRequest
  | EvVoteResp Env string RequestVoteRequest RequestVoteResponse
  | EvReplicate string
  | EvAppend Env AppendEntriesRequest
  | EvAppendResp Env string AppendEntriesRequest int AppendEntriesResponse
  | EvInstall Env InstallSnapshotRequest
  | EvInstallResp Env string InstallSnapshotRequest int InstallSnapshotResponse
  | EvReplicateExit string
  | EvPropose bytes
  | EvAddServer string string string
  | EvRemoveServer string
  | EvWaitTerm
  | EvConfirmResp Env int AppendEntriesResponse
  | EvStop
  | EvRestart Env

definition handle :: "('w, 'd) Boot \<Rightarrow> event \<Rightarrow> ('w, 'd) RaftNode \<Rightarrow> ('w, 'd) RaftNode" where
  "handle b ev n = (case ev of
     EvTick e \<Rightarrow> tick e n
   | EvVote e req \<Rightarrow> snd (HandleRequestVote e req n)
   | EvVoteResp e p req resp \<Rightarrow> requestVoteResp e p req resp n
   | EvReplicate p \<Rightarrow> snd (replicateSend p n)
   | EvAppend e req \<Rightarrow> snd (HandleAppendEntries e req n)
   | EvAppendResp e p req t resp \<Rightarrow> snd (replicateAppendResp e p req t resp n)
   | EvInstall e req \<Rightarrow> snd (HandleInstallSnapshot e req n)
   | EvInstallResp e p req t resp \<Rightarrow> snd (replicateInstallResp e p req t resp n)
   | EvReplicateExit p \<Rightarrow> replicateExit p n
   | EvPropose cmd \<Rightarrow> snd (Propose cmd n)
   | EvAddServer i addr http \<Rightarrow> snd (AddServer i addr http n)
   | EvRemoveServer i \<Rightarrow> snd (RemoveServer i n)
   | EvWaitTerm \<Rightarrow> snd (waitCurrentTermIter n)
   | EvConfirmResp e t resp \<Rightarrow> snd (confirmResp e t resp n)
   | EvStop \<Rightarrow> Stop n
   | EvRestart e \<Rightarrow> boot b e (disk n))"

subsection \<open>How a critical section may change durable state\<close>

text \<open>
  Either durable state and disk are as before, or the disk was written last with the durable state
  the node ends up with.
\<close>

definition writes :: "('w, 'd) RaftNode \<Rightarrow> ('w, 'd) RaftNode \<Rightarrow> bool" where
  "writes n m \<longleftrightarrow> durableOf m = durableOf n \<and> disk m = disk n \<or>
     (\<forall>st. storage m = Some st \<longrightarrow> (\<exists>d. disk m = snd (Save st (durableOf m) d)))"

definition evolves :: "('w, 'd) RaftNode \<Rightarrow> ('w, 'd) RaftNode \<Rightarrow> bool" where
  "evolves n m \<longleftrightarrow> nid m = nid n \<and> storage m = storage n \<and> currentTerm n \<le> currentTerm m \<and>
     (currentTerm m = currentTerm n \<longrightarrow> votedFor n \<noteq> '''' \<longrightarrow> votedFor m = votedFor n) \<and>
     (rlog n \<noteq> [] \<longrightarrow> rlog m \<noteq> []) \<and> writes n m"

lemma evolves_refl [simp]: "evolves n n"
  by (simp add: evolves_def writes_def)

lemma evolves_trans [trans]: "evolves n m \<Longrightarrow> evolves m k \<Longrightarrow> evolves n k"
  unfolding evolves_def writes_def by (intro conjI impI) auto

text \<open>A step that touches none of the durable fields.\<close>

lemma evolves_quiet:
  "nid m = nid n \<Longrightarrow> storage m = storage n \<Longrightarrow> disk m = disk n \<Longrightarrow> durableOf m = durableOf n \<Longrightarrow> evolves n m"
  by (simp add: evolves_def writes_def durableOf_def)

lemma durableOf_cong:
  "currentTerm m = currentTerm n \<Longrightarrow> votedFor m = votedFor n \<Longrightarrow> rlog m = rlog n \<Longrightarrow>
   snapshot m = snapshot n \<Longrightarrow> basePeers m = basePeers n \<Longrightarrow> baseHTTP m = baseHTTP n \<Longrightarrow>
   durableOf m = durableOf n"
  by (simp add: durableOf_def)

text \<open>A step that ends by writing the disk.\<close>

lemma evolves_persist:
  "nid m = nid n \<Longrightarrow> storage m = storage n \<Longrightarrow> currentTerm n \<le> currentTerm m \<Longrightarrow>
   (currentTerm m = currentTerm n \<Longrightarrow> votedFor n \<noteq> '''' \<Longrightarrow> votedFor m = votedFor n) \<Longrightarrow>
   (rlog n \<noteq> [] \<Longrightarrow> rlog m \<noteq> []) \<Longrightarrow> evolves n (persistLocked m)"
  by (auto simp: evolves_def writes_def persistLocked_def durableOf_def split: option.splits)

lemma writes_persist: "writes n (persistLocked m)"
  by (auto simp: writes_def persistLocked_def durableOf_def)

end
