(* ===== verification/Go_Utf8.thy ===== *)
theory Go_Utf8
  imports Go_Prelude "HOL-Library.Code_Target_Nat"
begin

text \<open>
  UTF-8 as Go's package \<open>unicode/utf8\<close> reads it.  Go strings are byte strings, and \<open>encoding/json\<close>
  replaces every byte that does not start a well-formed rune by U+FFFD when it writes or reads a
  string.  A string survives exactly when it is well formed.
\<close>

abbreviation code :: "char \<Rightarrow> nat" where
  "code c \<equiv> of_char c"

abbreviation chr :: "nat \<Rightarrow> char" where
  "chr n \<equiv> char_of n"

definition cont :: "char \<Rightarrow> bool" where
  "cont c \<longleftrightarrow> 128 \<le> code c \<and> code c < 192"

text \<open>The range of the second byte of a rune, by its first byte (\<open>acceptRanges\<close> of \<open>utf8.go\<close>).\<close>

definition second_ok :: "char \<Rightarrow> char \<Rightarrow> bool" where
  "second_ok a b \<longleftrightarrow> cont b \<and>
     (code a = 224 \<longrightarrow> 160 \<le> code b) \<and> (code a = 237 \<longrightarrow> code b < 160) \<and>
     (code a = 240 \<longrightarrow> 144 \<le> code b) \<and> (code a = 244 \<longrightarrow> code b < 144)"

text \<open>\<open>DecodeRune\<close>: the size of the well-formed rune a string starts with, and 0 if there is none.\<close>

definition runeLen :: "string \<Rightarrow> nat" where
  "runeLen s = (case s of
     [] \<Rightarrow> 0
   | a # r \<Rightarrow>
       (if code a < 128 then 1
        else if 194 \<le> code a \<and> code a < 224 then (case r of b # _ \<Rightarrow> if cont b then 2 else 0 | _ \<Rightarrow> 0)
        else if 224 \<le> code a \<and> code a < 240 then
          (case r of b # c # _ \<Rightarrow> if second_ok a b \<and> cont c then 3 else 0 | _ \<Rightarrow> 0)
        else if 240 \<le> code a \<and> code a < 245 then
          (case r of b # c # d # _ \<Rightarrow> if second_ok a b \<and> cont c \<and> cont d then 4 else 0 | _ \<Rightarrow> 0)
        else 0))"

lemma runeLen_Nil [simp]: "runeLen [] = 0"
  by (simp add: runeLen_def)

lemma runeLen_ascii [simp]: "code c < 128 \<Longrightarrow> runeLen (c # r) = 1"
  by (simp add: runeLen_def)

lemma runeLen_le: "runeLen s \<le> length s" "runeLen s \<le> 4"
  by (auto simp: runeLen_def split: list.splits)

text \<open>Only the bytes of the rune matter.\<close>

lemma runeLen_take:
  assumes "runeLen s = n" and "0 < n"
  shows "runeLen (take n s @ t) = n"
proof -
  obtain a r where s: "s = a # r" using assms by (cases s) auto
  consider "code a < 128" | "194 \<le> code a" "code a < 224" | "224 \<le> code a" "code a < 240"
    | "240 \<le> code a" "code a < 245"
    using assms s by (auto simp: runeLen_def split: if_splits)
  then show ?thesis
  proof cases
    case 1
    then show ?thesis using assms s by auto
  next
    case 2
    then obtain b r' where "r = b # r'" using assms s by (cases r) (auto simp: runeLen_def)
    then show ?thesis using 2 assms s by (cases "cont b") (auto simp: runeLen_def)
  next
    case 3
    then obtain b c r' where r: "r = b # c # r'" using assms s by (auto simp: runeLen_def split: list.splits)
    then show ?thesis using 3 assms s by (cases "second_ok a b \<and> cont c") (auto simp: runeLen_def)
  next
    case 4
    then obtain b c d r' where "r = b # c # d # r'" using assms s by (auto simp: runeLen_def split: list.splits)
    then show ?thesis using 4 assms s by (cases "second_ok a b \<and> cont c \<and> cont d") (auto simp: runeLen_def)
  qed
qed

subsection \<open>Well-formed strings\<close>

fun valid_utf8 :: "string \<Rightarrow> bool" where
  "valid_utf8 [] = True"
| "valid_utf8 (c # cs) = (0 < runeLen (c # cs) \<and> valid_utf8 (drop (runeLen (c # cs) - 1) cs))"

definition valid_map :: "addrmap \<Rightarrow> bool" where
  "valid_map m \<longleftrightarrow> (\<forall>k \<in> set (map_keys m). valid_utf8 k \<and> valid_utf8 (map_get [] m k))"

definition runeError :: string where
  "runeError = map chr [239, 191, 189]"

text \<open>Every byte that starts no rune becomes U+FFFD.\<close>

fun sanitize :: "string \<Rightarrow> string" where
  "sanitize [] = []"
| "sanitize (c # cs) =
     (if runeLen (c # cs) = 0 then runeError @ sanitize cs
      else take (runeLen (c # cs)) (c # cs) @ sanitize (drop (runeLen (c # cs) - 1) cs))"

lemma sanitize_valid: "valid_utf8 s \<Longrightarrow> sanitize s = s"
proof (induction s rule: valid_utf8.induct)
  case (2 c cs)
  let ?n = "runeLen (c # cs)"
  have "take ?n (c # cs) @ drop (?n - 1) cs = c # cs" using 2(2) by (cases ?n) auto
  then show ?case using 2 by simp
qed simp

lemma valid_rune_append: "0 < runeLen s \<Longrightarrow> valid_utf8 t \<Longrightarrow> valid_utf8 (take (runeLen s) s @ t)"
proof (cases s)
  case (Cons c cs)
  assume pos: "0 < runeLen s" and t: "valid_utf8 t"
  let ?n = "runeLen s"
  have n: "runeLen (take ?n s @ t) = ?n" by (rule runeLen_take[OF refl pos])
  have "take ?n s @ t = c # (take (?n - 1) cs @ t)" using Cons pos by (cases ?n) auto
  moreover have "drop (?n - 1) (take (?n - 1) cs @ t) = t"
    using runeLen_le(1)[of s] Cons by simp
  ultimately show ?thesis using n t pos by simp
qed simp

lemma valid_runeError_append: "valid_utf8 t \<Longrightarrow> valid_utf8 (runeError @ t)"
  by (simp add: runeError_def runeLen_def second_ok_def cont_def)

lemma valid_sanitize: "valid_utf8 (sanitize s)"
proof (induction s rule: sanitize.induct)
  case (2 c cs)
  then show ?case
    using valid_runeError_append valid_rune_append[of "c # cs"] by (cases "runeLen (c # cs) = 0") auto
qed simp

theorem sanitize_id_iff: "sanitize s = s \<longleftrightarrow> valid_utf8 s"
  using sanitize_valid valid_sanitize by metis

lemma valid_append: "valid_utf8 s \<Longrightarrow> valid_utf8 t \<Longrightarrow> valid_utf8 (s @ t)"
proof (induction s rule: valid_utf8.induct)
  case (2 c cs)
  let ?n = "runeLen (c # cs)"
  have "valid_utf8 (take ?n (c # cs) @ (drop (?n - 1) cs @ t))"
    using 2 by (intro valid_rune_append) auto
  moreover have "take ?n (c # cs) @ (drop (?n - 1) cs @ t) = (c # cs) @ t" using 2(2) by (cases ?n) auto
  ultimately show ?case by metis
qed simp

lemma valid_ascii: "(\<And>c. c \<in> set s \<Longrightarrow> code c < 128) \<Longrightarrow> valid_utf8 s"
  by (induction s) auto

subsection \<open>Encoding a rune\<close>

text \<open>\<open>utf8.AppendRune\<close>, for a rune that is not a surrogate.\<close>

definition utf8_encode :: "nat \<Rightarrow> string" where
  "utf8_encode v =
     (if v < 128 then [chr v]
      else if v < 2048 then [chr (192 + v div 64), chr (128 + v mod 64)]
      else if v < 65536 then [chr (224 + v div 4096), chr (128 + v div 64 mod 64), chr (128 + v mod 64)]
      else [chr (240 + v div 262144), chr (128 + v div 4096 mod 64), chr (128 + v div 64 mod 64),
            chr (128 + v mod 64)])"

definition surrogate :: "nat \<Rightarrow> bool" where
  "surrogate v \<longleftrightarrow> 55296 \<le> v \<and> v < 57344"

lemma code_chr: "n < 256 \<Longrightarrow> code (chr n) = n"
  by simp

lemma code_cont: "code (chr (128 + k mod 64)) = 128 + k mod 64"
  using mod_less_divisor[of 64 k] by (intro code_chr) linarith

lemma cont_chr: "cont (chr (128 + k mod 64))"
  using mod_less_divisor[of 64 k] unfolding cont_def code_cont by linarith

lemma runeLen_encode3:
  assumes "2048 \<le> v" "v < 65536" "\<not> surrogate v"
  shows "runeLen (utf8_encode v @ t) = 3"
proof -
  define q h where "q = v div 64" and "h = v div 4096"
  have "h = q div 64" by (simp add: q_def h_def div_mult2_eq[symmetric])
  then have e: "q = 64 * h + q mod 64" by simp
  have m: "q mod 64 < 64" by simp
  have "32 \<le> q" "q < 1024" using assms(1,2) by (simp_all add: q_def div_le_mono[of 2048 v 64, simplified] less_mult_imp_div_less)
  moreover have "q < 864 \<or> 896 \<le> q" using assms(3) unfolding q_def surrogate_def by linarith
  ultimately have h: "h < 16" "h = 0 \<longrightarrow> 32 \<le> q mod 64" "h = 13 \<longrightarrow> q mod 64 < 32" using e m by linarith+
  have c: "code (chr (224 + h)) = 224 + h" using h(1) by (intro code_chr) linarith
  show ?thesis
    using assms(1,2) cont_chr[of q] cont_chr[of v] h
    unfolding utf8_encode_def runeLen_def second_ok_def q_def[symmetric] h_def[symmetric] 
    by (simp add: c code_cont del: of_char_of)
qed

lemma runeLen_encode2:
  assumes "128 \<le> v" "v < 2048"
  shows "runeLen (utf8_encode v @ t) = 2"
proof -
  have h: "2 \<le> v div 64" "v div 64 < 32"
    using assms div_le_mono[of 128 v 64] less_mult_imp_div_less[of v 32 64] by simp_all
  then have "code (chr (192 + v div 64)) = 192 + v div 64" by (intro code_chr) linarith
  then show ?thesis
    using assms cont_chr[of v] h unfolding utf8_encode_def runeLen_def by (simp del: of_char_of)
qed

lemma runeLen_encode4:
  assumes "65536 \<le> v" "v < 1114112"
  shows "runeLen (utf8_encode v @ t) = 4"
proof -
  define q h where "q = v div 4096" and "h = v div 262144"
  have "h = q div 64" by (simp add: q_def h_def div_mult2_eq[symmetric])
  then have e: "q = 64 * h + q mod 64" by simp
  have "16 \<le> q" "q < 272"
    using assms div_le_mono[of 65536 v 4096] less_mult_imp_div_less[of v 272 4096] by (simp_all add: q_def)
  then have h: "h < 5" "h = 0 \<longrightarrow> 16 \<le> q mod 64" "h = 4 \<longrightarrow> q mod 64 < 16"
    using e mod_less_divisor[of 64 q] by linarith+
  have c: "code (chr (240 + h)) = 240 + h" using h(1) by (intro code_chr) linarith
  show ?thesis
    using assms cont_chr[of q] cont_chr[of v] cont_chr[of "v div 64"] h
    unfolding utf8_encode_def runeLen_def second_ok_def q_def[symmetric] h_def[symmetric]
    by (simp add: c code_cont del: of_char_of)
qed

lemma valid_encode_append:
  assumes "v < 1114112" and "\<not> surrogate v" and t: "valid_utf8 t"
  shows "valid_utf8 (utf8_encode v @ t)"
proof -
  have "runeLen (utf8_encode v @ t) = length (utf8_encode v)"
  proof (cases "v < 128")
    case True
    then show ?thesis by (simp add: utf8_encode_def)
  next
    case False
    then show ?thesis
      using runeLen_encode2[of v t] runeLen_encode3[of v t] runeLen_encode4[of v t] assms(1,2)
      by (cases "v < 2048"; cases "v < 65536") (simp_all add: utf8_encode_def)
  qed
  moreover have "0 < length (utf8_encode v)" by (simp add: utf8_encode_def)
  ultimately show ?thesis using valid_rune_append[of "utf8_encode v @ t" t] t by simp
qed

end
