(* ===== verification/Raft_Text.thy ===== *)
theory Raft_Text
  imports Raft_Events Go_Utf8
begin

text \<open>
  Names and addresses as text.  The disk format stores strings as JSON, which replaces malformed
  UTF-8, so a node can only be restored when the strings in its durable state are well formed.  They
  are: a node that starts with well-formed names and receives well-formed messages stays well formed.
\<close>

subsection \<open>Well-formed states and events\<close>

definition valid_change :: "MembershipChange \<Rightarrow> bool" where
  "valid_change ch \<longleftrightarrow> valid_utf8 (chType ch) \<and> valid_utf8 (chID ch) \<and> valid_utf8 (chAddr ch) \<and>
     valid_utf8 (chHTTP ch) \<and> valid_map (chPeers ch) \<and> valid_map (chHTTPAddrs ch)"

definition valid_entry :: "LogEntry \<Rightarrow> bool" where
  "valid_entry e = (case eChange e of None \<Rightarrow> True | Some ch \<Rightarrow> valid_change ch)"

definition valid_durable :: "DurableState \<Rightarrow> bool" where
  "valid_durable ds \<longleftrightarrow> valid_utf8 (dsVotedFor ds) \<and> (\<forall>e \<in> set (dsLog ds). valid_entry e) \<and>
     valid_map (dsSnapshotPeers ds) \<and> valid_map (dsSnapshotHTTP ds)"

definition textual :: "('w, 'd) RaftNode \<Rightarrow> bool" where
  "textual n \<longleftrightarrow> valid_utf8 (nid n) \<and> valid_durable (durableOf n) \<and>
     valid_map (peerAddrs n) \<and> valid_map (peerHTTP n)"

fun textual_event :: "event \<Rightarrow> bool" where
  "textual_event (EvVote e req) = valid_utf8 (rvCandidateID req)"
| "textual_event (EvAppend e req) = (\<forall>x \<in> set (aeEntries req). valid_entry x)"
| "textual_event (EvInstall e req) = (valid_map (isPeers req) \<and> valid_map (isHTTP req))"
| "textual_event (EvAddServer i addr http) = (valid_utf8 i \<and> valid_utf8 addr \<and> valid_utf8 http)"
| "textual_event (EvRemoveServer i) = valid_utf8 i"
| "textual_event _ = True"

definition textual_boot :: "('w, 'd) Boot \<Rightarrow> bool" where
  "textual_boot b \<longleftrightarrow> valid_utf8 (cfgID (bCfg b)) \<and> valid_map (cfgPeerAddrs (bCfg b)) \<and>
     valid_map (cfgHTTPAddrs (bCfg b))"

lemma textualI:
  assumes "valid_utf8 (nid n)" "valid_utf8 (votedFor n)" "\<And>e. e \<in> set (rlog n) \<Longrightarrow> valid_entry e"
    "valid_map (basePeers n)" "valid_map (baseHTTP n)" "valid_map (peerAddrs n)" "valid_map (peerHTTP n)"
  shows "textual n"
  using assms by (simp add: textual_def valid_durable_def durableOf_def)

lemma textualD:
  assumes "textual n"
  shows "valid_utf8 (nid n)" "valid_utf8 (votedFor n)" "e \<in> set (rlog n) \<Longrightarrow> valid_entry e"
    "valid_map (basePeers n)" "valid_map (baseHTTP n)" "valid_map (peerAddrs n)" "valid_map (peerHTTP n)"
  using assms by (auto simp: textual_def valid_durable_def durableOf_def)

text \<open>A step that keeps the text.\<close>

lemma textual_cong:
  assumes "textual n" and "nid m = nid n" "votedFor m = votedFor n \<or> valid_utf8 (votedFor m)"
    "set (rlog m) \<subseteq> set (rlog n) \<union> {e. valid_entry e}" "basePeers m = basePeers n"
    "baseHTTP m = baseHTTP n" "peerAddrs m = peerAddrs n" "peerHTTP m = peerHTTP n"
  shows "textual m"
  using assms textualD[OF assms(1)] by (intro textualI) auto

lemma valid_none: "eChange e = None \<Longrightarrow> valid_entry e"
  by (simp add: valid_entry_def)

lemma valid_map_empty [simp]: "valid_map fmempty"
  by (simp add: valid_map_def)

lemma valid_map_iff: "valid_map m \<longleftrightarrow> (\<forall>k v. fmlookup m k = Some v \<longrightarrow> valid_utf8 k \<and> valid_utf8 v)"
  by (auto simp: valid_map_def map_has_def map_get_def split: option.splits)

lemma valid_map_upd: "valid_map m \<Longrightarrow> valid_utf8 k \<Longrightarrow> valid_utf8 v \<Longrightarrow> valid_map (fmupd k v m)"
  by (simp add: valid_map_iff)

lemma valid_map_drop: "valid_map m \<Longrightarrow> valid_map (fmdrop k m)"
  by (auto simp: valid_map_iff split: if_splits)

subsection \<open>Membership\<close>

lemma valid_applyEntryChange:
  assumes "valid_entry e" "valid_map (fst ph)" "valid_map (snd ph)"
  shows "valid_map (fst (applyEntryChange e ph)) \<and> valid_map (snd (applyEntryChange e ph))"
  using assms
  by (auto simp: applyEntryChange_def applyChange_def valid_entry_def valid_change_def
      intro: valid_map_upd valid_map_drop split: option.splits)

lemma valid_fold_changes:
  assumes "\<forall>e \<in> set es. valid_entry e" "valid_map (fst ph)" "valid_map (snd ph)"
  shows "valid_map (fst (fold applyEntryChange es ph)) \<and> valid_map (snd (fold applyEntryChange es ph))"
  using assms
proof (induction es arbitrary: ph)
  case (Cons e es)
  then show ?case using valid_applyEntryChange[of e ph] by simp
qed simp

text \<open>Rebuilding the membership needs only the base configuration and the log.\<close>

lemma textual_rebuild:
  assumes "valid_utf8 (nid n)" "valid_utf8 (votedFor n)" "\<And>e. e \<in> set (rlog n) \<Longrightarrow> valid_entry e"
    "valid_map (basePeers n)" "valid_map (baseHTTP n)"
  shows "textual (rebuildMembershipLocked n)"
proof -
  have "\<forall>e \<in> set (tl (rlog n)). valid_entry e" using assms(3) by (cases "rlog n") auto
  from valid_fold_changes[OF this, of "(basePeers n, baseHTTP n)"] assms(4,5)
  have "valid_map (peerAddrs (rebuildMembershipLocked n))" "valid_map (peerHTTP (rebuildMembershipLocked n))"
    by (simp_all add: rebuildMembershipLocked_def rebuildPeerIDsLocked_def cloneStringMap_def Let_def)
  then show ?thesis using assms by (intro textualI) simp_all
qed

named_theorems textual_intro "steps that keep text well formed"

lemma textual_persist [textual_intro]: "textual n \<Longrightarrow> textual (persistLocked n)"
  by (erule textual_cong) simp_all

lemma textual_notify [textual_intro]: "textual n \<Longrightarrow> textual (notifyPeersLocked n)"
  by (erule textual_cong) simp_all

lemma textual_reset [textual_intro]: "textual n \<Longrightarrow> textual (resetElectionTimerLocked e n)"
  by (erule textual_cong) simp_all

lemma textual_follower [textual_intro]: "textual n \<Longrightarrow> textual (becomeFollowerLocked t l n)"
  by (erule textual_cong) simp_all

lemma textual_stepDown [textual_intro]: "textual n \<Longrightarrow> textual (stepDown e t n)"
  by (erule textual_cong) simp_all

lemma textual_quiet [textual_intro]:
  "textual n \<Longrightarrow> textual (broadcastAppendEntriesLocked n)" "textual n \<Longrightarrow> textual (advanceCommitLocked n)"
  "textual n \<Longrightarrow> textual (recordMatch p i n)" "textual n \<Longrightarrow> textual (applyLoop n)"
  "textual n \<Longrightarrow> textual (backOff p n)" "textual n \<Longrightarrow> textual (restoreSnapshotLocked n)"
  "textual n \<Longrightarrow> textual (replicateExit p n)" "textual n \<Longrightarrow> textual (Stop n)"
  by (erule textual_cong; simp add: replicateExit_def Stop_def)+

lemma textual_compact [textual_intro]:
  assumes "textual n"
  shows "textual (compactLocked i n)"
proof -
  note t = textualD[OF assms]
  have "set (takeWhile (\<lambda>e. \<not> eIndex e > i) (tl (rlog n))) \<subseteq> set (rlog n)"
    by (cases "rlog n") (auto dest: set_takeWhileD)
  then have m: "valid_map (fst (membershipAtLocked n i))" "valid_map (snd (membershipAtLocked n i))"
    using valid_fold_changes[of "takeWhile (\<lambda>e. \<not> eIndex e > i) (tl (rlog n))" "(basePeers n, baseHTTP n)"] t
    by (auto simp: membershipAtLocked_def cloneStringMap_def)
  have "textual (rebuildMembershipLocked
      (n\<lparr>rlog := \<lparr>eTerm = x, eIndex = i, eCommand = [], eChange = None\<rparr> # drop k (rlog n), snapshot := d,
         basePeers := fst (membershipAtLocked n i), baseHTTP := snd (membershipAtLocked n i)\<rparr>))" for x k d
    using t m by (intro textual_rebuild) (auto simp: valid_none dest: in_set_dropD)
  then show ?thesis
    using assms by (auto simp: compactLocked_def Let_def split: option.split sum.split intro!: textual_intro)
qed

lemma textual_applyCommitted [textual_intro]: "textual n \<Longrightarrow> textual (applyCommittedLocked n)"
  by (simp add: applyCommittedLocked_def maybeCompactLocked_def Let_def textual_intro)

lemma textual_ownEntry:
  "textual n \<Longrightarrow> valid_entry e \<Longrightarrow> textual (appendOwn e n)"
  by (erule textual_cong) auto

lemma textual_followCommit [textual_intro]: "textual n \<Longrightarrow> textual (followCommit c n)"
  unfolding followCommit_def by (auto intro!: textual_applyCommitted elim: textual_cong)

lemma textual_leader [textual_intro]:
  assumes "textual n"
  shows "textual (becomeLeaderLocked n)"
  unfolding becomeLeaderLocked_def Let_def
  by (intro textual_intro textual_cong[OF assms]) (auto simp: noopEntry_def valid_none)

subsection \<open>The handlers\<close>

lemma textual_startElection [textual_intro]: "textual n \<Longrightarrow> textual (startElectionLocked e n)"
proof -
  assume t: "textual n"
  have "textual (persistLocked (resetElectionTimerLocked e
      (n\<lparr>state := Candidate, currentTerm := currentTerm n + 1, votedFor := nid n, leaderID := [],
         votesReceived := fmupd (nid n) True fmempty\<rparr>)))"
    by (intro textual_intro textual_cong[OF t]) (simp_all add: textualD(1)[OF t])
  then show ?thesis
    unfolding startElectionLocked_def Let_def
    by (auto intro!: textual_intro t elim: textual_cong)
qed

lemma textual_tick [textual_intro]: "textual n \<Longrightarrow> textual (tick e n)"
  unfolding tick_def by (auto intro!: textual_intro split: State.split elim: textual_cong)

lemma textual_HandleRequestVote:
  assumes "textual n" "valid_utf8 (rvCandidateID req)"
  shows "textual (snd (HandleRequestVote e req n))"
proof -
  define n1 where "n1 = (if rvTerm req > currentTerm n then becomeFollowerLocked (rvTerm req) [] n else n)"
  have "textual n1" using assms(1) by (simp add: n1_def textual_intro)
  moreover from this have "textual (persistLocked (resetElectionTimerLocked e (n1\<lparr>votedFor := rvCandidateID req\<rparr>)))"
    by (intro textual_intro) (erule textual_cong, simp_all add: assms(2))
  ultimately show ?thesis
    using assms(1) unfolding HandleRequestVote_def Let_def n1_def[symmetric] by simp
qed

lemma textual_requestVoteResp [textual_intro]: "textual n \<Longrightarrow> textual (requestVoteResp e p req resp n)"
  unfolding requestVoteResp_def Let_def by (auto intro!: textual_intro elim: textual_cong)

lemma textual_makeAppend: "textual n \<Longrightarrow> textual (snd (makeAppendRequestLocked p n))"
  by (erule textual_cong) (simp_all add: makeAppendRequestLocked_def Let_def split: option.split)

lemma textual_replicateSend [textual_intro]: "textual n \<Longrightarrow> textual (snd (replicateSend p n))"
  using textual_makeAppend[of n p] by (auto simp: replicateSend_def split: prod.split option.split)

lemma rlog_appendEntries_valid:
  "\<forall>e \<in> set es. valid_entry e \<Longrightarrow> set (rlog (appendEntriesLocked es i n)) \<subseteq> set (rlog n) \<union> {e. valid_entry e}"
  by (induction es i n rule: appendEntriesLocked.induct) (auto simp: valid_entry_def)

lemma rlog_mergeEntries_valid:
  "\<forall>e \<in> set es. valid_entry e \<Longrightarrow>
   set (rlog (snd (mergeEntries es i n))) \<subseteq> set (rlog n) \<union> {e. valid_entry e}"
proof (induction es i n rule: mergeEntries.induct)
  case (2 e es i n)
  have "set (rlog (appendEntriesLocked (e # es) i (n\<lparr>rlog := take k (rlog n)\<rparr>))) \<subseteq> set (rlog n) \<union> {e. valid_entry e}" for k
    using rlog_appendEntries_valid[OF 2(2), of i "n\<lparr>rlog := take k (rlog n)\<rparr>"] set_take_subset[of k "rlog n"] by auto
  then show ?case
    using 2 rlog_appendEntries_valid[OF 2(2), of i n] by (simp add: Let_def del: appendEntriesLocked.simps split: option.split)
qed simp

lemma textual_HandleAppendEntries:
  assumes "textual n" "\<forall>x \<in> set (aeEntries req). valid_entry x"
  shows "textual (snd (HandleAppendEntries e req n))"
proof -
  define n1 where "n1 = (if aeTerm req > currentTerm n \<or> state n \<noteq> Follower
     then becomeFollowerLocked (aeTerm req) (aeLeaderID req) n else n)"
  define n2 where "n2 = (resetElectionTimerLocked e (n1\<lparr>leaderID := aeLeaderID req\<rparr>))\<lparr>joining := False\<rparr>"
  define n3 where "n3 = snd (mergeEntries (aeEntries req) (aePrevLogIndex req + 1) n2)"
  have "textual n1" using assms(1) by (simp add: n1_def textual_intro)
  then have n2: "textual n2" by (rule textual_cong) (simp_all add: n2_def)
  then have n3: "textual n3"
    by (rule textual_cong) (simp_all add: n3_def rlog_mergeEntries_valid[OF assms(2)])
  then have "textual (rebuildMembershipLocked n3)" by (intro textual_rebuild) (auto dest: textualD)
  then show ?thesis
    using n2 n3 assms(1)
    unfolding HandleAppendEntries_def Let_def n1_def[symmetric] n2_def[symmetric]
    by (auto simp: case_prod_beta n3_def[symmetric] intro!: textual_intro split: option.split)
qed

lemma textual_replicateResp [textual_intro]:
  "textual n \<Longrightarrow> textual (snd (replicateAppendResp e p areq t aresp n))"
  "textual n \<Longrightarrow> textual (snd (replicateInstallResp e p ireq t iresp n))"
  by (simp_all add: replicateAppendResp_def replicateInstallResp_def Let_def textual_intro)

lemma textual_installSnapshot:
  assumes "textual n" "valid_map (isPeers req)" "valid_map (isHTTP req)"
  shows "textual (installSnapshot req n)"
proof -
  let ?n1 = "n\<lparr>rlog := [\<lparr>eTerm = isLastIncludedTerm req, eIndex = isLastIncludedIndex req, eCommand = [], eChange = None\<rparr>],
      snapshot := isData req\<rparr>"
  have "textual ?n1" by (rule textual_cong[OF assms(1)]) (simp_all add: valid_none)
  moreover have "textual (notifyPeersLocked (rebuildMembershipLocked
      (?n1\<lparr>basePeers := cloneStringMap (isPeers req), baseHTTP := cloneStringMap (isHTTP req)\<rparr>)))"
    using assms textualD[OF assms(1)]
    by (intro textual_notify textual_rebuild) (auto simp: cloneStringMap_def valid_none)
  ultimately have "textual (if map_len (isPeers req) > 0 then notifyPeersLocked (rebuildMembershipLocked
      (?n1\<lparr>basePeers := cloneStringMap (isPeers req), baseHTTP := cloneStringMap (isHTTP req)\<rparr>)) else ?n1)"
    by simp
  then show ?thesis
    unfolding installSnapshot_def Let_def by (intro textual_persist) (erule textual_cong, simp_all)
qed

lemma textual_HandleInstallSnapshot:
  assumes "textual n" "valid_map (isPeers req)" "valid_map (isHTTP req)"
  shows "textual (snd (HandleInstallSnapshot e req n))"
proof -
  define n1 where "n1 = (if isTerm req > currentTerm n \<or> state n \<noteq> Follower
     then becomeFollowerLocked (isTerm req) (isLeaderID req) n else n)"
  define n2 where "n2 = (resetElectionTimerLocked e (n1\<lparr>leaderID := isLeaderID req\<rparr>))\<lparr>joining := False\<rparr>"
  have "textual n1" using assms(1) by (simp add: n1_def textual_intro)
  then have "textual n2" by (rule textual_cong) (simp_all add: n2_def)
  then show ?thesis
    using assms textual_installSnapshot[OF _ assms(2,3), of n2]
    unfolding HandleInstallSnapshot_def Let_def n1_def[symmetric] n2_def[symmetric] by simp
qed

lemma textual_Propose [textual_intro]: "textual n \<Longrightarrow> textual (snd (Propose cmd n))"
  by (simp add: Propose_def Let_def textual_intro textual_ownEntry valid_none)

lemma textual_track [textual_intro]: "textual n \<Longrightarrow> textual (ensurePeerTrackingLocked n)"
proof -
  have "textual n \<Longrightarrow> textual (trackPeer p n)" for p and n :: "('a, 'b) RaftNode"
    by (erule textual_cong) (simp_all add: trackPeer_def Let_def)
  then have "textual n \<Longrightarrow> textual (fold trackPeer ps n)" for ps by (induction ps arbitrary: n) auto
  then show "textual n \<Longrightarrow> textual (ensurePeerTrackingLocked n)" by (simp add: ensurePeerTrackingLocked_def)
qed

lemma textual_proposeChange:
  assumes "textual n" "valid_utf8 (chType ch)" "valid_utf8 (chID ch)" "valid_utf8 (chAddr ch)" "valid_utf8 (chHTTP ch)"
  shows "textual (snd (proposeChangeLocked ch n))"
proof -
  note t = textualD[OF assms(1)]
  have "textual (rebuildMembershipLocked (appendOwn \<lparr>eTerm = currentTerm n, eIndex = lastLogIndexLocked n + 1,
      eCommand = [], eChange = Some (ch\<lparr>chPeers := p, chHTTPAddrs := h\<rparr>)\<rparr> n))"
    if "newConfig ch n = Inr (p, h)" for p h
  proof -
    have "valid_map p" "valid_map h"
      using that assms t(6,7)
      by (auto simp: newConfig_def Let_def cloneStringMap_def split: if_splits intro: valid_map_upd valid_map_drop)
    then show ?thesis
      using assms t by (intro textual_rebuild) (auto simp: valid_entry_def valid_change_def)
  qed
  then show ?thesis
    using assms(1) by (auto simp: proposeChangeLocked_def Let_def intro!: textual_intro split: sum.split)
qed

lemma valid_changeTypes [simp]: "valid_utf8 ChangeAdd" "valid_utf8 ChangeRemove"
  unfolding ChangeAdd_def ChangeRemove_def by (rule valid_ascii, auto)+

theorem textual_handle:
  assumes "textual n" "textual_event ev" "\<nexists>e. ev = EvRestart e"
  shows "textual (handle b ev n)"
  using assms
  by (cases ev) (simp_all add: handle_def textual_intro textual_HandleRequestVote textual_HandleAppendEntries
      textual_HandleInstallSnapshot AddServer_def RemoveServer_def textual_proposeChange
      waitCurrentTermIter_def confirmResp_def)

end
