(* ===== verification/Raft_Durable.thy ===== *)
theory Raft_Durable
  imports Raft_Text
begin

text \<open>
  Every critical section keeps the durability contract of \<open>Raft_Events\<close>, and a restart returns
  exactly the durable state the node had.
\<close>

subsection \<open>The pieces of the handlers\<close>

named_theorems evolves_intro "steps that keep the durability contract"

lemma evolves_reset [evolves_intro]: "evolves n (resetElectionTimerLocked e n)"
  by (rule evolves_quiet) (simp_all add: durableOf_def)

lemma evolves_follower [evolves_intro]: "currentTerm n \<le> t \<Longrightarrow> evolves n (becomeFollowerLocked t l n)"
proof (cases "currentTerm n < t")
  case True
  let ?m = "n\<lparr>currentTerm := t, votedFor := ''''\<rparr>"
  have "evolves n (persistLocked ?m)" using True by (intro evolves_persist) simp_all
  also have "evolves (persistLocked ?m) ((persistLocked ?m)\<lparr>state := Follower, leaderID := l\<rparr>)"
    by (rule evolves_quiet) (simp_all add: durableOf_def)
  finally show ?thesis using True by (simp add: becomeFollowerLocked_def)
qed (auto simp: becomeFollowerLocked_def durableOf_def intro: evolves_quiet)

lemma evolves_stepDown [evolves_intro]: "currentTerm n \<le> t \<Longrightarrow> evolves n (stepDown e t n)"
  unfolding stepDown_def by (rule evolves_trans[OF evolves_follower evolves_reset])

lemma evolves_compact [evolves_intro]: "evolves n (compactLocked i n)"
  by (auto simp: compactLocked_def Let_def split: option.splits sum.splits intro!: evolves_persist)

lemma evolves_maybeCompact [evolves_intro]: "evolves n (maybeCompactLocked n)"
  by (simp add: maybeCompactLocked_def Let_def evolves_compact)

lemma evolves_applyLoop [evolves_intro]: "evolves n (applyLoop n)"
  by (rule evolves_quiet) (simp_all add: durableOf_def)

lemma evolves_applyCommitted [evolves_intro]: "evolves n (applyCommittedLocked n)"
  unfolding applyCommittedLocked_def by (rule evolves_trans[OF evolves_applyLoop evolves_maybeCompact])

lemma evolves_advance [evolves_intro]: "evolves n (advanceCommitLocked n)"
  by (rule evolves_quiet) (simp_all add: durableOf_def)

lemma evolves_broadcast [evolves_intro]: "evolves n (broadcastAppendEntriesLocked n)"
  by (rule evolves_quiet) (simp_all add: durableOf_def)

lemma evolves_recordMatch [evolves_intro]: "evolves n (recordMatch p i n)"
  by (rule evolves_quiet) (simp_all add: durableOf_def)

lemma evolves_backOff [evolves_intro]: "evolves n (backOff p n)"
  by (rule evolves_quiet) (simp_all add: durableOf_def)

lemma evolves_commit: "evolves n (advanceCommitLocked n)" "evolves n (applyCommittedLocked (advanceCommitLocked n))"
  by (auto intro: evolves_trans evolves_intro)

lemma evolves_leader [evolves_intro]: "evolves n (becomeLeaderLocked n)"
proof -
  have "evolves n (persistLocked m)" if "nid m = nid n" "storage m = storage n" "currentTerm m = currentTerm n"
    "votedFor m = votedFor n" "rlog m \<noteq> []" for m :: "('a, 'b) RaftNode"
    using that by (intro evolves_persist) simp_all
  then show ?thesis
    unfolding becomeLeaderLocked_def Let_def
    by (intro evolves_trans[OF _ evolves_broadcast] evolves_trans[OF _ evolves_applyCommitted]
        evolves_trans[OF _ evolves_advance]) simp
qed

lemma evolves_followCommit [evolves_intro]: "evolves n (followCommit c n)"
  unfolding followCommit_def
  by (auto intro!: evolves_trans[OF _ evolves_applyCommitted] evolves_quiet simp: durableOf_def)

lemma evolves_install [evolves_intro]: "evolves n (installSnapshot req n)"
  unfolding installSnapshot_def Let_def by (auto intro!: evolves_persist)

subsection \<open>The handlers\<close>

lemma evolves_startElection [evolves_intro]: "evolves n (startElectionLocked e n)"
proof -
  let ?m = "resetElectionTimerLocked e
     (n\<lparr>state := Candidate, currentTerm := currentTerm n + 1, votedFor := nid n, leaderID := '''',
        votesReceived := fmupd (nid n) True fmempty\<rparr>)"
  have m: "evolves n (persistLocked ?m)" by (intro evolves_persist) simp_all
  show ?thesis
    unfolding startElectionLocked_def Let_def
    by (auto intro!: evolves_reset evolves_trans[OF m] evolves_leader evolves_quiet simp: durableOf_def)
qed

lemma evolves_tick [evolves_intro]: "evolves n (tick e n)"
proof -
  have "evolves n (broadcastAppendEntriesLocked (n\<lparr>nextHeartbeat := t\<rparr>))" for t
    by (rule evolves_trans[OF _ evolves_broadcast]) (rule evolves_quiet, simp_all add: durableOf_def)
  then show ?thesis
    unfolding tick_def
    by (auto intro!: evolves_trans[OF _ evolves_applyCommitted] evolves_startElection split: State.split)
qed

lemma evolves_HandleRequestVote [evolves_intro]: "evolves n (snd (HandleRequestVote e req n))"
proof (cases "rvTerm req < currentTerm n")
  case False
  define n1 where "n1 = (if rvTerm req > currentTerm n then becomeFollowerLocked (rvTerm req) '''' n else n)"
  have n1: "evolves n n1" using False by (simp add: n1_def evolves_follower)
  have "evolves n1 (persistLocked (resetElectionTimerLocked e (n1\<lparr>votedFor := rvCandidateID req\<rparr>)))"
    if "votedFor n1 = '''' \<or> votedFor n1 = rvCandidateID req"
    using that by (intro evolves_persist) auto
  then show ?thesis
    using False n1 evolves_trans[OF n1]
    unfolding HandleRequestVote_def Let_def n1_def[symmetric] by auto
qed (simp add: HandleRequestVote_def)

lemma evolves_requestVoteResp [evolves_intro]: "evolves n (requestVoteResp e p req resp n)"
proof -
  have m: "evolves n (n\<lparr>votesReceived := v\<rparr>)" for v
    by (rule evolves_quiet) (simp_all add: durableOf_def)
  show ?thesis
    using m evolves_trans[OF m evolves_leader] evolves_stepDown[of n "rvrTerm resp" e]
    by (simp add: requestVoteResp_def Let_def)
qed

lemma evolves_makeAppend [evolves_intro]: "evolves n (snd (makeAppendRequestLocked p n))"
  unfolding makeAppendRequestLocked_def Let_def
  by (rule evolves_quiet) (auto simp: durableOf_def split: option.split)

lemma evolves_replicateSend [evolves_intro]: "evolves n (snd (replicateSend p n))"
  using evolves_makeAppend[of n p] by (auto simp: replicateSend_def split: prod.split option.split)

lemma mergeEntries_clean: "\<not> fst (mergeEntries es i n) \<Longrightarrow> snd (mergeEntries es i n) = n"
  by (induction es arbitrary: i) (auto simp: Let_def split: option.splits if_splits)

lemma appendEntries_nonempty: "rlog n \<noteq> [] \<Longrightarrow> rlog (appendEntriesLocked es i n) \<noteq> []"
  by (induction es arbitrary: i n) auto

lemma mergeEntries_nonempty: "rlog n \<noteq> [] \<Longrightarrow> rlog (snd (mergeEntries es i n)) \<noteq> []"
proof (induction es arbitrary: i)
  case (Cons e es)
  then show ?case
    by (cases "entryAtLocked n i") (simp_all add: Let_def appendEntries_nonempty del: appendEntriesLocked.simps)
qed simp

lemma evolves_HandleAppendEntries [evolves_intro]: "evolves n (snd (HandleAppendEntries e req n))"
proof (cases "aeTerm req < currentTerm n")
  case False
  define n1 where "n1 = (if aeTerm req > currentTerm n \<or> state n \<noteq> Follower
     then becomeFollowerLocked (aeTerm req) (aeLeaderID req) n else n)"
  define n2 where "n2 = (resetElectionTimerLocked e (n1\<lparr>leaderID := aeLeaderID req\<rparr>))\<lparr>joining := False\<rparr>"
  have "evolves n n1" using False by (simp add: n1_def evolves_follower)
  also have "evolves n1 n2" by (rule evolves_quiet) (simp_all add: n2_def durableOf_def)
  finally have n2: "evolves n n2" .
  have dirty: "evolves n2 (if fst r then persistLocked (notifyPeersLocked (rebuildMembershipLocked (snd r))) else snd r)"
    if r: "r = mergeEntries es i n2" for r es i
  proof (cases "fst r")
    case True
    then show ?thesis using r by (simp add: evolves_persist mergeEntries_nonempty)
  next
    case False
    then have "snd r = n2" using r mergeEntries_clean by metis
    then show ?thesis using False by simp
  qed
  show ?thesis
    using False n2 evolves_trans[OF n2 evolves_trans[OF dirty[OF refl] evolves_followCommit]]
    unfolding HandleAppendEntries_def Let_def n1_def[symmetric] n2_def[symmetric]
    by (auto split: option.split simp: case_prod_beta)
qed (simp add: HandleAppendEntries_def)

lemma evolves_HandleInstallSnapshot [evolves_intro]: "evolves n (snd (HandleInstallSnapshot e req n))"
proof (cases "isTerm req < currentTerm n")
  case False
  define n1 where "n1 = (if isTerm req > currentTerm n \<or> state n \<noteq> Follower
     then becomeFollowerLocked (isTerm req) (isLeaderID req) n else n)"
  define n2 where "n2 = (resetElectionTimerLocked e (n1\<lparr>leaderID := isLeaderID req\<rparr>))\<lparr>joining := False\<rparr>"
  have "evolves n n1" using False by (simp add: n1_def evolves_follower)
  also have "evolves n1 n2" by (rule evolves_quiet) (simp_all add: n2_def durableOf_def)
  finally have n2: "evolves n n2" .
  then show ?thesis
    using False evolves_trans[OF n2 evolves_install]
    by (simp add: HandleInstallSnapshot_def Let_def n1_def[symmetric] n2_def[symmetric])
qed (simp add: HandleInstallSnapshot_def)

lemma evolves_matched: "evolves n (applyCommittedLocked (advanceCommitLocked (recordMatch p i n)))"
  by (rule evolves_trans[OF evolves_recordMatch evolves_commit(2)])

lemma evolves_replicateAppendResp [evolves_intro]: "evolves n (snd (replicateAppendResp e p req t resp n))"
  using evolves_stepDown[of n "aerTerm resp" e]
  by (simp add: replicateAppendResp_def Let_def evolves_matched evolves_backOff)

lemma evolves_replicateInstallResp [evolves_intro]: "evolves n (snd (replicateInstallResp e p req t resp n))"
  using evolves_stepDown[of n "isrTerm resp" e]
  by (simp add: replicateInstallResp_def Let_def evolves_matched)

lemma evolves_ownEntry:
  assumes "nid m = nid n" "storage m = storage n" "currentTerm m = currentTerm n" "votedFor m = votedFor n" "rlog m \<noteq> []"
  shows "evolves n (broadcastAppendEntriesLocked (applyCommittedLocked (advanceCommitLocked
     (recordMatch p i (persistLocked m)))))"
proof -
  have "evolves n (persistLocked m)" using assms by (intro evolves_persist) simp_all
  from evolves_trans[OF evolves_trans[OF this evolves_matched] evolves_broadcast] show ?thesis .
qed

lemma evolves_Propose [evolves_intro]: "evolves n (snd (Propose cmd n))"
  using evolves_ownEntry[of "appendOwn e n" n for e] by (simp add: Propose_def Let_def)

lemma ensureTracking_frame [simp]:
  "nid (ensurePeerTrackingLocked n) = nid n" "storage (ensurePeerTrackingLocked n) = storage n"
  "currentTerm (ensurePeerTrackingLocked n) = currentTerm n" "votedFor (ensurePeerTrackingLocked n) = votedFor n"
  "rlog (ensurePeerTrackingLocked n) = rlog n"
  unfolding ensurePeerTrackingLocked_def by (rule fold_keeps, simp add: trackPeer_def Let_def)+

lemma evolves_proposeChange [evolves_intro]: "evolves n (snd (proposeChangeLocked ch n))"
  unfolding proposeChangeLocked_def Let_def
  by (auto split: sum.split intro!: evolves_ownEntry)

lemma evolves_AddServer [evolves_intro]: "evolves n (snd (AddServer i a h n))"
  by (simp add: AddServer_def evolves_proposeChange)

lemma evolves_RemoveServer [evolves_intro]: "evolves n (snd (RemoveServer i n))"
  by (simp add: RemoveServer_def evolves_proposeChange)

lemma evolves_waitTerm [evolves_intro]: "evolves n (snd (waitCurrentTermIter n))"
  by (simp add: waitCurrentTermIter_def evolves_broadcast)

lemma evolves_confirmResp [evolves_intro]: "evolves n (snd (confirmResp e t resp n))"
  by (simp add: confirmResp_def evolves_stepDown)

lemma evolves_misc [evolves_intro]: "evolves n (Stop n)" "evolves n (replicateExit p n)"
  by (rule evolves_quiet; simp add: Stop_def replicateExit_def durableOf_def)+

theorem handle_evolves:
  assumes "\<nexists>e. ev = EvRestart e"
  shows "evolves n (handle b ev n)"
  using assms by (cases ev) (simp_all add: handle_def evolves_intro)

subsection \<open>Restarts\<close>

text \<open>
  What a node relies on in a storage: what was written last is what is read, for every state with
  well-formed strings.
\<close>

definition storage_ok :: "'d Storage \<Rightarrow> bool" where
  "storage_ok st \<longleftrightarrow>
     (\<forall>ds d. dsLog ds \<noteq> [] \<longrightarrow> valid_durable ds \<longrightarrow> Load st (snd (Save st ds d)) = Inr ds)"

text \<open>
  The disk holds the durable state of the node, or nothing at all while the node has nothing to
  remember.  (A saved configuration without members is not read back, so nothing is said of it.)
\<close>

definition saved :: "'d Storage \<Rightarrow> ('w, 'd) RaftNode \<Rightarrow> bool" where
  "saved st n \<longleftrightarrow> (\<exists>ds. Load st (disk n) = Inr ds \<and>
     dsCurrentTerm ds = currentTerm n \<and> dsVotedFor ds = votedFor n \<and> dsLog ds = rlog n \<and>
     dsSnapshot ds = snapshot n \<and>
     (map_len (dsSnapshotPeers ds) > 0 \<longrightarrow>
        dsSnapshotPeers ds = basePeers n \<and> dsSnapshotHTTP ds = baseHTTP n))"

definition unsaved :: "'d Storage \<Rightarrow> addrmap \<Rightarrow> addrmap \<Rightarrow> ('w, 'd) RaftNode \<Rightarrow> bool" where
  "unsaved st peers https n \<longleftrightarrow>
     (\<exists>ds. Load st (disk n) = Inr ds \<and> \<not> hasDurable ds) \<and>
     durableOf n = \<lparr>dsCurrentTerm = 0, dsVotedFor = '''',
                    dsLog = [\<lparr>eTerm = 0, eIndex = 0, eCommand = [], eChange = None\<rparr>],
                    dsSnapshot = [], dsSnapshotPeers = peers, dsSnapshotHTTP = https\<rparr>"

definition durable :: "('w, 'd) Boot \<Rightarrow> ('w, 'd) RaftNode \<Rightarrow> bool" where
  "durable b n \<longleftrightarrow> textual n \<and> textual_boot b \<and>
     (\<exists>st. storage n = Some st \<and> cfgStorage (bCfg b) = Some st \<and> storage_ok st \<and>
     nid n = cfgID (bCfg b) \<and> rlog n \<noteq> [] \<and>
     (saved st n \<or> unsaved st (cfgPeerAddrs (bCfg b)) (cfgHTTPAddrs (bCfg b)) n))"

lemma durable_evolves:
  assumes "durable b n" and "evolves n m" and t: "textual m"
  shows "durable b m"
proof -
  from assms(1) obtain st where st: "storage n = Some st" "cfgStorage (bCfg b) = Some st" "storage_ok st"
    "nid n = cfgID (bCfg b)" "rlog n \<noteq> []" and d: "saved st n \<or> unsaved st (cfgPeerAddrs (bCfg b)) (cfgHTTPAddrs (bCfg b)) n"
    unfolding durable_def by blast
  have "writes n m" and m: "storage m = Some st" "nid m = cfgID (bCfg b)" "rlog m \<noteq> []"
    using assms(2) st by (auto simp: evolves_def)
  then have "(durableOf m = durableOf n \<and> disk m = disk n) \<or> (\<exists>d. disk m = snd (Save st (durableOf m) d))"
    by (auto simp: writes_def)
  then show ?thesis
  proof
    assume "durableOf m = durableOf n \<and> disk m = disk n"
    then show ?thesis
      using d m st t assms(1) unfolding durable_def saved_def unsaved_def by (auto simp: durableOf_def)
  next
    assume "\<exists>d. disk m = snd (Save st (durableOf m) d)"
    then have "saved st m"
      using st(3) m(3) t by (auto simp: saved_def storage_ok_def textual_def durableOf_def)
    then show ?thesis using m st t assms(1) by (auto simp: durable_def)
  qed
qed

lemma clampConfig_frame [simp]:
  "cfgID (clampConfig c) = cfgID c" "cfgPeerAddrs (clampConfig c) = cfgPeerAddrs c"
  "cfgStorage (clampConfig c) = cfgStorage c" "cfgSnapshotter (clampConfig c) = cfgSnapshotter c"
  "cfgSnapshotThreshold (clampConfig c) = cfgSnapshotThreshold c" "cfgHTTPAddrs (clampConfig c) = cfgHTTPAddrs c"
  "cfgJoin (clampConfig c) = cfgJoin c"
  by (simp_all add: clampConfig_def Let_def)

lemma wireUp_frame [simp]:
  "nid (wireUp b n) = nid n" "storage (wireUp b n) = storage n" "currentTerm (wireUp b n) = currentTerm n"
  "votedFor (wireUp b n) = votedFor n" "rlog (wireUp b n) = rlog n" "snapshot (wireUp b n) = snapshot n"
  "basePeers (wireUp b n) = basePeers n" "baseHTTP (wireUp b n) = baseHTTP n" "disk (wireUp b n) = disk n"
  "state (wireUp b n) = state n" "peerIDs (wireUp b n) = peerIDs n" "peerAddrs (wireUp b n) = peerAddrs n"
  "peerHTTP (wireUp b n) = peerHTTP n"
  "apply_fn (wireUp b n) = Some (bApply b)" "peerHook (wireUp b n) = Some (bHook b)"
  "snapshotter (wireUp b n) = Some (bSnap b)" "goroutines (wireUp b n) = goroutines n"
  "matchIndex (wireUp b n) = matchIndex n"
  by (simp_all add: wireUp_def SetPeerHook_def SetTransport_def SetSnapshotter_def SetApply_def Let_def
      restoreSnapshotLocked_def restoreWorld_def split: prod.split option.split)

lemma recoverNode_frame [simp]:
  "nid (recoverNode ds n) = nid n" "storage (recoverNode ds n) = storage n"
  "disk (recoverNode ds n) = disk n" "state (recoverNode ds n) = state n"
  "currentTerm (recoverNode ds n) = dsCurrentTerm ds" "votedFor (recoverNode ds n) = dsVotedFor ds"
  "rlog (recoverNode ds n) = (if dsLog ds \<noteq> [] then dsLog ds else rlog n)"
  "snapshot (recoverNode ds n) = dsSnapshot ds" "goroutines (recoverNode ds n) = goroutines n"
  "basePeers (recoverNode ds n) = (if map_len (dsSnapshotPeers ds) > 0 then dsSnapshotPeers ds else basePeers n)"
  "baseHTTP (recoverNode ds n) = (if map_len (dsSnapshotPeers ds) > 0 then dsSnapshotHTTP ds else baseHTTP n)"
  by (simp_all add: recoverNode_def Let_def cloneStringMap_def)

lemma boot_eq:
  assumes "cfgStorage (bCfg b) = Some st" and "Load st d = Inr ds"
  shows "boot b e d = resetElectionTimerLocked e (wireUp b
     (if hasDurable ds then recoverNode ds (freshNode (clampConfig (bCfg b)) d (bWorld b))
      else freshNode (clampConfig (bCfg b)) d (bWorld b)))"
  using assms by (simp add: boot_def Start_def NewNode_def Let_def freshNode_def)

text \<open>A node built from a well-formed configuration and a well-formed disk is well formed.\<close>

lemma textual_fresh:
  assumes "textual_boot b"
  shows "textual (freshNode (clampConfig (bCfg b)) d w)"
  using assms by (intro textualI) (auto simp: freshNode_def cloneStringMap_def textual_boot_def valid_none)

lemma textual_recover:
  assumes n: "textual n" and "valid_utf8 (dsVotedFor ds)" "\<forall>x \<in> set (dsLog ds). valid_entry x"
    and "map_len (dsSnapshotPeers ds) > 0 \<Longrightarrow> valid_map (dsSnapshotPeers ds) \<and> valid_map (dsSnapshotHTTP ds)"
  shows "textual (recoverNode ds n)"
proof -
  have drop_join: "textual k \<Longrightarrow> textual (if c then k\<lparr>joining := False\<rparr> else k)" for c and k :: "('a, 'b) RaftNode"
    by (erule textual_cong) auto
  show ?thesis
    unfolding recoverNode_def Let_def using assms textualD[OF n]
    by (intro drop_join textual_rebuild) (auto simp: cloneStringMap_def split: if_splits)
qed

lemma textual_wireUp: "textual n \<Longrightarrow> textual (resetElectionTimerLocked e (wireUp b n))"
  by (erule textual_cong) simp_all

text \<open>A restarted node has the term, the vote, the log and the snapshot it had.\<close>

lemma restart_durable:
  fixes e :: Env
  assumes "durable b n"
  defines "m \<equiv> boot b e (disk n)"
  shows "durable b m" and "currentTerm m = currentTerm n" and "votedFor m = votedFor n"
    and "rlog m = rlog n" and "snapshot m = snapshot n"
proof -
  from assms(1) obtain st where st: "storage n = Some st" "cfgStorage (bCfg b) = Some st" "storage_ok st"
    "nid n = cfgID (bCfg b)" "rlog n \<noteq> []" and d: "saved st n \<or> unsaved st (cfgPeerAddrs (bCfg b)) (cfgHTTPAddrs (bCfg b)) n"
    unfolding durable_def by blast
  have t: "textual n" and tb: "textual_boot b" using assms(1) by (auto simp: durable_def)
  from d have "durable b m \<and> currentTerm m = currentTerm n \<and> votedFor m = votedFor n \<and> rlog m = rlog n \<and>
      snapshot m = snapshot n"
  proof
    assume saved: "saved st n"
    then obtain ds where ds: "Load st (disk n) = Inr ds" "dsCurrentTerm ds = currentTerm n" "dsVotedFor ds = votedFor n"
        "dsLog ds = rlog n" "dsSnapshot ds = snapshot n" unfolding saved_def by blast
    have "hasDurable ds" using ds(4) st(5) by (simp add: hasDurable_def)
    then have m: "m = resetElectionTimerLocked e (wireUp b
        (recoverNode ds (freshNode (clampConfig (bCfg b)) (disk n) (bWorld b))))"
      unfolding m_def using boot_eq[OF st(2) ds(1)] by simp
    then have "saved st m" using ds by (auto simp: saved_def st(5) freshNode_def)
    moreover have "textual m"
      unfolding m using ds t textualD[OF t] saved
      by (intro textual_wireUp textual_recover textual_fresh tb) (auto simp: saved_def)
    ultimately show ?thesis using ds st tb by (simp add: durable_def m freshNode_def)
  next
    assume "unsaved st (cfgPeerAddrs (bCfg b)) (cfgHTTPAddrs (bCfg b)) n"
    then obtain ds where ds: "Load st (disk n) = Inr ds" "\<not> hasDurable ds"
      and n: "durableOf n = \<lparr>dsCurrentTerm = 0, dsVotedFor = '''',
                    dsLog = [\<lparr>eTerm = 0, eIndex = 0, eCommand = [], eChange = None\<rparr>],
                    dsSnapshot = [], dsSnapshotPeers = cfgPeerAddrs (bCfg b), dsSnapshotHTTP = cfgHTTPAddrs (bCfg b)\<rparr>"
      unfolding unsaved_def by blast
    have m: "m = resetElectionTimerLocked e (wireUp b (freshNode (clampConfig (bCfg b)) (disk n) (bWorld b)))"
      unfolding m_def using boot_eq[OF st(2) ds(1)] ds(2) by simp
    then have "durableOf m = durableOf n" using n by (simp add: durableOf_def freshNode_def cloneStringMap_def)
    moreover have "disk m = disk n" "nid m = nid n" "storage m = storage n"
      using st by (simp_all add: m freshNode_def)
    ultimately have "evolves n m" by (intro evolves_quiet)
    moreover have "textual m" unfolding m by (intro textual_wireUp textual_fresh tb)
    ultimately show ?thesis
      using \<open>durableOf m = durableOf n\<close> durable_evolves[OF assms(1)] by (simp add: durableOf_def)
  qed
  then show "durable b m" "currentTerm m = currentTerm n" "votedFor m = votedFor n"
    "rlog m = rlog n" "snapshot m = snapshot n" by simp_all
qed

subsection \<open>Terms and votes over a run\<close>

text \<open>
  What the election argument needs from a node, however it is implemented: on acceptable events its
  term never goes down and its vote is never changed within a term.
\<close>

locale voting_process =
  fixes step :: "'e \<Rightarrow> 's \<Rightarrow> 's" and term_of :: "'s \<Rightarrow> int" and vote :: "'s \<Rightarrow> string" and ok :: "'s \<Rightarrow> bool"
    and good :: "'e \<Rightarrow> bool"
  assumes step_ok: "ok s \<Longrightarrow> good ev \<Longrightarrow> ok (step ev s)"
    and step_term: "ok s \<Longrightarrow> term_of s \<le> term_of (step ev s)"
    and step_vote: "ok s \<Longrightarrow> term_of (step ev s) = term_of s \<Longrightarrow> vote s \<noteq> [] \<Longrightarrow> vote (step ev s) = vote s"
begin

lemma run_ok: "ok s \<Longrightarrow> list_all good evs \<Longrightarrow> ok (fold step evs s)"
  by (induction evs arbitrary: s) (auto intro: step_ok)

lemma run_term: "ok s \<Longrightarrow> list_all good evs \<Longrightarrow> term_of s \<le> term_of (fold step evs s)"
proof (induction evs arbitrary: s)
  case (Cons ev evs)
  then have "term_of s \<le> term_of (step ev s)" by (auto intro: step_term)
  also have "\<dots> \<le> term_of (fold step evs (step ev s))" using Cons by (auto intro: step_ok)
  finally show ?case by simp
qed simp

lemma run_vote:
  "ok s \<Longrightarrow> list_all good evs \<Longrightarrow> term_of (fold step evs s) = term_of s \<Longrightarrow> vote s \<noteq> [] \<Longrightarrow>
   vote (fold step evs s) = vote s"
proof (induction evs arbitrary: s)
  case (Cons ev evs)
  have ev: "good ev" "list_all good evs" using Cons.prems(2) by simp_all
  have "term_of s \<le> term_of (step ev s)" "term_of (step ev s) \<le> term_of (fold step evs (step ev s))"
    using step_term[OF Cons.prems(1), of ev] run_term[OF step_ok[OF Cons.prems(1) ev(1)] ev(2)] by simp_all
  then have t: "term_of (step ev s) = term_of s" using Cons.prems(3) by simp
  then have "vote (step ev s) = vote s" by (rule step_vote[OF Cons.prems(1) _ Cons.prems(4)])
  then show ?case using Cons.IH[OF step_ok[OF Cons.prems(1) ev(1)] ev(2)] Cons.prems(3,4) t by simp
qed simp

text \<open>Votes at two moments of a run, with the same term, are the same.\<close>

lemma same_vote:
  assumes "ok s" and "list_all good (evs1 @ evs2)"
    and "term_of (fold step (evs1 @ evs2) s) = term_of (fold step evs1 s)" and "vote (fold step evs1 s) \<noteq> []"
  shows "vote (fold step (evs1 @ evs2) s) = vote (fold step evs1 s)"
  using run_vote[OF run_ok[OF assms(1)]] assms(2-4) by simp

end

interpretation node: voting_process "handle b" currentTerm votedFor "durable b" textual_event for b
proof
  fix n ev assume d: "durable b n"
  have t: "textual n" using d by (simp add: durable_def)
  show "durable b (handle b ev n)" if ev: "textual_event ev"
    using durable_evolves[OF d handle_evolves textual_handle[OF t ev]] restart_durable(1)[OF d]
    by (cases "\<exists>e. ev = EvRestart e") (auto simp: handle_def)
  show "currentTerm n \<le> currentTerm (handle b ev n)"
    using handle_evolves[of ev n b] restart_durable(2)[OF d]
    by (cases "\<exists>e. ev = EvRestart e") (auto simp: handle_def evolves_def)
  show "votedFor (handle b ev n) = votedFor n"
    if "currentTerm (handle b ev n) = currentTerm n" "votedFor n \<noteq> []"
    using that handle_evolves[of ev n b] restart_durable(3)[OF d]
    by (cases "\<exists>e. ev = EvRestart e") (auto simp: handle_def evolves_def)
qed

end
