(* ===== verification/Raft_Spec.thy ===== *)
theory Raft_Spec
  imports Raft_Membership
begin

text \<open>
  The abstract protocol the package implements for a fixed configuration \<open>ids\<close>.  A node has a
  term, a vote, a role, its whole log (as if it were never compacted), a commit index, the votes
  it counted and the match indices it recorded.  History variables take the place of messages:
  \<open>leaderOf\<close> and \<open>leaderLog\<close> give the leader of a term and the log it built, \<open>candLog\<close> the log a
  candidate stood with, \<open>ballots\<close> whom a node voted for and with which log, and \<open>accepted\<close> the
  highest index a node acknowledged to the leader of a term, \<open>declared\<close> the highest commit index the
  leader of a term announced.
\<close>

subsection \<open>Logs\<close>

definition zeroEntry :: LogEntry where
  "zeroEntry = \<lparr>eTerm = 0, eIndex = 0, eCommand = [], eChange = None\<rparr>"

text \<open>A whole log: dummy entry, contiguous indices, ordered terms, no membership change.\<close>

definition full_ok :: "LogEntry list \<Rightarrow> bool" where
  "full_ok F \<longleftrightarrow> F \<noteq> [] \<and> hd F = zeroEntry \<and> (\<forall>k < length F. eIndex (F ! k) = int k) \<and>
     sorted (map eTerm F) \<and> (\<forall>x \<in> set F. eChange x = None)"

text \<open>\<open>upToDate G F\<close>: a voter with log \<open>F\<close> accepts a candidate with log \<open>G\<close>.\<close>

definition upToDate :: "LogEntry list \<Rightarrow> LogEntry list \<Rightarrow> bool" where
  "upToDate G F \<longleftrightarrow>
     eTerm (last G) > eTerm (last F) \<or> eTerm (last G) = eTerm (last F) \<and> length G \<ge> length F"

text \<open>
  Writing entries \<open>es\<close> at position \<open>i\<close>: entries that agree are kept, the first one that does not
  cuts the log.
\<close>

fun mergeFull :: "LogEntry list \<Rightarrow> nat \<Rightarrow> LogEntry list \<Rightarrow> LogEntry list" where
  "mergeFull F i [] = F"
| "mergeFull F i (e # es) =
     (if i < length F \<and> eTerm (F ! i) = eTerm e then mergeFull F (Suc i) es
      else take i F @ e # es)"

subsection \<open>State\<close>

record Spec =
  aterm :: "string \<Rightarrow> int"
  avote :: "string \<Rightarrow> string option"
  arole :: "string \<Rightarrow> State"
  alog :: "string \<Rightarrow> LogEntry list"
  acommit :: "string \<Rightarrow> nat"
  avotes :: "string \<Rightarrow> string set"
  amatch :: "string \<Rightarrow> string \<Rightarrow> nat"
  leaderOf :: "int \<Rightarrow> string option"
  leaderLog :: "int \<Rightarrow> LogEntry list"
  candLog :: "string \<Rightarrow> int \<Rightarrow> LogEntry list option"
  ballots :: "string \<Rightarrow> int \<Rightarrow> (string \<times> LogEntry list) option"
  accepted :: "string \<Rightarrow> int \<Rightarrow> nat"
  declared :: "int \<Rightarrow> nat"

definition initSpec :: Spec where
  "initSpec =
     \<lparr>aterm = (\<lambda>_. 0), avote = (\<lambda>_. None), arole = (\<lambda>_. Follower), alog = (\<lambda>_. [zeroEntry]),
      acommit = (\<lambda>_. 0), avotes = (\<lambda>_. {}), amatch = (\<lambda>_ _. 0),
      leaderOf = (\<lambda>_. None), leaderLog = (\<lambda>_. []), candLog = (\<lambda>_ _. None),
      ballots = (\<lambda>_ _. None), accepted = (\<lambda>_ _. 0), declared = (\<lambda>_. 0)\<rparr>"

text \<open>
  Index \<open>k\<close> of the log of term \<open>T\<close> is chosen when it holds an entry of term \<open>T\<close> and a majority has
  acknowledged it to the leader of \<open>T\<close>.  A log is committed by term \<open>U\<close> when it is a prefix of a
  chosen one of a term up to \<open>U\<close>.
\<close>

definition chosen :: "string list \<Rightarrow> Spec \<Rightarrow> int \<Rightarrow> nat \<Rightarrow> bool" where
  "chosen ids a T k \<longleftrightarrow> leaderOf a T \<noteq> None \<and> k < length (leaderLog a T) \<and>
     eTerm (leaderLog a T ! k) = T \<and>
     (\<exists>Q. is_majority ids Q \<and> (\<forall>p \<in> Q. k \<le> accepted a p T))"

definition committed :: "string list \<Rightarrow> Spec \<Rightarrow> LogEntry list \<Rightarrow> int \<Rightarrow> bool" where
  "committed ids a F U \<longleftrightarrow> F = [zeroEntry] \<or>
     (\<exists>T k. T \<le> U \<and> chosen ids a T k \<and> length F \<le> Suc k \<and> F = take (length F) (leaderLog a T))"

subsection \<open>Steps\<close>

definition electLeader :: "string \<Rightarrow> LogEntry \<Rightarrow> Spec \<Rightarrow> Spec" where
  "electLeader i e a =
     (let T = aterm a i; F = alog a i @ [e] in
      a\<lparr>arole := (arole a)(i := Leader), alog := (alog a)(i := F),
        leaderOf := (leaderOf a)(T := Some i), leaderLog := (leaderLog a)(T := F),
        accepted := (accepted a)(i := (accepted a i)(T := length (alog a i))),
        amatch := (amatch a)(i := (\<lambda>p. if p = i then length (alog a i) else 0)),
        declared := (declared a)(T := acommit a i)\<rparr>)"

definition leaderAppend :: "string \<Rightarrow> LogEntry \<Rightarrow> Spec \<Rightarrow> Spec" where
  "leaderAppend i e a =
     (let T = aterm a i; F = alog a i @ [e] in
      a\<lparr>alog := (alog a)(i := F), leaderLog := (leaderLog a)(T := F),
        accepted := (accepted a)(i := (accepted a i)(T := length (alog a i))),
        amatch := (amatch a)(i := (amatch a i)(i := length (alog a i)))\<rparr>)"

definition acceptUpTo :: "string \<Rightarrow> nat \<Rightarrow> LogEntry list \<Rightarrow> Spec \<Rightarrow> Spec" where
  "acceptUpTo j k F a =
     (let T = aterm a j in
      a\<lparr>alog := (alog a)(j := F),
        accepted := (accepted a)(j := (accepted a j)(T := max k (accepted a j T)))\<rparr>)"

definition standFor :: "string \<Rightarrow> Spec \<Rightarrow> Spec" where
  "standFor i a =
     (let T = aterm a i + 1 in
      a\<lparr>aterm := (aterm a)(i := T), avote := (avote a)(i := Some i),
        arole := (arole a)(i := Candidate), avotes := (avotes a)(i := {i}),
        candLog := (candLog a)(i := (candLog a i)(T := Some (alog a i))),
        ballots := (ballots a)(i := (ballots a i)(T := Some (i, alog a i)))\<rparr>)"

definition castVote :: "string \<Rightarrow> string \<Rightarrow> Spec \<Rightarrow> Spec" where
  "castVote j c a =
     (let T = aterm a j in
      a\<lparr>avote := (avote a)(j := Some c),
        ballots := (ballots a)(j := (ballots a j)(T :=
          (case ballots a j T of None \<Rightarrow> Some (c, alog a j) | Some b \<Rightarrow> Some b)))\<rparr>)"

inductive astep :: "string list \<Rightarrow> Spec \<Rightarrow> Spec \<Rightarrow> bool" for ids where
  raise_term: "i \<in> set ids \<Longrightarrow> aterm a i < T \<Longrightarrow>
     astep ids a (a\<lparr>aterm := (aterm a)(i := T), avote := (avote a)(i := None),
                    arole := (arole a)(i := Follower)\<rparr>)"
| step_down: "i \<in> set ids \<Longrightarrow> astep ids a (a\<lparr>arole := (arole a)(i := Follower)\<rparr>)"
| stand: "i \<in> set ids \<Longrightarrow> astep ids a (standFor i a)"
| vote: "j \<in> set ids \<Longrightarrow> c \<in> set ids \<Longrightarrow> avote a j = None \<or> avote a j = Some c \<Longrightarrow>
     candLog a c (aterm a j) = Some G \<Longrightarrow> upToDate G (alog a j) \<Longrightarrow>
     astep ids a (castVote j c a)"
| count: "i \<in> set ids \<Longrightarrow> p \<in> set ids \<Longrightarrow> arole a i = Candidate \<Longrightarrow>
     ballots a p (aterm a i) = Some (i, F) \<Longrightarrow>
     astep ids a (a\<lparr>avotes := (avotes a)(i := insert p (avotes a i))\<rparr>)"
| win: "i \<in> set ids \<Longrightarrow> arole a i = Candidate \<Longrightarrow> is_majority ids (avotes a i) \<Longrightarrow>
     eTerm e = aterm a i \<Longrightarrow> eIndex e = int (length (alog a i)) \<Longrightarrow> eChange e = None \<Longrightarrow>
     astep ids a (electLeader i e a)"
| propose: "i \<in> set ids \<Longrightarrow> arole a i = Leader \<Longrightarrow>
     eTerm e = aterm a i \<Longrightarrow> eIndex e = int (length (alog a i)) \<Longrightarrow> eChange e = None \<Longrightarrow>
     astep ids a (leaderAppend i e a)"
| merge: "j \<in> set ids \<Longrightarrow> arole a j = Follower \<Longrightarrow> leaderOf a (aterm a j) \<noteq> None \<Longrightarrow>
     prev < length (alog a j) \<Longrightarrow> prev + m < length (leaderLog a (aterm a j)) \<Longrightarrow>
     eTerm (alog a j ! prev) = eTerm (leaderLog a (aterm a j) ! prev) \<Longrightarrow>
     es = take m (drop (Suc prev) (leaderLog a (aterm a j))) \<Longrightarrow>
     astep ids a (acceptUpTo j (prev + m) (mergeFull (alog a j) (Suc prev) es) a)"
| install: "j \<in> set ids \<Longrightarrow> arole a j = Follower \<Longrightarrow> leaderOf a (aterm a j) \<noteq> None \<Longrightarrow>
     k < length (leaderLog a (aterm a j)) \<Longrightarrow> length (alog a j) \<le> Suc k \<Longrightarrow>
     committed ids a (take (Suc k) (leaderLog a (aterm a j))) (aterm a j) \<Longrightarrow>
     astep ids a (acceptUpTo j k (take (Suc k) (leaderLog a (aterm a j))) a)"
| install_old: "j \<in> set ids \<Longrightarrow> arole a j = Follower \<Longrightarrow> leaderOf a (aterm a j) \<noteq> None \<Longrightarrow>
     k < length (leaderLog a (aterm a j)) \<Longrightarrow> k \<le> acommit a j \<Longrightarrow>
     committed ids a (take (Suc k) (leaderLog a (aterm a j))) (aterm a j) \<Longrightarrow>
     astep ids a (acceptUpTo j k (alog a j) a)"
| record_match: "i \<in> set ids \<Longrightarrow> p \<in> set ids \<Longrightarrow> arole a i = Leader \<Longrightarrow>
     k \<le> accepted a p (aterm a i) \<Longrightarrow>
     astep ids a (a\<lparr>amatch := (amatch a)(i := (amatch a i)(p := k))\<rparr>)"
| commit: "i \<in> set ids \<Longrightarrow> arole a i = Leader \<Longrightarrow> acommit a i < k \<Longrightarrow> k < length (alog a i) \<Longrightarrow>
     eTerm (alog a i ! k) = aterm a i \<Longrightarrow> is_majority ids {p \<in> set ids. k \<le> amatch a i p} \<Longrightarrow>
     astep ids a (a\<lparr>acommit := (acommit a)(i := k),
                    declared := (declared a)(aterm a i := max k (declared a (aterm a i)))\<rparr>)"
| follow: "j \<in> set ids \<Longrightarrow> arole a j = Follower \<Longrightarrow> leaderOf a (aterm a j) \<noteq> None \<Longrightarrow>
     acommit a j < k \<Longrightarrow> k \<le> accepted a j (aterm a j) \<Longrightarrow> k \<le> declared a (aterm a j) \<Longrightarrow>
     committed ids a (take (Suc k) (leaderLog a (aterm a j))) (aterm a j) \<Longrightarrow>
     astep ids a (a\<lparr>acommit := (acommit a)(j := k)\<rparr>)"
| restart: "i \<in> set ids \<Longrightarrow> k \<le> acommit a i \<Longrightarrow>
     astep ids a (a\<lparr>arole := (arole a)(i := Follower), acommit := (acommit a)(i := k)\<rparr>)"

inductive areach :: "string list \<Rightarrow> Spec \<Rightarrow> bool" for ids where
  areach_init: "areach ids initSpec"
| areach_step: "areach ids a \<Longrightarrow> astep ids a b \<Longrightarrow> areach ids b"

end
