(* ===== verification/Raft_Spec_Logs.thy ===== *)
theory Raft_Spec_Logs
  imports Raft_Spec
begin

text \<open>
  Facts about whole logs that the safety proof of the abstract protocol uses: agreement up to an
  index, the order of terms, and what writing a slice of a leader's log does to a log that agrees
  with it below the slice.
\<close>

subsection \<open>Agreement of prefixes\<close>

lemma take_eq_mono: "take n xs = take n ys \<Longrightarrow> m \<le> n \<Longrightarrow> take m xs = take m ys"
  by (drule arg_cong[where f = "take m"]) (simp add: min_absorb1)

lemma take_eq_nth: "take n xs = take n ys \<Longrightarrow> k < n \<Longrightarrow> k < length xs \<Longrightarrow> xs ! k = ys ! k"
  by (metis nth_take)

lemma take_eq_length: "take n xs = take n ys \<Longrightarrow> n \<le> length xs \<Longrightarrow> n \<le> length ys"
  by (drule arg_cong[where f = length]) simp

lemma take_append_le: "n \<le> length xs \<Longrightarrow> take n (xs @ ys) = take n xs"
  by simp

lemma take_eq_extend:
  assumes "take i F = take i G" and "i \<le> length F" and "i < length G" and "i < length F" and "F ! i = G ! i"
  shows "take (Suc i) F = take (Suc i) G"
  using assms by (simp add: take_Suc_conv_app_nth)

subsection \<open>Whole logs\<close>

lemma full_ok_nonempty: "full_ok F \<Longrightarrow> F \<noteq> []"
  by (simp add: full_ok_def)

lemma full_ok_zero: "full_ok F \<Longrightarrow> take (Suc 0) F = [zeroEntry]"
  by (cases F) (auto simp: full_ok_def)

lemma full_ok_index: "full_ok F \<Longrightarrow> k < length F \<Longrightarrow> eIndex (F ! k) = int k"
  by (simp add: full_ok_def)

lemma full_ok_mono: "full_ok F \<Longrightarrow> k \<le> l \<Longrightarrow> l < length F \<Longrightarrow> eTerm (F ! k) \<le> eTerm (F ! l)"
  by (auto simp: full_ok_def sorted_iff_nth_mono)

lemma full_ok_last: "full_ok F \<Longrightarrow> k < length F \<Longrightarrow> eTerm (F ! k) \<le> eTerm (last F)"
  by (simp add: full_ok_mono full_ok_nonempty last_conv_nth)

lemma full_ok_take: "full_ok F \<Longrightarrow> 0 < k \<Longrightarrow> full_ok (take k F)"
  by (auto simp: full_ok_def take_map[symmetric] sorted_wrt_take dest: in_set_takeD)

lemma full_ok_snoc:
  "full_ok F \<Longrightarrow> eTerm (last F) \<le> eTerm e \<Longrightarrow> eIndex e = int (length F) \<Longrightarrow> eChange e = None \<Longrightarrow>
   full_ok (F @ [e])"
  by (auto simp: full_ok_def sorted_snoc_iff last_map nth_append less_Suc_eq)

lemma full_ok_init [simp]: "full_ok [zeroEntry]"
  by (simp add: full_ok_def zeroEntry_def)

subsection \<open>Writing a slice\<close>

text \<open>
  Two logs match when they agree up to every index at which they have entries of the same term.
\<close>

definition matching :: "LogEntry list \<Rightarrow> LogEntry list \<Rightarrow> bool" where
  "matching F G \<longleftrightarrow> (\<forall>k. k < length F \<longrightarrow> k < length G \<longrightarrow> eTerm (F ! k) = eTerm (G ! k) \<longrightarrow>
     take (Suc k) F = take (Suc k) G)"

lemma mergeFull_slice:
  assumes "matching F G" and "take i F = take i G" and "i \<le> length F" and "i + m \<le> length G"
  defines "R \<equiv> mergeFull F i (take m (drop i G))"
  shows "(R = F \<or> R = take (i + m) G) \<and> take (i + m) R = take (i + m) G \<and>
         (\<forall>c. c \<le> length F \<longrightarrow> take c F = take c G \<longrightarrow> take c R = take c G)"
  using assms(2-4) unfolding R_def
proof (induction m arbitrary: i)
  case 0
  then show ?case by simp
next
  case (Suc m)
  have iG: "i < length G" using Suc.prems by simp
  have cons: "take (Suc m) (drop i G) = G ! i # take m (drop (Suc i) G)"
    by (simp add: Cons_nth_drop_Suc[OF iG, symmetric])
  show ?case
  proof (cases "i < length F \<and> eTerm (F ! i) = eTerm (G ! i)")
    case True
    have "take (Suc i) F = take (Suc i) G"
      using True iG assms(1) by (auto simp: matching_def)
    then have IH: "let R = mergeFull F (Suc i) (take m (drop (Suc i) G)) in
       (R = F \<or> R = take (Suc i + m) G) \<and> take (Suc i + m) R = take (Suc i + m) G \<and>
       (\<forall>c. c \<le> length F \<longrightarrow> take c F = take c G \<longrightarrow> take c R = take c G)"
      unfolding Let_def using Suc.prems True by (intro Suc.IH) auto
    have "mergeFull F i (take (Suc m) (drop i G)) = mergeFull F (Suc i) (take m (drop (Suc i) G))"
      using True by (simp add: cons)
    then show ?thesis
      using IH unfolding Let_def by simp
  next
    case False
    have slice: "G ! i # take m (drop (Suc i) G) = take (Suc m) (drop i G)"
      by (rule cons[symmetric])
    have "mergeFull F i (take (Suc m) (drop i G)) = take i F @ G ! i # take m (drop (Suc i) G)"
      using False by (auto simp: cons)
    also have "\<dots> = take i G @ take (Suc m) (drop i G)"
      by (simp only: Suc.prems(1) slice)
    also have "\<dots> = take (i + Suc m) G"
      by (simp only: take_add)
    finally have R: "mergeFull F i (take (Suc m) (drop i G)) = take (i + Suc m) G" .
    have bound: "c \<le> i" if "c \<le> length F" "take c F = take c G" for c
    proof (rule ccontr)
      assume "\<not> c \<le> i"
      then have "i < length F" and "F ! i = G ! i"
        using that by (auto dest: take_eq_nth[of c F G i])
      then show False using False by simp
    qed
    show ?thesis
      unfolding R
    proof (intro conjI allI impI)
      fix c assume "c \<le> length F" "take c F = take c G"
      then have "c \<le> i" by (rule bound)
      then show "take c (take (i + Suc m) G) = take c G" by (simp add: min_def)
    qed simp_all
  qed
qed

lemma full_ok_mergeFull:
  assumes "full_ok F" and "full_ok G" and "matching F G" and "take i F = take i G"
    and "0 < i" and "i \<le> length F" and "i + m \<le> length G"
  shows "full_ok (mergeFull F i (take m (drop i G)))"
  using mergeFull_slice[OF assms(3,4,6,7), THEN conjunct1] assms(1,2,5) full_ok_take[of G "i + m"]
  by (elim disjE) simp_all

end
