(* ===== verification/Raft_View.thy ===== *)
theory Raft_View
  imports Raft_Spec_Logs Raft_Frames
begin

text \<open>
  What compaction hides.  A node keeps the part of its log above the last snapshot behind a dummy
  entry; \<open>view F b\<close> is what it keeps of the whole log \<open>F\<close> after a snapshot at index \<open>b\<close>.  The lemmas
  say that the operations of \<open>raft/log.go\<close> and \<open>raft/snapshot.go\<close> on the kept part are the
  corresponding operations on the whole log.
\<close>

definition dummyAt :: "LogEntry list \<Rightarrow> nat \<Rightarrow> LogEntry" where
  "dummyAt F b = \<lparr>eTerm = eTerm (F ! b), eIndex = int b, eCommand = [], eChange = None\<rparr>"

definition view :: "LogEntry list \<Rightarrow> nat \<Rightarrow> LogEntry list" where
  "view F b = dummyAt F b # drop (Suc b) F"

text \<open>\<open>keeps n F b\<close>: the log of \<open>n\<close> is the part of the well-formed log \<open>F\<close> after index \<open>b\<close>.\<close>

definition keeps :: "('w, 'd) RaftNode \<Rightarrow> LogEntry list \<Rightarrow> nat \<Rightarrow> bool" where
  "keeps n F b \<longleftrightarrow> rlog n = view F b \<and> full_ok F \<and> b < length F"

lemma view_0: "full_ok F \<Longrightarrow> view F 0 = F"
  by (cases F) (auto simp: view_def dummyAt_def full_ok_def zeroEntry_def)

lemma length_view: "b < length F \<Longrightarrow> length (view F b) = length F - b"
  by (simp add: view_def)

lemma view_nth: "b < length F \<Longrightarrow> 0 < k \<Longrightarrow> b + k < length F \<Longrightarrow> view F b ! k = F ! (b + k)"
  by (cases k) (auto simp: view_def)

lemma keepsD:
  assumes "keeps n F b"
  shows "rlog n = view F b" "full_ok F" "b < length F"
  using assms by (auto simp: keeps_def)

lemma keeps_base:
  assumes "keeps n F b"
  shows "lastIncludedIndexLocked n = int b" "lastIncludedTermLocked n = eTerm (F ! b)"
  using assms by (auto simp: keeps_def view_def dummyAt_def lastIncludedIndexLocked_def lastIncludedTermLocked_def)

lemma keeps_last:
  assumes "keeps n F b"
  shows "lastLogIndexLocked n = int (length F) - 1" "lastLogTermLocked n = eTerm (last F)"
proof -
  note k = keepsD[OF assms]
  have F: "F ! (length F - 1) = last F" using full_ok_nonempty[OF k(2)] by (simp add: last_conv_nth)
  have "last (rlog n) = (if Suc b < length F then last F else dummyAt F b)"
    by (simp add: k(1) view_def)
  moreover have "eIndex (last F) = int (length F) - 1"
    using full_ok_index[OF k(2), of "length F - 1"] k(3) F by simp
  moreover have "b = length F - 1" if "\<not> Suc b < length F" using that k(3) by simp
  ultimately show "lastLogIndexLocked n = int (length F) - 1" "lastLogTermLocked n = eTerm (last F)"
    using F k(3) by (auto simp: lastLogIndexLocked_def lastLogTermLocked_def dummyAt_def)
qed

lemma keeps_entryAt:
  assumes "keeps n F b"
  shows "entryAtLocked n i =
    (if i = int b then Some (dummyAt F b)
     else if int b < i \<and> i < int (length F) then Some (F ! nat i) else None)"
proof -
  note k = keepsD[OF assms]
  have base: "eIndex (hd (rlog n)) = int b" by (simp add: k(1) view_def dummyAt_def)
  have len: "int (length (rlog n)) = int (length F) - int b" using k(3) by (simp add: k(1) length_view)
  have "rlog n ! nat (i - int b) = F ! nat i" if "int b < i" "i < int (length F)"
    using that k(3) view_nth[of b F "nat (i - int b)"] by (simp add: k(1) nat_diff_distrib')
  then show ?thesis
    using k(3) by (auto simp: entryAtLocked_def sliceIndexLocked_def Let_def base len) (simp add: k(1) view_def)
qed

lemma keeps_termAt:
  assumes "keeps n F b"
  shows "termAtLocked n i = (if int b \<le> i \<and> i < int (length F) then Some (eTerm (F ! nat i)) else None)"
  using keepsD(3)[OF assms] by (auto simp: termAtLocked_def keeps_entryAt[OF assms] dummyAt_def)

lemma keeps_snoc:
  assumes "keeps n F b" and "rlog m = rlog n @ [e]" and "full_ok (F @ [e])"
  shows "keeps m (F @ [e]) b"
  using assms by (auto simp: keeps_def view_def dummyAt_def nth_append)

lemma keeps_cong: "rlog m = rlog n \<Longrightarrow> keeps m F b = keeps n F b"
  by (simp add: keeps_def)

subsection \<open>Compaction\<close>

lemma view_compact:
  assumes "b \<le> k" and "k < length F"
  shows "dummyAt F k # drop (nat (int k - int b) + 1) (view F b) = view F k"
proof -
  obtain d where "k = b + d" using assms(1) le_Suc_ex by blast
  then show ?thesis by (simp add: view_def add.commute)
qed

subsection \<open>Requests\<close>

lemma keeps_slice:
  assumes "keeps n F b" and "b < k" and "k \<le> length F"
  shows "drop (k - b) (rlog n) = drop k F"
proof -
  obtain d where "k = Suc b + d" using assms(2) less_iff_Suc_add[of b k] by auto
  then show ?thesis using assms(1) by (simp add: keeps_def view_def add.commute)
qed

subsection \<open>Writing entries\<close>

lemma rlog_appendEntries:
  "rlog (appendEntriesLocked es i n) =
     rlog n @ map (\<lambda>(k, e). \<lparr>eTerm = eTerm e, eIndex = i + int k, eCommand = eCommand e, eChange = eChange e\<rparr>)
                  (enumerate 0 es)"
proof (induction es arbitrary: i n)
  case (Cons e es)
  have "map (\<lambda>(k, e). \<lparr>eTerm = eTerm e, eIndex = i + int k, eCommand = eCommand e, eChange = eChange e\<rparr>)
          (enumerate (Suc 0) es) =
        map (\<lambda>(k, e). \<lparr>eTerm = eTerm e, eIndex = i + 1 + int k, eCommand = eCommand e, eChange = eChange e\<rparr>)
          (enumerate 0 es)"
    by (rule nth_equalityI) (auto simp: nth_enumerate_eq)
  then show ?case using Cons.IH by simp
qed simp

text \<open>Entries that already carry the right indices are appended as they are.\<close>

definition indexed :: "nat \<Rightarrow> LogEntry list \<Rightarrow> bool" where
  "indexed i es \<longleftrightarrow> (\<forall>k < length es. eIndex (es ! k) = int (i + k))"

lemma indexed_Cons: "indexed i (e # es) \<longleftrightarrow> eIndex e = int i \<and> indexed (Suc i) es"
  by (auto simp: indexed_def nth_Cons split: nat.splits)

lemma rlog_append_indexed:
  assumes "indexed i es"
  shows "rlog (appendEntriesLocked es (int i) n) = rlog n @ es"
proof -
  have "map (\<lambda>(k, e). \<lparr>eTerm = eTerm e, eIndex = int i + int k, eCommand = eCommand e, eChange = eChange e\<rparr>)
          (enumerate 0 es) = es"
    using assms by (intro nth_equalityI) (auto simp: nth_enumerate_eq indexed_def)
  then show ?thesis by (simp add: rlog_appendEntries)
qed

lemma view_take: "b < i \<Longrightarrow> i \<le> length F \<Longrightarrow> take (i - b) (view F b) = view (take i F) b"
proof -
  assume "b < i" and "i \<le> length F"
  then obtain d where "i = Suc b + d" using less_iff_Suc_add[of b i] by auto
  then show ?thesis by (simp add: view_def dummyAt_def drop_take)
qed

lemma view_append: "b < length F \<Longrightarrow> view F b @ es = view (F @ es) b"
  by (simp add: view_def dummyAt_def nth_append)

lemma mergeEntries_view:
  assumes "keeps n F b" and "b < i" and "i \<le> length F" and "indexed i es"
  shows "rlog (snd (mergeEntries es (int i) n)) = view (mergeFull F i es) b"
  using assms(2-4)
proof (induction es arbitrary: i)
  case Nil
  then show ?case using assms(1) by (simp add: keeps_def)
next
  case (Cons e es)
  note k = keepsD[OF assms(1)]
  note E = keeps_entryAt[OF assms(1), of "int i"]
  show ?case
  proof (cases "i < length F")
    case False
    then have "entryAtLocked n (int i) = None" using E Cons.prems by simp
    moreover have "i = length F" using False Cons.prems by simp
    ultimately show ?thesis
      using Cons.prems k by (simp add: rlog_append_indexed view_append del: appendEntriesLocked.simps)
  next
    case True
    then have ex: "entryAtLocked n (int i) = Some (F ! i)" using E Cons.prems by simp
    show ?thesis
    proof (cases "eTerm (F ! i) = eTerm e")
      case same: True
      then show ?thesis
        using ex Cons.IH[of "Suc i"] Cons.prems True by (simp add: indexed_Cons add.commute)
    next
      case False
      have "sliceIndexLocked n (int i) = int (i - b)"
        using Cons.prems(1) k by (simp add: sliceIndexLocked_def view_def dummyAt_def of_nat_diff)
      then have "rlog (snd (mergeEntries (e # es) (int i) n)) = take (i - b) (rlog n) @ e # es"
        using False ex Cons.prems
        by (simp add: Let_def rlog_append_indexed nat_diff_distrib' del: appendEntriesLocked.simps)
      also have "\<dots> = view (take i F @ e # es) b"
        using True Cons.prems k view_append[of b "take i F"] by (simp add: view_take)
      finally show ?thesis using False by simp
    qed
  qed
qed

end
