(* ===== verification/Raft_Spec_Safety.thy ===== *)
theory Raft_Spec_Safety
  imports Raft_Spec_Logs
begin

text \<open>
  Safety of the abstract protocol.  The invariant says that every prefix of a log that ends in an
  entry of term \<open>t\<close> is a prefix of the log of the leader of \<open>t\<close>, and relates what a node has
  accepted and voted to its log.  Leader completeness is derived from the invariant of a single
  state, by induction on terms.
\<close>

subsection \<open>Invariants\<close>

definition wfl :: "Spec \<Rightarrow> LogEntry list \<Rightarrow> bool" where
  "wfl a F \<longleftrightarrow> full_ok F \<and>
     (\<forall>k. 0 < k \<longrightarrow> k < length F \<longrightarrow>
        leaderOf a (eTerm (F ! k)) \<noteq> None \<and> take (Suc k) F = take (Suc k) (leaderLog a (eTerm (F ! k))))"

definition holds :: "Spec \<Rightarrow> LogEntry list \<Rightarrow> int \<Rightarrow> nat \<Rightarrow> bool" where
  "holds a F T k \<longleftrightarrow> k < length (leaderLog a T) \<and> take (Suc k) F = take (Suc k) (leaderLog a T)"

text \<open>A later leader, of a term up to \<open>U\<close>, whose log does not extend the first \<open>k\<close> entries of term \<open>T\<close>.\<close>

definition deviates :: "Spec \<Rightarrow> int \<Rightarrow> nat \<Rightarrow> int \<Rightarrow> bool" where
  "deviates a T k U \<longleftrightarrow> (\<exists>T'. T < T' \<and> T' \<le> U \<and> leaderOf a T' \<noteq> None \<and>
     take (Suc k) (leaderLog a T') \<noteq> take (Suc k) (leaderLog a T))"

text \<open>The log \<open>F\<close> of \<open>p\<close> has everything \<open>p\<close> accepted before term \<open>T\<close>, up to deviating leaders.\<close>

definition keeps_accepted :: "Spec \<Rightarrow> string \<Rightarrow> LogEntry list \<Rightarrow> int \<Rightarrow> int \<Rightarrow> bool" where
  "keeps_accepted a p F T U \<longleftrightarrow> (\<forall>T0 k. T0 < T \<longrightarrow> leaderOf a T0 \<noteq> None \<longrightarrow> k \<le> accepted a p T0 \<longrightarrow>
     holds a F T0 k \<or> deviates a T0 k U)"

definition inv_term :: "string list \<Rightarrow> Spec \<Rightarrow> bool" where
  "inv_term ids a \<longleftrightarrow> (\<forall>i. 0 \<le> aterm a i) \<and> (\<forall>i \<in> set ids. \<forall>x \<in> set (alog a i). eTerm x \<le> aterm a i) \<and>
     (\<forall>c T. candLog a c T \<noteq> None \<longrightarrow> 0 < T \<and> T \<le> aterm a c)"

definition inv_log :: "string list \<Rightarrow> Spec \<Rightarrow> bool" where
  "inv_log ids a \<longleftrightarrow> (\<forall>i \<in> set ids. wfl a (alog a i))"

definition inv_leader :: "string list \<Rightarrow> Spec \<Rightarrow> bool" where
  "inv_leader ids a \<longleftrightarrow> (\<forall>T c. leaderOf a T = Some c \<longrightarrow>
     0 < T \<and> c \<in> set ids \<and> T \<le> aterm a c \<and> wfl a (leaderLog a T) \<and> eTerm (last (leaderLog a T)) = T \<and>
     (aterm a c = T \<longrightarrow> arole a c \<noteq> Candidate))"

definition inv_role :: "string list \<Rightarrow> Spec \<Rightarrow> bool" where
  "inv_role ids a \<longleftrightarrow> (\<forall>i \<in> set ids. arole a i = Leader \<longrightarrow>
     leaderOf a (aterm a i) = Some i \<and> alog a i = leaderLog a (aterm a i) \<and>
     (\<forall>p \<in> set ids. amatch a i p \<le> accepted a p (aterm a i)))"

definition inv_cand :: "string list \<Rightarrow> Spec \<Rightarrow> bool" where
  "inv_cand ids a \<longleftrightarrow> (\<forall>i \<in> set ids. arole a i = Candidate \<longrightarrow>
     candLog a i (aterm a i) = Some (alog a i) \<and> avotes a i \<subseteq> set ids \<and>
     (\<forall>p \<in> avotes a i. \<exists>F. ballots a p (aterm a i) = Some (i, F)))"

definition inv_ballot :: "string list \<Rightarrow> Spec \<Rightarrow> bool" where
  "inv_ballot ids a \<longleftrightarrow> (\<forall>p T c F. ballots a p T = Some (c, F) \<longrightarrow>
     T \<le> aterm a p \<and> (T = aterm a p \<longrightarrow> avote a p = Some c) \<and> wfl a F \<and>
     (\<exists>G. candLog a c T = Some G \<and> upToDate G F) \<and> keeps_accepted a p F T T)"

definition inv_acc :: "string list \<Rightarrow> Spec \<Rightarrow> bool" where
  "inv_acc ids a \<longleftrightarrow>
     (\<forall>p T. 0 < accepted a p T \<longrightarrow> T \<le> aterm a p \<and> leaderOf a T \<noteq> None) \<and>
     (\<forall>p T. leaderOf a T \<noteq> None \<longrightarrow> accepted a p T < length (leaderLog a T)) \<and>
     (\<forall>p \<in> set ids. \<forall>T k. leaderOf a T \<noteq> None \<longrightarrow> k \<le> accepted a p T \<longrightarrow>
        holds a (alog a p) T k \<or> deviates a T k (aterm a p))"

definition inv_elect :: "string list \<Rightarrow> Spec \<Rightarrow> bool" where
  "inv_elect ids a \<longleftrightarrow> (\<forall>T c. leaderOf a T = Some c \<longrightarrow>
     (\<exists>G Q. candLog a c T = Some G \<and> G \<noteq> [] \<and> length G < length (leaderLog a T) \<and>
        take (length G) (leaderLog a T) = G \<and> (\<forall>x \<in> set G. eTerm x < T) \<and> is_majority ids Q \<and>
        (\<forall>p \<in> Q. \<exists>F. ballots a p T = Some (c, F) \<and> keeps_accepted a p F T (T - 1))))"

definition inv_commit :: "string list \<Rightarrow> Spec \<Rightarrow> bool" where
  "inv_commit ids a \<longleftrightarrow> (\<forall>i \<in> set ids. acommit a i < length (alog a i) \<and>
     committed ids a (take (Suc (acommit a i)) (alog a i)) (aterm a i))"

definition inv :: "string list \<Rightarrow> Spec \<Rightarrow> bool" where
  "inv ids a \<longleftrightarrow> inv_term ids a \<and> inv_log ids a \<and> inv_leader ids a \<and> inv_role ids a \<and> inv_cand ids a \<and>
     inv_ballot ids a \<and> inv_acc ids a \<and> inv_elect ids a \<and> inv_commit ids a"

lemma invD:
  assumes "inv ids a"
  shows "inv_term ids a" "inv_log ids a" "inv_leader ids a" "inv_role ids a" "inv_cand ids a"
    "inv_ballot ids a" "inv_acc ids a" "inv_elect ids a" "inv_commit ids a"
  using assms by (simp_all add: inv_def)

subsection \<open>Log matching\<close>

lemma wfl_full: "wfl a F \<Longrightarrow> full_ok F"
  by (simp add: wfl_def)

lemma wfl_at:
  "wfl a F \<Longrightarrow> 0 < k \<Longrightarrow> k < length F \<Longrightarrow>
   leaderOf a (eTerm (F ! k)) \<noteq> None \<and> take (Suc k) F = take (Suc k) (leaderLog a (eTerm (F ! k)))"
  by (simp add: wfl_def)

lemma wfl_matching: "wfl a F \<Longrightarrow> wfl a G \<Longrightarrow> matching F G"
proof (unfold matching_def, intro allI impI)
  fix k assume F: "wfl a F" and G: "wfl a G" and k: "k < length F" "k < length G"
    and t: "eTerm (F ! k) = eTerm (G ! k)"
  show "take (Suc k) F = take (Suc k) G"
  proof (cases "k = 0")
    case True
    then show ?thesis
      using full_ok_zero[OF wfl_full[OF F]] full_ok_zero[OF wfl_full[OF G]] by (simp only:)
  next
    case False
    then show ?thesis using wfl_at[OF F, of k] wfl_at[OF G, of k] k t by simp
  qed
qed

lemma wfl_take: "wfl a F \<Longrightarrow> 0 < k \<Longrightarrow> wfl a (take k F)"
  by (auto simp: wfl_def full_ok_take min_def)

lemma wfl_init: "wfl a [zeroEntry]"
  by (simp add: wfl_def)

subsection \<open>Extension of the history\<close>

definition hist_ext :: "Spec \<Rightarrow> Spec \<Rightarrow> bool" where
  "hist_ext a b \<longleftrightarrow>
     (\<forall>T. leaderOf a T \<noteq> None \<longrightarrow>
        leaderOf b T = leaderOf a T \<and> (\<exists>xs. leaderLog b T = leaderLog a T @ xs)) \<and>
     (\<forall>p T. accepted a p T \<le> accepted b p T)"

lemma hist_ext_take:
  "hist_ext a b \<Longrightarrow> leaderOf a T \<noteq> None \<Longrightarrow> k \<le> length (leaderLog a T) \<Longrightarrow>
   take k (leaderLog b T) = take k (leaderLog a T)"
  by (auto simp: hist_ext_def)

lemma hist_ext_leader: "hist_ext a b \<Longrightarrow> leaderOf a T \<noteq> None \<Longrightarrow> leaderOf b T = leaderOf a T"
  by (simp add: hist_ext_def)

lemma hist_ext_length:
  "hist_ext a b \<Longrightarrow> leaderOf a T \<noteq> None \<Longrightarrow> length (leaderLog a T) \<le> length (leaderLog b T)"
  by (auto simp: hist_ext_def)

lemma hist_ext_nth:
  "hist_ext a b \<Longrightarrow> leaderOf a T \<noteq> None \<Longrightarrow> k < length (leaderLog a T) \<Longrightarrow>
   leaderLog b T ! k = leaderLog a T ! k"
  by (auto simp: hist_ext_def) (metis nth_append)

lemma wfl_ext:
  assumes "hist_ext a b" and F: "wfl a F"
  shows "wfl b F"
  unfolding wfl_def
proof (intro conjI allI impI)
  show "full_ok F" using F by (rule wfl_full)
next
  fix k assume k: "0 < k" "k < length F"
  note at = wfl_at[OF F k]
  then show "leaderOf b (eTerm (F ! k)) \<noteq> None"
    using hist_ext_leader[OF assms(1)] by simp
  have "Suc k \<le> length (leaderLog a (eTerm (F ! k)))"
    using at k by (auto intro: take_eq_length)
  then show "take (Suc k) F = take (Suc k) (leaderLog b (eTerm (F ! k)))"
    using at hist_ext_take[OF assms(1)] by simp
qed

lemma holds_ext: "hist_ext a b \<Longrightarrow> leaderOf a T \<noteq> None \<Longrightarrow> holds a F T k \<Longrightarrow> holds b F T k"
  using hist_ext_length[of a b T] hist_ext_take[of a b T "Suc k"] by (auto simp: holds_def)

lemma chosen_ext:
  assumes "hist_ext a b" and "chosen ids a T k"
  shows "chosen ids b T k"
proof -
  from assms(2) obtain Q where Q: "is_majority ids Q" "\<forall>p \<in> Q. k \<le> accepted a p T"
    and L: "leaderOf a T \<noteq> None" "k < length (leaderLog a T)" "eTerm (leaderLog a T ! k) = T"
    by (auto simp: chosen_def)
  have "\<forall>p \<in> Q. k \<le> accepted b p T"
    using Q(2) assms(1) unfolding hist_ext_def by (meson le_trans)
  then show ?thesis
    using Q(1) L hist_ext_leader[OF assms(1) L(1)] hist_ext_length[OF assms(1) L(1)]
      hist_ext_nth[OF assms(1) L(1,2)]
    by (auto simp: chosen_def)
qed

lemma committed_ext:
  assumes "hist_ext a b" and "committed ids a F U" and "U \<le> V"
  shows "committed ids b F V"
proof (cases "F = [zeroEntry]")
  case True
  then show ?thesis by (simp add: committed_def)
next
  case False
  then obtain T k where T: "T \<le> U" "chosen ids a T k" "length F \<le> Suc k" "F = take (length F) (leaderLog a T)"
    using assms(2) by (auto simp: committed_def)
  then have "length F \<le> length (leaderLog a T)" and L: "leaderOf a T \<noteq> None"
    by (auto simp: chosen_def)
  then have "F = take (length F) (leaderLog b T)"
    using hist_ext_take[OF assms(1) L] T(4) by metis
  then show ?thesis
    using T chosen_ext[OF assms(1) T(2)] assms(3) unfolding committed_def by force
qed

lemma leaderLog_term_le:
  "inv_leader ids a \<Longrightarrow> leaderOf a T \<noteq> None \<Longrightarrow> k < length (leaderLog a T) \<Longrightarrow> eTerm (leaderLog a T ! k) \<le> T"
  by (auto simp: inv_leader_def) (metis full_ok_last wfl_full)

lemma deviates_ext:
  assumes "hist_ext a b" and "inv_leader ids a" and L: "leaderOf a T \<noteq> None"
    and k: "k < length (leaderLog a T)" and "deviates a T k U" and "U \<le> V"
  shows "deviates b T k V"
proof -
  from assms(5) obtain T' where T': "T < T'" "T' \<le> U" "leaderOf a T' \<noteq> None"
    and ne: "take (Suc k) (leaderLog a T') \<noteq> take (Suc k) (leaderLog a T)"
    by (auto simp: deviates_def)
  have T_same: "take (Suc k) (leaderLog b T) = take (Suc k) (leaderLog a T)"
    using hist_ext_take[OF assms(1) L] k by simp
  have "take (Suc k) (leaderLog b T') \<noteq> take (Suc k) (leaderLog a T)"
  proof (cases "Suc k \<le> length (leaderLog a T')")
    case True
    then show ?thesis using hist_ext_take[OF assms(1) T'(3)] ne by simp
  next
    case False
    let ?p = "length (leaderLog a T') - 1"
    have wf: "wfl a (leaderLog a T')" and lt: "eTerm (last (leaderLog a T')) = T'"
      using assms(2) T'(3) by (auto simp: inv_leader_def)
    have ne: "leaderLog a T' \<noteq> []" using wf by (auto dest: wfl_full full_ok_nonempty)
    have "eTerm (leaderLog b T' ! ?p) = T'"
      using hist_ext_nth[OF assms(1) T'(3), of ?p] ne lt by (simp add: last_conv_nth)
    moreover have "eTerm (leaderLog a T ! ?p) \<le> T"
      using leaderLog_term_le[OF assms(2) L] k False by simp
    ultimately show ?thesis
      using T'(1) False k take_eq_nth[of "Suc k" "leaderLog a T" "leaderLog b T'" ?p] by fastforce
  qed
  then show ?thesis
    using T' T_same hist_ext_leader[OF assms(1) T'(3)] assms(6) unfolding deviates_def by auto
qed

lemma holds_zero: "full_ok F \<Longrightarrow> full_ok (leaderLog a T) \<Longrightarrow> holds a F T 0"
  by (simp add: holds_def full_ok_zero full_ok_nonempty)

lemma keeps_accepted_ext:
  assumes "hist_ext a b" and "inv_leader ids a" and "inv_acc ids a" and "keeps_accepted a p F T U" and "U \<le> V"
    and same: "\<And>T0. T0 < T \<Longrightarrow> leaderOf b T0 \<noteq> None \<Longrightarrow>
       leaderOf a T0 \<noteq> None \<and> accepted b p T0 = accepted a p T0 \<or> accepted b p T0 = 0 \<and> holds b F T0 0"
  shows "keeps_accepted b p F T V"
  unfolding keeps_accepted_def
proof (intro allI impI)
  fix T0 k assume T0: "T0 < T" "leaderOf b T0 \<noteq> None" "k \<le> accepted b p T0"
  from same[OF T0(1,2)] show "holds b F T0 k \<or> deviates b T0 k V"
  proof
    assume "leaderOf a T0 \<noteq> None \<and> accepted b p T0 = accepted a p T0"
    then have L: "leaderOf a T0 \<noteq> None" and k: "k \<le> accepted a p T0" using T0(3) by auto
    have "k < length (leaderLog a T0)" using assms(3) L k unfolding inv_acc_def by (meson le_less_trans)
    then show ?thesis
      using assms(4) T0(1) L k holds_ext[OF assms(1) L] deviates_ext[OF assms(1,2) L _ _ assms(5)]
      unfolding keeps_accepted_def by blast
  qed (use T0(3) in simp)
qed

subsection \<open>Leader completeness\<close>

lemma upToDate_covers:
  assumes wfF: "wfl a F" and wfL: "wfl a (leaderLog a U)" and lead: "inv_leader ids a"
    and T: "leaderOf a T \<noteq> None" "k < length (leaderLog a T)" "eTerm (leaderLog a T ! k) = T"
    and F: "take (Suc k) F = take (Suc k) (leaderLog a T)"
    and G: "G \<noteq> []" "take (length G) (leaderLog a U) = G" "upToDate G F"
    and between: "\<And>t. T < t \<Longrightarrow> t = eTerm (last G) \<Longrightarrow> leaderOf a t \<noteq> None \<Longrightarrow>
        take (Suc k) (leaderLog a t) = take (Suc k) (leaderLog a T)"
  shows "take (Suc k) (leaderLog a U) = take (Suc k) (leaderLog a T)"
proof -
  let ?m = "length G - 1" and ?t = "eTerm (last G)"
  have T0: "0 < T" using lead T(1) by (auto simp: inv_leader_def)
  have kF: "k < length F" using F T(2) take_eq_length[of "Suc k" "leaderLog a T" F] by simp
  have "eTerm (F ! k) = T" using take_eq_nth[OF F _ kF] T(3) by simp
  then have lastF: "T \<le> eTerm (last F)" using full_ok_last[OF wfl_full[OF wfF] kF] by simp
  have mU: "?m < length (leaderLog a U)"
    using G(1,2) by (metis Suc_diff_1 length_greater_0_conv length_take lessI min_less_iff_conj)
  have Gm: "leaderLog a U ! ?m = last G"
    using G(1,2) by (metis diff_less last_conv_nth length_greater_0_conv less_one nth_take)
  have tT: "T \<le> ?t" using G(3) lastF by (auto simp: upToDate_def)
  have m0: "0 < ?m"
  proof (rule ccontr)
    assume "\<not> 0 < ?m"
    then have "last G = leaderLog a U ! 0" using Gm by simp
    also have "\<dots> = zeroEntry"
      using wfL by (auto simp: wfl_def full_ok_def hd_conv_nth)
    finally show False using tT T0 by (simp add: zeroEntry_def)
  qed
  have at: "leaderOf a ?t \<noteq> None" "take (Suc ?m) (leaderLog a U) = take (Suc ?m) (leaderLog a ?t)"
    using wfl_at[OF wfL m0 mU] Gm by simp_all
  show ?thesis
  proof (cases "?t = T")
    case True
    then have "length F \<le> length G" using G(3) lastF by (auto simp: upToDate_def)
    then have "Suc k \<le> Suc ?m" using kF by simp
    then show ?thesis using take_eq_mono[OF at(2)] True by simp
  next
    case False
    then have tT': "T < ?t" using tT by simp
    note pre = between[OF tT' refl at(1)]
    have kt: "k < length (leaderLog a ?t)" and tk: "eTerm (leaderLog a ?t ! k) = T"
      using pre T(2,3) take_eq_length[of "Suc k" "leaderLog a T" "leaderLog a ?t"]
        take_eq_nth[OF pre, of k] by auto
    have mt: "?m < length (leaderLog a ?t)" "leaderLog a ?t ! ?m = last G"
      using at(2) mU Gm take_eq_length[OF at(2)] take_eq_nth[OF at(2), of ?m] by auto
    have "k < ?m"
    proof (rule ccontr)
      assume "\<not> k < ?m"
      then have "eTerm (leaderLog a ?t ! ?m) \<le> eTerm (leaderLog a ?t ! k)"
        using full_ok_mono[of "leaderLog a ?t" ?m k] lead at(1) kt by (auto simp: inv_leader_def wfl_def)
      then show False using mt tk tT' by simp
    qed
    then show ?thesis using take_eq_mono[OF at(2), of "Suc k"] pre by simp
  qed
qed

lemma leader_completeness:
  assumes inv: "inv ids a" and ch: "chosen ids a T k"
  shows "T < U \<Longrightarrow> leaderOf a U \<noteq> None \<Longrightarrow> take (Suc k) (leaderLog a U) = take (Suc k) (leaderLog a T)"
proof (induction "nat (U - T)" arbitrary: U rule: less_induct)
  case less
  note I = invD[OF inv]
  from ch obtain Q where Q: "is_majority ids Q" "\<forall>p \<in> Q. k \<le> accepted a p T"
    and T: "leaderOf a T \<noteq> None" "k < length (leaderLog a T)" "eTerm (leaderLog a T ! k) = T"
    by (auto simp: chosen_def)
  from less.prems(2) obtain c where c: "leaderOf a U = Some c" by auto
  with I(8) obtain G Q' where G: "candLog a c U = Some G" "G \<noteq> []" "take (length G) (leaderLog a U) = G"
      "\<forall>x \<in> set G. eTerm x < U"
    and Q': "is_majority ids Q'" "\<forall>p \<in> Q'. \<exists>F. ballots a p U = Some (c, F) \<and> keeps_accepted a p F U (U - 1)"
    unfolding inv_elect_def by metis
  from maj.quorum_meet[OF Q(1) Q'(1)] obtain p where p: "p \<in> Q" "p \<in> Q'" by blast
  with Q'(2) obtain F where F: "ballots a p U = Some (c, F)" "keeps_accepted a p F U (U - 1)" by blast
  have wfF: "wfl a F" and up: "upToDate G F"
    using I(6) F(1) G(1) unfolding inv_ballot_def by (metis, metis option.inject)
  have IH: "take (Suc k) (leaderLog a t) = take (Suc k) (leaderLog a T)"
    if "T < t" "t < U" "leaderOf a t \<noteq> None" for t
    using less.hyps[of t] that by simp
  have no: "\<not> deviates a T k (U - 1)"
    unfolding deviates_def using IH by force
  then have "take (Suc k) F = take (Suc k) (leaderLog a T)"
    using F(2) T(1) Q(2) p(1) less.prems(1) unfolding keeps_accepted_def holds_def by blast
  moreover have "wfl a (leaderLog a U)" using I(3) c unfolding inv_leader_def by blast
  moreover have "take (Suc k) (leaderLog a t) = take (Suc k) (leaderLog a T)"
    if "T < t" "t = eTerm (last G)" "leaderOf a t \<noteq> None" for t
  proof -
    have "t < U" using that(2) G(2,4) by simp
    then show ?thesis using IH that by blast
  qed
  ultimately show ?case
    using upToDate_covers[OF wfF _ I(3) T _ G(2,3) up] by blast
qed

lemma committed_in_leader:
  assumes "inv ids a" and F: "committed ids a F U" and "U \<le> T" and L: "leaderOf a T \<noteq> None"
  shows "F = take (length F) (leaderLog a T)"
proof (cases "F = [zeroEntry]")
  case True
  then show ?thesis
    using invD(3)[OF assms(1)] L full_ok_zero[of "leaderLog a T"] by (auto simp: inv_leader_def wfl_def)
next
  case False
  then obtain T0 k where T0: "T0 \<le> U" "chosen ids a T0 k" "length F \<le> Suc k" "F = take (length F) (leaderLog a T0)"
    using F by (auto simp: committed_def)
  show ?thesis
  proof (cases "T0 = T")
    case False
    then have "take (Suc k) (leaderLog a T) = take (Suc k) (leaderLog a T0)"
      using leader_completeness[OF assms(1) T0(2)] T0(1) assms(3) L by simp
    then show ?thesis using take_eq_mono[OF _ T0(3)] T0(4) by metis
  qed (use T0(4) in simp)
qed

lemma committed_length: "committed ids a F U \<Longrightarrow> leaderOf a T \<noteq> None \<Longrightarrow>
    F = take (length F) (leaderLog a T) \<Longrightarrow> length F \<le> length (leaderLog a T)"
  by (metis length_take min.cobounded1)

lemma committed_zero:
  assumes "inv ids a" and "committed ids a F U" and "F \<noteq> []"
  shows "F ! 0 = zeroEntry"
proof (cases "F = [zeroEntry]")
  case False
  then obtain T where "leaderOf a T \<noteq> None" and F: "F = take (length F) (leaderLog a T)"
    using assms(2) by (auto simp: committed_def chosen_def)
  then have "full_ok (leaderLog a T)"
    using invD(3)[OF assms(1)] by (auto simp: inv_leader_def wfl_def)
  then have "leaderLog a T ! 0 = zeroEntry"
    by (auto simp: full_ok_def hd_conv_nth)
  then show ?thesis using F assms(3) by (metis length_greater_0_conv nth_take)
qed simp

text \<open>Two committed logs agree on their common indices.\<close>

lemma committed_agree:
  assumes inv: "inv ids a" and F: "committed ids a F U" and G: "committed ids a G V"
    and k: "k < length F" "k < length G"
  shows "F ! k = G ! k"
proof (cases "F = [zeroEntry] \<or> G = [zeroEntry]")
  case True
  then have "k = 0" using k by auto
  then show ?thesis using committed_zero[OF inv F] committed_zero[OF inv G] k by fastforce
next
  case False
  have bound: "\<exists>T. leaderOf a T \<noteq> None \<and> committed ids a H T" if "committed ids a H W" "H \<noteq> [zeroEntry]" for H W
    using that unfolding committed_def chosen_def by blast
  obtain S T where S: "leaderOf a S \<noteq> None" "committed ids a F S" and T: "leaderOf a T \<noteq> None" "committed ids a G T"
    using bound[OF F] bound[OF G] False by blast
  obtain M where M: "leaderOf a M \<noteq> None" "S \<le> M" "T \<le> M"
    using S(1) T(1) by (metis linorder_linear order_refl)
  have "F = take (length F) (leaderLog a M)" "G = take (length G) (leaderLog a M)"
    using committed_in_leader[OF inv S(2) M(2,1)] committed_in_leader[OF inv T(2) M(3,1)] by auto
  then show ?thesis using k by (metis nth_take)
qed

end
