(* ===== verification/Raft_Spec_Steps.thy ===== *)
theory Raft_Spec_Steps
  imports Raft_Spec_Safety
begin

text \<open>
  Every step of the abstract protocol keeps the invariant, so every reachable state has it.
\<close>

subsection \<open>Steps that leave the history alone\<close>

definition same_hist :: "Spec \<Rightarrow> Spec \<Rightarrow> bool" where
  "same_hist a b \<longleftrightarrow> leaderOf b = leaderOf a \<and> leaderLog b = leaderLog a \<and> accepted b = accepted a"

lemma same_histD:
  assumes "same_hist a b"
  shows "wfl b = wfl a" "holds b = holds a" "deviates b = deviates a" "keeps_accepted b = keeps_accepted a"
    "chosen ids b = chosen ids a" "committed ids b = committed ids a"
    "leaderOf b = leaderOf a" "leaderLog b = leaderLog a" "accepted b = accepted a"
  using assms
  by (simp_all add: same_hist_def wfl_def holds_def deviates_def keeps_accepted_def chosen_def
      committed_def fun_eq_iff)

lemma deviates_mono: "deviates a T k U \<Longrightarrow> U \<le> V \<Longrightarrow> deviates a T k V"
  by (force simp: deviates_def)

lemma keeps_accepted_mono: "keeps_accepted a p F T U \<Longrightarrow> U \<le> V \<Longrightarrow> keeps_accepted a p F T V"
  unfolding keeps_accepted_def by (meson deviates_mono)

lemma committed_mono: "committed ids a F U \<Longrightarrow> U \<le> V \<Longrightarrow> committed ids a F V"
  unfolding committed_def by (meson order_trans)

lemma committed_take:
  assumes "committed ids a F U" and "0 < k" and "k \<le> length F"
  shows "committed ids a (take k F) U"
proof (cases "F = [zeroEntry]")
  case True
  then show ?thesis using assms(2,3) by (simp add: committed_def)
next
  case False
  then obtain T n where T: "T \<le> U" "chosen ids a T n" "length F \<le> Suc n" "F = take (length F) (leaderLog a T)"
    using assms(1) by (auto simp: committed_def)
  then have "take k F = take k (leaderLog a T)"
    using assms(3) by (metis min.absorb1 take_take)
  then show ?thesis
    using T(1,2,3) assms(3) unfolding committed_def by (intro disjI2 exI[of _ T] exI[of _ n]) (auto simp: min_def)
qed

text \<open>
  A step that leaves history, logs, candidacies, ballots and commit indices alone, and only raises
  terms, keeps everything but what it says about roles and votes.
\<close>

lemma inv_local:
  assumes inv: "inv ids a" and h: "same_hist a b"
    and same: "alog b = alog a" "candLog b = candLog a" "ballots b = ballots a" "acommit b = acommit a"
    and le: "\<And>j. aterm a j \<le> aterm b j"
    and leader: "\<And>c. arole b c = Candidate \<Longrightarrow> arole a c = Candidate \<and> aterm b c = aterm a c"
    and role: "inv_role ids b" and cand: "inv_cand ids b"
    and vote: "\<And>j. aterm b j = aterm a j \<Longrightarrow> avote b j = avote a j"
  shows "inv ids b"
proof -
  note I = invD[OF inv] and H = same_histD[OF h]
  have "inv_term ids b"
    using I(1) le unfolding inv_term_def same by (meson order_trans)
  moreover have "inv_log ids b" using I(2) unfolding inv_log_def same H .
  moreover have "inv_leader ids b"
    unfolding inv_leader_def H
  proof (intro allI impI)
    fix T c assume "leaderOf a T = Some c"
    then have "0 < T \<and> c \<in> set ids \<and> T \<le> aterm a c \<and> wfl a (leaderLog a T) \<and>
        eTerm (last (leaderLog a T)) = T \<and> (aterm a c = T \<longrightarrow> arole a c \<noteq> Candidate)"
      using I(3) by (simp add: inv_leader_def)
    then show "0 < T \<and> c \<in> set ids \<and> T \<le> aterm b c \<and> wfl a (leaderLog a T) \<and>
        eTerm (last (leaderLog a T)) = T \<and> (aterm b c = T \<longrightarrow> arole b c \<noteq> Candidate)"
      using le[of c] leader[of c] by auto
  qed
  moreover have "inv_ballot ids b"
    unfolding inv_ballot_def same H
  proof (intro allI impI)
    fix p T c F assume "ballots a p T = Some (c, F)"
    then have "T \<le> aterm a p \<and> (T = aterm a p \<longrightarrow> avote a p = Some c) \<and> wfl a F \<and>
        (\<exists>G. candLog a c T = Some G \<and> upToDate G F) \<and> keeps_accepted a p F T T"
      using I(6) by (simp add: inv_ballot_def)
    then show "T \<le> aterm b p \<and> (T = aterm b p \<longrightarrow> avote b p = Some c) \<and> wfl a F \<and>
        (\<exists>G. candLog a c T = Some G \<and> upToDate G F) \<and> keeps_accepted a p F T T"
      using le[of p] vote[of p] by auto
  qed
  moreover have "inv_acc ids b"
    using I(7) le unfolding inv_acc_def H same by (meson order_trans deviates_mono)
  moreover have "inv_elect ids b" using I(8) unfolding inv_elect_def same H .
  moreover have "inv_commit ids b"
    using I(9) le unfolding inv_commit_def same H by (meson committed_mono)
  ultimately show ?thesis using role cand by (simp add: inv_def)
qed

lemma inv_raise_term:
  assumes inv: "inv ids a" and T: "aterm a i < T"
  shows "inv ids (a\<lparr>aterm := (aterm a)(i := T), avote := (avote a)(i := None),
                    arole := (arole a)(i := Follower)\<rparr>)"
    (is "inv ids ?b")
proof (rule inv_local[OF inv])
  show h: "same_hist a ?b" by (simp add: same_hist_def)
  note I = invD[OF inv]
  show "inv_role ids ?b" using I(4) by (auto simp: inv_role_def)
  show "inv_cand ids ?b" using I(5) by (auto simp: inv_cand_def)
qed (use T in auto)

lemma inv_step_down:
  assumes inv: "inv ids a"
  shows "inv ids (a\<lparr>arole := (arole a)(i := Follower)\<rparr>)" (is "inv ids ?b")
proof (rule inv_local[OF inv])
  show h: "same_hist a ?b" by (simp add: same_hist_def)
  note I = invD[OF inv]
  show "inv_role ids ?b" using I(4) by (auto simp: inv_role_def)
  show "inv_cand ids ?b" using I(5) by (auto simp: inv_cand_def)
qed (auto split: if_splits)

lemma inv_count:
  assumes inv: "inv ids a" and "p \<in> set ids" "arole a i = Candidate" "ballots a p (aterm a i) = Some (i, F)"
  shows "inv ids (a\<lparr>avotes := (avotes a)(i := insert p (avotes a i))\<rparr>)" (is "inv ids ?b")
proof (rule inv_local[OF inv])
  show h: "same_hist a ?b" by (simp add: same_hist_def)
  note I = invD[OF inv]
  show "inv_role ids ?b" using I(4) by (auto simp: inv_role_def)
  show "inv_cand ids ?b" using I(5) assms(2-4) by (auto simp: inv_cand_def)
qed auto

lemma inv_record_match:
  assumes inv: "inv ids a" and "k \<le> accepted a p (aterm a i)"
  shows "inv ids (a\<lparr>amatch := (amatch a)(i := (amatch a i)(p := k))\<rparr>)" (is "inv ids ?b")
proof (rule inv_local[OF inv])
  show h: "same_hist a ?b" by (simp add: same_hist_def)
  note I = invD[OF inv]
  show "inv_role ids ?b" using I(4) assms(2) by (auto simp: inv_role_def)
  show "inv_cand ids ?b" using I(5) by (auto simp: inv_cand_def)
qed auto

text \<open>A step that only moves the commit index of a node.\<close>

lemma inv_set_commit:
  assumes inv: "inv ids a" and k: "k < length (alog a i)"
    and com: "committed ids a (take (Suc k) (alog a i)) (aterm a i)"
  shows "inv ids (a\<lparr>acommit := (acommit a)(i := k)\<rparr>)" (is "inv ids ?b")
proof -
  note I = invD[OF inv]
  have h: "same_hist a ?b" by (simp add: same_hist_def)
  have "inv_commit ids ?b"
    using I(9) k com by (auto simp: inv_commit_def same_histD[OF h])
  moreover have "inv_term ids ?b \<and> inv_log ids ?b \<and> inv_leader ids ?b \<and> inv_role ids ?b \<and> inv_cand ids ?b \<and>
     inv_ballot ids ?b \<and> inv_acc ids ?b \<and> inv_elect ids ?b"
    using I unfolding inv_term_def inv_log_def inv_leader_def inv_role_def inv_cand_def inv_ballot_def
      inv_acc_def inv_elect_def same_histD[OF h] by simp
  ultimately show ?thesis by (simp add: inv_def)
qed

lemma inv_restart:
  assumes inv: "inv ids a" and i: "i \<in> set ids" and k: "k \<le> acommit a i"
  shows "inv ids (a\<lparr>arole := (arole a)(i := Follower), acommit := (acommit a)(i := k)\<rparr>)"
proof -
  let ?b = "a\<lparr>arole := (arole a)(i := Follower)\<rparr>"
  have b: "inv ids ?b" by (rule inv_step_down[OF inv])
  have c: "acommit ?b i < length (alog ?b i)" "committed ids ?b (take (Suc (acommit ?b i)) (alog ?b i)) (aterm ?b i)"
    using invD(9)[OF b] i by (auto simp: inv_commit_def)
  have "committed ids ?b (take (Suc k) (alog ?b i)) (aterm ?b i)"
    using committed_take[OF c(2), of "Suc k"] k c(1) by (simp add: min_def)
  then show ?thesis using inv_set_commit[OF b, of k i] k c(1) by simp
qed

lemma inv_follow:
  assumes inv: "inv ids a" and j: "j \<in> set ids" "leaderOf a (aterm a j) \<noteq> None"
    and k: "k \<le> accepted a j (aterm a j)"
    and com: "committed ids a (take (Suc k) (leaderLog a (aterm a j))) (aterm a j)"
  shows "inv ids (a\<lparr>acommit := (acommit a)(j := k)\<rparr>)"
proof -
  have "holds a (alog a j) (aterm a j) k"
    using invD(7)[OF inv] j k unfolding inv_acc_def deviates_def by fastforce
  then have eq: "take (Suc k) (alog a j) = take (Suc k) (leaderLog a (aterm a j))"
    and "k < length (leaderLog a (aterm a j))" by (auto simp: holds_def)
  then have "k < length (alog a j)" using take_eq_length[OF eq[symmetric]] by simp
  then show ?thesis using inv_set_commit[OF inv] eq com by simp
qed

lemma inv_leader_commit:
  assumes inv: "inv ids a" and i: "i \<in> set ids" "arole a i = Leader" and k: "k < length (alog a i)"
    and t: "eTerm (alog a i ! k) = aterm a i" and maj: "is_majority ids {p \<in> set ids. k \<le> amatch a i p}"
  shows "inv ids (a\<lparr>acommit := (acommit a)(i := k)\<rparr>)"
proof -
  have R: "leaderOf a (aterm a i) = Some i" "alog a i = leaderLog a (aterm a i)"
    "\<forall>p \<in> set ids. amatch a i p \<le> accepted a p (aterm a i)"
    using invD(4)[OF inv] i by (auto simp: inv_role_def)
  have "chosen ids a (aterm a i) k"
    unfolding chosen_def
  proof (intro conjI exI)
    show "\<forall>p \<in> {p \<in> set ids. k \<le> amatch a i p}. k \<le> accepted a p (aterm a i)"
      using R(3) by force
  qed (use R k t maj in auto)
  then have "committed ids a (take (Suc k) (alog a i)) (aterm a i)"
    unfolding committed_def using k R(2) by (intro disjI2 exI[of _ "aterm a i"] exI[of _ k]) auto
  then show ?thesis by (rule inv_set_commit[OF inv k])
qed

subsection \<open>Candidacies and votes\<close>

lemma inv_stand:
  assumes inv: "inv ids a" and i: "i \<in> set ids"
  shows "inv ids (standFor i a)" (is "inv ids ?b")
proof -
  note I = invD[OF inv]
  define T where "T = aterm a i + 1"
  have eq: "aterm ?b = (aterm a)(i := T)" "avote ?b = (avote a)(i := Some i)"
      "arole ?b = (arole a)(i := Candidate)" "avotes ?b = (avotes a)(i := {i})"
      "candLog ?b = (candLog a)(i := (candLog a i)(T := Some (alog a i)))"
      "ballots ?b = (ballots a)(i := (ballots a i)(T := Some (i, alog a i)))"
      "alog ?b = alog a" "acommit ?b = acommit a" "amatch ?b = amatch a"
    by (simp_all add: standFor_def Let_def T_def)
  have h: "same_hist a ?b" by (simp add: same_hist_def standFor_def Let_def)
  note H = same_histD[OF h]
  have le: "aterm a j \<le> aterm ?b j" for j by (simp add: eq T_def)
  have freshB: "ballots a i T = None"
    using I(6) unfolding inv_ballot_def T_def by (metis add_le_same_cancel1 not_one_le_zero old.prod.exhaust option.exhaust)
  have freshC: "candLog a i T = None"
    using I(1) unfolding inv_term_def T_def by (metis add_le_same_cancel1 not_one_le_zero)
  have oldB: "ballots ?b p U = Some (c, F)" if "ballots a p U = Some (c, F)" for p U c F
    using that freshB by (auto simp: eq)
  have oldC: "candLog ?b c U = Some G" if "candLog a c U = Some G" for c U G
    using that freshC by (auto simp: eq)
  have "inv_term ids ?b"
    using I(1) le unfolding inv_term_def eq(5,7)
    by (auto simp: eq(1) T_def) (meson le_add_same_cancel1 order_trans zero_le_one, force+)
  moreover have "inv_log ids ?b" using I(2) unfolding inv_log_def eq H .
  moreover have "inv_leader ids ?b"
    using I(3) unfolding inv_leader_def H by (auto simp: eq T_def) (meson add_increasing2 order_trans zero_le_one, force+)
  moreover have "inv_role ids ?b"
    using I(4) by (auto simp: inv_role_def eq H)
  moreover have "inv_cand ids ?b"
    unfolding inv_cand_def
  proof (intro ballI impI)
    fix j assume j: "j \<in> set ids" "arole ?b j = Candidate"
    show "candLog ?b j (aterm ?b j) = Some (alog ?b j) \<and> avotes ?b j \<subseteq> set ids \<and>
        (\<forall>p \<in> avotes ?b j. \<exists>F. ballots ?b p (aterm ?b j) = Some (j, F))"
    proof (cases "j = i")
      case True
      then show ?thesis using i by (simp add: eq)
    next
      case False
      then have "candLog a j (aterm a j) = Some (alog a j) \<and> avotes a j \<subseteq> set ids \<and>
        (\<forall>p \<in> avotes a j. \<exists>F. ballots a p (aterm a j) = Some (j, F))"
        using I(5) j by (simp add: inv_cand_def eq)
      then show ?thesis using False oldB by (auto simp: eq(1,4,5,7))
    qed
  qed
  moreover have "inv_ballot ids ?b"
    unfolding inv_ballot_def
  proof (intro allI impI)
    fix p U c F assume B: "ballots ?b p U = Some (c, F)"
    show "U \<le> aterm ?b p \<and> (U = aterm ?b p \<longrightarrow> avote ?b p = Some c) \<and> wfl ?b F \<and>
        (\<exists>G. candLog ?b c U = Some G \<and> upToDate G F) \<and> keeps_accepted ?b p F U U"
    proof (cases "p = i \<and> U = T")
      case True
      have "keeps_accepted a i (alog a i) T T"
        using I(7) i deviates_mono[of a _ _ "aterm a i" "aterm a i + 1"] unfolding keeps_accepted_def inv_acc_def T_def
        by (metis less_le_not_le zless_add1_eq less_imp_le)
      moreover have "c = i" "F = alog a i" using True B by (auto simp add: eq)
      moreover have "wfl a (alog a i)" using I(2) i by (simp add: inv_log_def)
      ultimately show ?thesis
        unfolding H using True by (simp add: eq upToDate_def)
    next
      case False
      then have "ballots a p U = Some (c, F)" using B by (auto simp: eq split: if_splits)
      then have "U \<le> aterm a p \<and> (U = aterm a p \<longrightarrow> avote a p = Some c) \<and> wfl a F \<and>
        (\<exists>G. candLog a c U = Some G \<and> upToDate G F) \<and> keeps_accepted a p F U U"
        using I(6) unfolding inv_ballot_def by blast
      then show ?thesis
        unfolding H using oldC le[of p] by (auto simp: eq(1,2) T_def)
    qed
  qed
  moreover have "inv_acc ids ?b"
    using I(7) le unfolding inv_acc_def H eq(7) by (meson order_trans deviates_mono)
  moreover have "inv_elect ids ?b"
    using I(8) unfolding inv_elect_def H by (meson oldB oldC)
  moreover have "inv_commit ids ?b"
    using I(9) le unfolding inv_commit_def H eq(7,8) by (meson committed_mono)
  ultimately show ?thesis by (simp add: inv_def)
qed

lemma inv_vote:
  assumes inv: "inv ids a" and j: "j \<in> set ids" and v: "avote a j = None \<or> avote a j = Some c"
    and G: "candLog a c (aterm a j) = Some G" "upToDate G (alog a j)"
  shows "inv ids (castVote j c a)" (is "inv ids ?b")
proof -
  note I = invD[OF inv]
  define T where "T = aterm a j"
  have eq: "aterm ?b = aterm a" "avote ?b = (avote a)(j := Some c)" "arole ?b = arole a"
      "avotes ?b = avotes a" "candLog ?b = candLog a" "alog ?b = alog a" "acommit ?b = acommit a"
      "amatch ?b = amatch a"
      "ballots ?b = (ballots a)(j := (ballots a j)(T :=
          (case ballots a j T of None \<Rightarrow> Some (c, alog a j) | Some b \<Rightarrow> Some b)))"
    by (simp_all add: castVote_def Let_def T_def)
  have h: "same_hist a ?b" by (simp add: same_hist_def castVote_def Let_def)
  note H = same_histD[OF h]
  have oldB: "ballots ?b p U = Some (c', F)" if "ballots a p U = Some (c', F)" for p U c' F
    using that by (auto simp: eq)
  have "inv_cand ids ?b"
    using I(5) unfolding inv_cand_def eq(1,3-6) by (meson oldB)
  moreover have "inv_ballot ids ?b"
    unfolding inv_ballot_def
  proof (intro allI impI)
    fix p U c' F assume B: "ballots ?b p U = Some (c', F)"
    show "U \<le> aterm ?b p \<and> (U = aterm ?b p \<longrightarrow> avote ?b p = Some c') \<and> wfl ?b F \<and>
        (\<exists>G. candLog ?b c' U = Some G \<and> upToDate G F) \<and> keeps_accepted ?b p F U U"
    proof (cases "ballots a p U")
      case None
      then have new: "p = j" "U = T" "c' = c" "F = alog a j" using B by (auto simp: eq split: if_splits)
      have "keeps_accepted a j (alog a j) T T"
        using I(7) j unfolding keeps_accepted_def inv_acc_def T_def by blast
      then show ?thesis
        unfolding H new using I(2) j G by (auto simp: eq inv_log_def T_def)
    next
      case (Some d)
      then have "ballots a p U = Some (c', F)" using B by (auto simp: eq split: if_splits)
      then have "U \<le> aterm a p \<and> (U = aterm a p \<longrightarrow> avote a p = Some c') \<and> wfl a F \<and>
        (\<exists>G. candLog a c' U = Some G \<and> upToDate G F) \<and> keeps_accepted a p F U U"
        using I(6) unfolding inv_ballot_def by blast
      then show ?thesis unfolding H eq(1,5) using v by (auto simp: eq(2))
    qed
  qed
  moreover have "inv_elect ids ?b"
    using I(8) unfolding inv_elect_def H eq(5) by (meson oldB)
  moreover have "inv_term ids ?b \<and> inv_log ids ?b \<and> inv_leader ids ?b \<and> inv_role ids ?b \<and> inv_acc ids ?b \<and>
      inv_commit ids ?b"
    using I(1-4,7,9) unfolding inv_term_def inv_log_def inv_leader_def inv_role_def inv_acc_def inv_commit_def
      H eq(1,3,5-8) by blast
  ultimately show ?thesis by (simp add: inv_def)
qed

subsection \<open>Leaders\<close>

lemma no_leader_yet:
  assumes inv: "inv ids a" and i: "i \<in> set ids" "arole a i = Candidate" "is_majority ids (avotes a i)"
  shows "leaderOf a (aterm a i) = None"
proof (rule ccontr)
  note I = invD[OF inv]
  assume "\<not> ?thesis"
  then obtain c where c: "leaderOf a (aterm a i) = Some c" by blast
  with I(8) obtain Q where Q: "is_majority ids Q" "\<forall>p \<in> Q. \<exists>F. ballots a p (aterm a i) = Some (c, F)"
    unfolding inv_elect_def by metis
  moreover have "\<forall>p \<in> avotes a i. \<exists>F. ballots a p (aterm a i) = Some (i, F)"
    using I(5) i unfolding inv_cand_def by blast
  ultimately have "c = i" using maj.quorum_meet[OF Q(1) i(3)] by fastforce
  then show False using I(3) c i(2) unfolding inv_leader_def by blast
qed

text \<open>
  What an extension of the history by a leader \<open>i\<close> of term \<open>T\<close> needs: its log is the only one that
  grows, by one entry of term \<open>T\<close>.
\<close>

lemma inv_append:
  assumes inv: "inv ids a" and i: "i \<in> set ids" and T: "T = aterm a i" "0 < T"
    and F: "F = alog a i @ [e]" and e: "eTerm e = T" "eIndex e = int (length (alog a i))" "eChange e = None"
    and lead: "leaderOf a T = None \<or> leaderOf a T = Some i \<and> leaderLog a T = alog a i"
    and same: "aterm b = aterm a" "avote b = avote a" "candLog b = candLog a" "ballots b = ballots a"
      "acommit b = acommit a"
    and new: "alog b = (alog a)(i := F)" "leaderOf b = (leaderOf a)(T := Some i)"
      "leaderLog b = (leaderLog a)(T := F)"
      "accepted b = (accepted a)(i := (accepted a i)(T := length (alog a i)))"
    and role: "arole b = (arole a)(i := Leader)"
    and votes: "\<forall>p \<in> set ids. amatch b i p \<le> accepted b p T" "\<forall>j. j \<noteq> i \<longrightarrow> amatch b j = amatch a j"
      "avotes b = avotes a"
    and elect: "\<exists>G Q. candLog a i T = Some G \<and> G \<noteq> [] \<and> length G < length F \<and>
        take (length G) F = G \<and> (\<forall>x \<in> set G. eTerm x < T) \<and> is_majority ids Q \<and>
        (\<forall>p \<in> Q. \<exists>F. ballots a p T = Some (i, F) \<and> keeps_accepted a p F T (T - 1))"
  shows "inv ids b"
proof -
  note I = invD[OF inv]
  have wfi: "wfl a (alog a i)" using I(2) i by (simp add: inv_log_def)
  have fulli: "full_ok (alog a i)" by (rule wfl_full[OF wfi])
  have terms: "\<forall>x \<in> set (alog a i). eTerm x \<le> T" using I(1) i T(1) by (auto simp: inv_term_def)
  have fullF: "full_ok F"
    unfolding F using full_ok_snoc[OF fulli, of e] terms e full_ok_nonempty[OF fulli] by simp
  have accT: "accepted a p T = 0" if "leaderOf a T = None" for p
    using I(7) that unfolding inv_acc_def by (metis gr_zeroI)
  have acc_lt: "accepted a i T \<le> length (alog a i)"
    using lead accT I(7) unfolding inv_acc_def by (metis le0 less_imp_le option.distinct(1))
  have ext: "hist_ext a b"
    unfolding hist_ext_def using lead acc_lt by (auto simp: new F)
  have wfF: "wfl b F"
    unfolding wfl_def
  proof (intro conjI allI impI fullF)
    fix k assume k: "0 < k" "k < length F"
    show "leaderOf b (eTerm (F ! k)) \<noteq> None"
      using wfl_at[OF wfi k(1)] k(2) e(1) by (auto simp: F nth_append new split: if_splits)
    show "take (Suc k) F = take (Suc k) (leaderLog b (eTerm (F ! k)))"
    proof (cases "k < length (alog a i)")
      case True
      then have at: "take (Suc k) (alog a i) = take (Suc k) (leaderLog b (eTerm (alog a i ! k)))"
        using wfl_at[OF wfl_ext[OF ext wfi] k(1)] by simp
      then show ?thesis using True by (simp add: F nth_append)
    next
      case False
      then show ?thesis using k(2) e(1) by (simp add: F nth_append new)
    qed
  qed
  have "inv_term ids b"
    using I(1) terms e(1) unfolding inv_term_def same new by (auto simp: F T)
  moreover have "inv_log ids b"
    using I(2) wfF wfl_ext[OF ext] unfolding inv_log_def new by auto
  moreover have "inv_leader ids b"
    unfolding inv_leader_def
  proof (intro allI impI)
    fix U c assume c: "leaderOf b U = Some c"
    show "0 < U \<and> c \<in> set ids \<and> U \<le> aterm b c \<and> wfl b (leaderLog b U) \<and> eTerm (last (leaderLog b U)) = U \<and>
      (aterm b c = U \<longrightarrow> arole b c \<noteq> Candidate)"
    proof (cases "U = T")
      case True
      then show ?thesis using c i T wfF e(1) by (auto simp: new same role F)
    next
      case False
      then have "0 < U \<and> c \<in> set ids \<and> U \<le> aterm a c \<and> wfl a (leaderLog a U) \<and>
        eTerm (last (leaderLog a U)) = U \<and> (aterm a c = U \<longrightarrow> arole a c \<noteq> Candidate)"
        using I(3) c unfolding inv_leader_def new by simp
      then show ?thesis using False wfl_ext[OF ext] by (auto simp: new same role)
    qed
  qed
  moreover have "inv_role ids b"
    unfolding inv_role_def
  proof (intro ballI impI)
    fix j assume j: "j \<in> set ids" "arole b j = Leader"
    show "leaderOf b (aterm b j) = Some j \<and> alog b j = leaderLog b (aterm b j) \<and>
        (\<forall>p \<in> set ids. amatch b j p \<le> accepted b p (aterm b j))"
    proof (cases "j = i")
      case True
      then show ?thesis using votes(1) by (simp add: new same T(1))
    next
      case False
      then have L: "leaderOf a (aterm a j) = Some j" "alog a j = leaderLog a (aterm a j)"
         "\<forall>p \<in> set ids. amatch a j p \<le> accepted a p (aterm a j)"
        using I(4) j by (auto simp: inv_role_def role)
      then have "aterm a j \<noteq> T" using lead False by auto
      then show ?thesis using False L votes(2) by (auto simp: new same)
    qed
  qed
  moreover have "inv_cand ids b"
    using I(5) unfolding inv_cand_def same new role votes(3) by auto
  moreover have "inv_ballot ids b"
    unfolding inv_ballot_def
  proof (intro allI impI)
    fix p U c G assume "ballots b p U = Some (c, G)"
    then have B: "U \<le> aterm a p" "U = aterm a p \<longrightarrow> avote a p = Some c" "wfl a G"
        "\<exists>H. candLog a c U = Some H \<and> upToDate H G" "keeps_accepted a p G U U"
      using I(6) unfolding inv_ballot_def same by blast+
    have "keeps_accepted b p G U U"
    proof (rule keeps_accepted_ext[OF ext I(3) I(7) B(5) order_refl])
      fix T0 assume T0: "T0 < U" "leaderOf b T0 \<noteq> None"
      show "leaderOf a T0 \<noteq> None \<and> accepted b p T0 = accepted a p T0 \<or> accepted b p T0 = 0 \<and> holds b G T0 0"
      proof (cases "leaderOf a T0 = None")
        case True
        then have "T0 = T" using T0(2) by (auto simp: new split: if_splits)
        moreover have "p \<noteq> i" using calculation T0(1) B(1) T(1) by auto
        ultimately show ?thesis
          using accT True holds_zero[OF wfl_full[OF B(3)], of b T] fullF by (simp add: new)
      next
        case False
        moreover have "accepted b p T0 = accepted a p T0"
          using T0(1) B(1) T(1) by (auto simp: new)
        ultimately show ?thesis by simp
      qed
    qed
    then show "U \<le> aterm b p \<and> (U = aterm b p \<longrightarrow> avote b p = Some c) \<and> wfl b G \<and>
       (\<exists>H. candLog b c U = Some H \<and> upToDate H G) \<and> keeps_accepted b p G U U"
      using B wfl_ext[OF ext] by (simp add: same)
  qed
  moreover have "inv_acc ids b"
    unfolding inv_acc_def
  proof (intro conjI ballI allI impI)
    fix p U assume "0 < accepted b p U"
    then show "U \<le> aterm b p" "leaderOf b U \<noteq> None"
      using I(7) T unfolding inv_acc_def new same by (auto split: if_splits)
  next
    fix p U assume "leaderOf b U \<noteq> None"
    then show "accepted b p U < length (leaderLog b U)"
      using I(7) lead accT unfolding inv_acc_def new same
      by (auto simp: F split: if_splits) (metis less_SucI option.distinct(1))
  next
    fix p U k assume p: "p \<in> set ids" and U: "leaderOf b U \<noteq> None" and k: "k \<le> accepted b p U"
    have fullp: "full_ok (alog b p)"
      using I(2) p fullF by (auto simp: new inv_log_def wfl_def)
    show "holds b (alog b p) U k \<or> deviates b U k (aterm b p)"
    proof (cases "U = T \<and> p = i")
      case True
      then show ?thesis using k by (simp add: holds_def new F)
    next
      case False
      show ?thesis
      proof (cases "leaderOf a U = None")
        case True
        then have "U = T" using U by (auto simp: new split: if_splits)
        then have "k = 0" using False k accT True by (simp add: new)
        then show ?thesis using holds_zero[OF fullp, of b U] fullF \<open>U = T\<close> by (simp add: new)
      next
        case L: False
        have ka: "k \<le> accepted a p U" using False k by (auto simp: new split: if_splits)
        then have kl: "k < length (leaderLog a U)" using I(7) L unfolding inv_acc_def by (meson le_less_trans)
        from I(7) p L ka have "holds a (alog a p) U k \<or> deviates a U k (aterm a p)"
          unfolding inv_acc_def by blast
        then show ?thesis
        proof
          assume hp: "holds a (alog a p) U k"
          then have "Suc k \<le> length (alog a p)"
            using kl take_eq_length[of "Suc k" "leaderLog a U" "alog a p"] by (simp add: holds_def)
          then have "take (Suc k) (alog b p) = take (Suc k) (alog a p)" by (cases "p = i") (simp_all add: new F)
          then show ?thesis using holds_ext[OF ext L hp] by (simp add: holds_def)
        next
          assume "deviates a U k (aterm a p)"
          then show ?thesis using deviates_ext[OF ext I(3) L kl] by (simp add: same)
        qed
      qed
    qed
  qed
  moreover have "inv_elect ids b"
    unfolding inv_elect_def
  proof (intro allI impI)
    fix U c assume c: "leaderOf b U = Some c"
    have keep: "keeps_accepted b p G U (U - 1)" if B: "ballots a p U = Some (c, G)"
        "keeps_accepted a p G U (U - 1)" for p G
    proof (rule keeps_accepted_ext[OF ext I(3) I(7) B(2) order_refl])
      have U: "U \<le> aterm a p" "wfl a G" using I(6) B(1) unfolding inv_ballot_def by blast+
      fix T0 assume T0: "T0 < U" "leaderOf b T0 \<noteq> None"
      show "leaderOf a T0 \<noteq> None \<and> accepted b p T0 = accepted a p T0 \<or> accepted b p T0 = 0 \<and> holds b G T0 0"
      proof (cases "leaderOf a T0 = None")
        case True
        then have "T0 = T" using T0(2) by (auto simp: new split: if_splits)
        moreover have "p \<noteq> i" using calculation T0(1) U(1) T(1) by auto
        ultimately show ?thesis
          using accT True holds_zero[OF wfl_full[OF U(2)], of b T] fullF by (simp add: new)
      next
        case False
        moreover have "accepted b p T0 = accepted a p T0"
          using T0(1) U(1) T(1) by (auto simp: new)
        ultimately show ?thesis by simp
      qed
    qed
    show "\<exists>G Q. candLog b c U = Some G \<and> G \<noteq> [] \<and> length G < length (leaderLog b U) \<and>
        take (length G) (leaderLog b U) = G \<and> (\<forall>x \<in> set G. eTerm x < U) \<and> is_majority ids Q \<and>
        (\<forall>p \<in> Q. \<exists>F. ballots b p U = Some (c, F) \<and> keeps_accepted b p F U (U - 1))"
    proof (cases "U = T")
      case True
      then have "c = i" using c by (simp add: new)
      then show ?thesis using elect True keep by (simp add: same new) metis
    next
      case False
      then have "leaderOf a U = Some c" using c by (simp add: new)
      then obtain G Q where "candLog a c U = Some G \<and> G \<noteq> [] \<and> length G < length (leaderLog a U) \<and>
        take (length G) (leaderLog a U) = G \<and> (\<forall>x \<in> set G. eTerm x < U) \<and> is_majority ids Q \<and>
        (\<forall>p \<in> Q. \<exists>F. ballots a p U = Some (c, F) \<and> keeps_accepted a p F U (U - 1))"
        using I(8) unfolding inv_elect_def by blast
      then show ?thesis using False keep
        by (intro exI[of _ G] exI[of _ Q]) (simp add: same new, metis)
    qed
  qed
  moreover have "inv_commit ids b"
    unfolding inv_commit_def
  proof (intro ballI conjI)
    fix j assume "j \<in> set ids"
    then have C: "acommit a j < length (alog a j)" "committed ids a (take (Suc (acommit a j)) (alog a j)) (aterm a j)"
      using I(9) by (auto simp: inv_commit_def)
    show "acommit b j < length (alog b j)" using C(1) by (auto simp: same new F)
    have "take (Suc (acommit a j)) (alog b j) = take (Suc (acommit a j)) (alog a j)"
      using C(1) by (auto simp: new F)
    then show "committed ids b (take (Suc (acommit b j)) (alog b j)) (aterm b j)"
      using committed_ext[OF ext C(2)] by (simp add: same)
  qed
  ultimately show ?thesis by (simp add: inv_def)
qed

lemma inv_win:
  assumes inv: "inv ids a" and i: "i \<in> set ids" "arole a i = Candidate" "is_majority ids (avotes a i)"
    and e: "eTerm e = aterm a i" "eIndex e = int (length (alog a i))" "eChange e = None"
  shows "inv ids (electLeader i e a)" (is "inv ids ?b")
proof -
  note I = invD[OF inv]
  define T where "T = aterm a i"
  have none: "leaderOf a T = None" unfolding T_def by (rule no_leader_yet[OF inv i])
  have C: "candLog a i T = Some (alog a i)" "\<forall>p \<in> avotes a i. \<exists>F. ballots a p T = Some (i, F)"
    using I(5) i unfolding inv_cand_def T_def by blast+
  have wfi: "wfl a (alog a i)" using I(2) i(1) by (simp add: inv_log_def)
  have pos: "0 < T"
    using I(1) C(1) unfolding inv_term_def by blast
  have less: "eTerm x < T" if x: "x \<in> set (alog a i)" for x
  proof -
    obtain k where k: "k < length (alog a i)" "x = alog a i ! k" using x by (auto simp: in_set_conv_nth)
    have "eTerm x \<le> T" using I(1) i(1) x by (auto simp: inv_term_def T_def)
    moreover have "eTerm x \<noteq> T"
    proof (cases "k = 0")
      case True
      then show ?thesis
        using k wfl_full[OF wfi] pos by (auto simp: full_ok_def hd_conv_nth zeroEntry_def)
    next
      case False
      then show ?thesis using wfl_at[OF wfi, of k] k none by auto
    qed
    ultimately show ?thesis by simp
  qed
  have keep: "keeps_accepted a p F T (T - 1)" if "ballots a p T = Some (i, F)" for p F
  proof -
    have "keeps_accepted a p F T T" using I(6) that unfolding inv_ballot_def by blast
    moreover have "deviates a T0 k (T - 1)" if "deviates a T0 k T" for T0 k
      using that none unfolding deviates_def by (metis not_less zle_diff1_eq order_less_le)
    ultimately show ?thesis unfolding keeps_accepted_def by blast
  qed
  show ?thesis
  proof (rule inv_append[OF inv i(1) T_def pos refl, where b = ?b and e = e])
    show "\<exists>G Q. candLog a i T = Some G \<and> G \<noteq> [] \<and> length G < length (alog a i @ [e]) \<and>
        take (length G) (alog a i @ [e]) = G \<and> (\<forall>x \<in> set G. eTerm x < T) \<and> is_majority ids Q \<and>
        (\<forall>p \<in> Q. \<exists>F. ballots a p T = Some (i, F) \<and> keeps_accepted a p F T (T - 1))"
      using C less i(3) keep full_ok_nonempty[OF wfl_full[OF wfi]]
      by (intro exI[of _ "alog a i"] exI[of _ "avotes a i"]) (simp, blast)
  qed (use e none in \<open>simp_all add: electLeader_def Let_def T_def\<close>)
qed

lemma inv_propose:
  assumes inv: "inv ids a" and i: "i \<in> set ids" "arole a i = Leader"
    and e: "eTerm e = aterm a i" "eIndex e = int (length (alog a i))" "eChange e = None"
  shows "inv ids (leaderAppend i e a)" (is "inv ids ?b")
proof -
  note I = invD[OF inv]
  define T where "T = aterm a i"
  have L: "leaderOf a T = Some i" "alog a i = leaderLog a T" "\<forall>p \<in> set ids. amatch a i p \<le> accepted a p T"
    using I(4) i unfolding inv_role_def T_def by blast+
  have pos: "0 < T" using I(3) L(1) unfolding inv_leader_def by blast
  show ?thesis
  proof (rule inv_append[OF inv i(1) T_def pos refl, where b = ?b and e = e])
    obtain G Q where G: "candLog a i T = Some G \<and> G \<noteq> [] \<and> length G < length (leaderLog a T) \<and>
        take (length G) (leaderLog a T) = G \<and> (\<forall>x \<in> set G. eTerm x < T) \<and> is_majority ids Q \<and>
        (\<forall>p \<in> Q. \<exists>F. ballots a p T = Some (i, F) \<and> keeps_accepted a p F T (T - 1))"
      using I(8) L(1) unfolding inv_elect_def by blast
    then show "\<exists>G Q. candLog a i T = Some G \<and> G \<noteq> [] \<and> length G < length (alog a i @ [e]) \<and>
        take (length G) (alog a i @ [e]) = G \<and> (\<forall>x \<in> set G. eTerm x < T) \<and> is_majority ids Q \<and>
        (\<forall>p \<in> Q. \<exists>F. ballots a p T = Some (i, F) \<and> keeps_accepted a p F T (T - 1))"
      by (intro exI[of _ G] exI[of _ Q]) (simp add: L(2))
    show "\<forall>p \<in> set ids. amatch ?b i p \<le> accepted ?b p T"
      using L(3) by (simp add: leaderAppend_def Let_def T_def)
  qed (use e L i(2) in \<open>simp_all add: leaderAppend_def Let_def T_def fun_eq_iff\<close>)
qed

subsection \<open>Followers\<close>

text \<open>
  A follower replaces its log by one that has the first \<open>k\<close> entries of its leader and keeps every
  prefix it shares with the leader.
\<close>

lemma inv_accept:
  assumes inv: "inv ids a" and j: "j \<in> set ids" "arole a j = Follower"
    and G: "leaderOf a (aterm a j) \<noteq> None" "G = leaderLog a (aterm a j)" "k < length G"
    and R: "wfl a R" "\<forall>x \<in> set R. eTerm x \<le> aterm a j" "take (Suc k) R = take (Suc k) G"
    and keep: "\<And>c. c \<le> length (alog a j) \<Longrightarrow> take c (alog a j) = take c G \<Longrightarrow> take c R = take c G"
  shows "inv ids (acceptUpTo j k R a)" (is "inv ids ?b")
proof -
  note I = invD[OF inv]
  define T where "T = aterm a j"
  have eq: "aterm ?b = aterm a" "avote ?b = avote a" "arole ?b = arole a" "avotes ?b = avotes a"
      "candLog ?b = candLog a" "ballots ?b = ballots a" "acommit ?b = acommit a" "amatch ?b = amatch a"
      "leaderOf ?b = leaderOf a" "leaderLog ?b = leaderLog a" "alog ?b = (alog a)(j := R)"
      "accepted ?b = (accepted a)(j := (accepted a j)(T := max k (accepted a j T)))"
    by (simp_all add: acceptUpTo_def Let_def T_def)
  have le: "accepted a p U \<le> accepted ?b p U" for p U by (simp add: eq)
  have ext: "hist_ext a ?b" using le by (simp add: hist_ext_def eq)
  have H: "wfl ?b = wfl a" "holds ?b = holds a" "deviates ?b = deviates a"
    by (simp_all add: wfl_def holds_def deviates_def eq fun_eq_iff)
  have KA: "keeps_accepted ?b p F U V \<longleftrightarrow> keeps_accepted a p F U V" if "p = j \<longrightarrow> U \<le> T" for p F U V
    using that by (auto simp: keeps_accepted_def eq H)
  have cut: "take (Suc n) R = take (Suc n) G"
    if "take (Suc n) (alog a j) = take (Suc n) G" "n < length G" for n
    using that take_eq_length[of "Suc n" G "alog a j"] by (intro keep) simp_all
  have "inv_term ids ?b" using I(1) R(2) by (auto simp: inv_term_def eq)
  moreover have "inv_log ids ?b" using I(2) R(1) by (auto simp: inv_log_def eq H)
  moreover have "inv_leader ids ?b" using I(3) unfolding inv_leader_def eq H .
  moreover have "inv_role ids ?b"
    unfolding inv_role_def
  proof (intro ballI impI)
    fix i assume i: "i \<in> set ids" "arole ?b i = Leader"
    then have "leaderOf a (aterm a i) = Some i \<and> alog a i = leaderLog a (aterm a i) \<and>
        (\<forall>p \<in> set ids. amatch a i p \<le> accepted a p (aterm a i))" and "i \<noteq> j"
      using I(4) j by (auto simp: inv_role_def eq)
    then show "leaderOf ?b (aterm ?b i) = Some i \<and> alog ?b i = leaderLog ?b (aterm ?b i) \<and>
        (\<forall>p \<in> set ids. amatch ?b i p \<le> accepted ?b p (aterm ?b i))"
      using le by (auto simp: eq(1-11) intro: order_trans)
  qed
  moreover have "inv_cand ids ?b" using I(5) j by (auto simp: inv_cand_def eq)
  moreover have "inv_ballot ids ?b"
    unfolding inv_ballot_def eq(1-11) H
  proof (intro allI impI)
    fix p U c F assume "ballots a p U = Some (c, F)"
    then have "U \<le> aterm a p \<and> (U = aterm a p \<longrightarrow> avote a p = Some c) \<and> wfl a F \<and>
       (\<exists>G. candLog a c U = Some G \<and> upToDate G F) \<and> keeps_accepted a p F U U"
      using I(6) unfolding inv_ballot_def by blast
    then show "U \<le> aterm a p \<and> (U = aterm a p \<longrightarrow> avote a p = Some c) \<and> wfl a F \<and>
       (\<exists>G. candLog a c U = Some G \<and> upToDate G F) \<and> keeps_accepted ?b p F U U"
      using KA[of p U F U] by (auto simp: T_def)
  qed
  moreover have "inv_acc ids ?b"
    unfolding inv_acc_def eq(1-11) H
  proof (intro conjI ballI allI impI)
    fix p U assume "0 < accepted ?b p U"
    then show "U \<le> aterm a p" "leaderOf a U \<noteq> None"
      using I(7) G(1) unfolding inv_acc_def by (auto simp: eq(12) T_def split: if_splits)
  next
    fix p U assume "leaderOf a U \<noteq> None"
    then show "accepted ?b p U < length (leaderLog a U)"
      using I(7) G unfolding inv_acc_def by (auto simp: eq(12) T_def)
  next
    fix p U n assume p: "p \<in> set ids" and U: "leaderOf a U \<noteq> None" and n: "n \<le> accepted ?b p U"
    show "holds a (((alog a)(j := R)) p) U n \<or> deviates a U n (aterm a p)"
    proof (cases "p = j")
      case False
      then show ?thesis using I(7) p U n unfolding inv_acc_def by (simp add: eq(12))
    next
      case True
      show ?thesis
      proof (cases "n \<le> accepted a j U")
        case False
        then have "U = T" "n \<le> k" using n True by (auto simp: eq(12) split: if_splits)
        then show ?thesis
          using True R(3) G(2,3) take_eq_mono[of "Suc k" R G "Suc n"] by (simp add: holds_def T_def)
      next
        case acc: True
        then have nU: "n < length (leaderLog a U)" using I(7) U unfolding inv_acc_def by (meson le_less_trans)
        have "holds a (alog a j) U n \<or> deviates a U n T"
          using I(7) j(1) U acc unfolding inv_acc_def T_def by blast
        moreover have "holds a R U n \<or> deviates a U n T" if h: "holds a (alog a j) U n"
        proof -
          have same: "take (Suc n) (alog a j) = take (Suc n) (leaderLog a U)" using h by (simp add: holds_def)
          consider "n = 0" | "U = T" | "U < T"
            using I(7) acc unfolding inv_acc_def T_def by (metis gr_zeroI le_zero_eq order_less_le)
          then show ?thesis
          proof cases
            case 1
            then show ?thesis
              using holds_zero[OF wfl_full[OF R(1)]] I(3) U unfolding inv_leader_def wfl_def by blast
          next
            case 2
            then show ?thesis using cut[of n] same nU G(2) by (simp add: holds_def T_def)
          next
            case 3
            show ?thesis
            proof (cases "take (Suc n) G = take (Suc n) (leaderLog a U)")
              case True
              then have "n < length G" using take_eq_length[of "Suc n" "leaderLog a U" G] nU by simp
              then show ?thesis using cut[of n] same True nU by (simp add: holds_def)
            next
              case False
              then show ?thesis using 3 G(1,2) unfolding deviates_def T_def by blast
            qed
          qed
        qed
        ultimately show ?thesis using True by (auto simp: T_def)
      qed
    qed
  qed
  moreover have "inv_elect ids ?b"
    unfolding inv_elect_def eq(1-11)
  proof (intro allI impI)
    fix U c assume "leaderOf a U = Some c"
    then obtain G Q where GQ: "candLog a c U = Some G \<and> G \<noteq> [] \<and> length G < length (leaderLog a U) \<and>
        take (length G) (leaderLog a U) = G \<and> (\<forall>x \<in> set G. eTerm x < U) \<and> is_majority ids Q"
      and B: "\<And>p. p \<in> Q \<Longrightarrow> \<exists>F. ballots a p U = Some (c, F) \<and> keeps_accepted a p F U (U - 1)"
      using I(8) unfolding inv_elect_def by blast
    have "\<exists>F. ballots a p U = Some (c, F) \<and> keeps_accepted ?b p F U (U - 1)" if p: "p \<in> Q" for p
    proof -
      obtain F where F: "ballots a p U = Some (c, F)" "keeps_accepted a p F U (U - 1)" using B[OF p] by blast
      then have "U \<le> aterm a p" using I(6) unfolding inv_ballot_def by blast
      then show ?thesis using F KA[of p U F "U - 1"] by (auto simp: T_def)
    qed
    then show "\<exists>G Q. candLog a c U = Some G \<and> G \<noteq> [] \<and> length G < length (leaderLog a U) \<and>
        take (length G) (leaderLog a U) = G \<and> (\<forall>x \<in> set G. eTerm x < U) \<and> is_majority ids Q \<and>
        (\<forall>p \<in> Q. \<exists>F. ballots a p U = Some (c, F) \<and> keeps_accepted ?b p F U (U - 1))"
      using GQ by blast
  qed
  moreover have "inv_commit ids ?b"
    unfolding inv_commit_def
  proof (intro ballI)
    fix i assume "i \<in> set ids"
    then have C: "acommit a i < length (alog a i)" "committed ids a (take (Suc (acommit a i)) (alog a i)) (aterm a i)"
      using I(9) by (auto simp: inv_commit_def)
    have cb: "committed ids ?b (take (Suc (acommit a i)) (alog a i)) (aterm a i)"
      by (rule committed_ext[OF ext C(2) order_refl])
    show "acommit ?b i < length (alog ?b i) \<and> committed ids ?b (take (Suc (acommit ?b i)) (alog ?b i)) (aterm ?b i)"
    proof (cases "i = j")
      case True
      have "take (Suc (acommit a j)) (alog a j) = take (Suc (acommit a j)) G"
        using committed_in_leader[OF inv C(2) order_refl] G(1,2) C(1) True by (simp add: min.absorb2)
      then have R': "take (Suc (acommit a j)) R = take (Suc (acommit a j)) (alog a j)"
        using keep[of "Suc (acommit a j)"] C(1) True by simp
      then have "Suc (acommit a j) \<le> length R"
        using C(1) True take_eq_length[of "Suc (acommit a j)" "alog a j" R] by simp
      then show ?thesis using R' cb True by (simp add: eq)
    qed (use C cb in \<open>simp add: eq\<close>)
  qed
  ultimately show ?thesis by (simp add: inv_def)
qed

lemma leader_terms:
  assumes "inv ids a" and "leaderOf a T \<noteq> None"
  shows "wfl a (leaderLog a T)" and "\<forall>x \<in> set (leaderLog a T). eTerm x \<le> T"
  using invD(3)[OF assms(1)] leaderLog_term_le[OF invD(3)[OF assms(1)] assms(2)] assms(2)
  by (auto simp: inv_leader_def in_set_conv_nth)

lemma inv_merge:
  assumes inv: "inv ids a" and j: "j \<in> set ids" "arole a j = Follower" and L: "leaderOf a (aterm a j) \<noteq> None"
    and prev: "prev < length (alog a j)" "prev + m < length (leaderLog a (aterm a j))"
      "eTerm (alog a j ! prev) = eTerm (leaderLog a (aterm a j) ! prev)"
  shows "inv ids (acceptUpTo j (prev + m)
           (mergeFull (alog a j) (Suc prev) (take m (drop (Suc prev) (leaderLog a (aterm a j))))) a)"
proof -
  note I = invD[OF inv]
  define G where "G = leaderLog a (aterm a j)"
  define R where "R = mergeFull (alog a j) (Suc prev) (take m (drop (Suc prev) G))"
  have wfj: "wfl a (alog a j)" using I(2) j(1) by (simp add: inv_log_def)
  have wfG: "wfl a G" "\<forall>x \<in> set G. eTerm x \<le> aterm a j" unfolding G_def by (rule leader_terms[OF inv L])+
  have mat: "matching (alog a j) G" by (rule wfl_matching[OF wfj wfG(1)])
  have "take (Suc prev) (alog a j) = take (Suc prev) G"
    using mat prev unfolding matching_def G_def by auto
  then have S: "R = alog a j \<or> R = take (Suc prev + m) G" "take (Suc prev + m) R = take (Suc prev + m) G"
      "c \<le> length (alog a j) \<Longrightarrow> take c (alog a j) = take c G \<Longrightarrow> take c R = take c G" for c
    using mergeFull_slice[OF mat, of "Suc prev" m] prev unfolding R_def G_def by auto
  have "\<forall>x \<in> set (alog a j). eTerm x \<le> aterm a j" using I(1) j(1) by (simp add: inv_term_def)
  then have R: "wfl a R" "\<forall>x \<in> set R. eTerm x \<le> aterm a j"
    using S(1) wfj wfG wfl_take[OF wfG(1)] by (auto dest: in_set_takeD)
  show ?thesis
    using inv_accept[OF inv j L G_def _ R, of "prev + m"] S(2,3) prev(2) unfolding R_def G_def by simp
qed

lemma inv_install:
  assumes inv: "inv ids a" and j: "j \<in> set ids" "arole a j = Follower" and L: "leaderOf a (aterm a j) \<noteq> None"
    and k: "k < length (leaderLog a (aterm a j))" "length (alog a j) \<le> Suc k"
  shows "inv ids (acceptUpTo j k (take (Suc k) (leaderLog a (aterm a j))) a)"
  using inv_accept[OF inv j L refl k(1), of "take (Suc k) (leaderLog a (aterm a j))"] k(2)
    wfl_take[OF leader_terms(1)[OF inv L], of "Suc k"] leader_terms(2)[OF inv L]
  by (auto dest: in_set_takeD simp: min_def)

lemma inv_install_old:
  assumes inv: "inv ids a" and j: "j \<in> set ids" "arole a j = Follower" and L: "leaderOf a (aterm a j) \<noteq> None"
    and k: "k < length (leaderLog a (aterm a j))" "k \<le> acommit a j"
  shows "inv ids (acceptUpTo j k (alog a j) a)"
proof -
  note I = invD[OF inv]
  have C: "acommit a j < length (alog a j)" "committed ids a (take (Suc (acommit a j)) (alog a j)) (aterm a j)"
    using I(9) j by (auto simp: inv_commit_def)
  have "take (Suc (acommit a j)) (alog a j) = take (Suc (acommit a j)) (leaderLog a (aterm a j))"
    using committed_in_leader[OF inv C(2) order_refl L] C(1) by (simp add: min.absorb2)
  then have "take (Suc k) (alog a j) = take (Suc k) (leaderLog a (aterm a j))"
    using take_eq_mono k(2) by (metis Suc_le_mono)
  then show ?thesis
    using inv_accept[OF inv j L refl k(1)] I(1,2) j(1) by (simp add: inv_log_def inv_term_def)
qed

subsection \<open>Reachable states\<close>

lemma inv_declared: "inv ids (a\<lparr>declared := d\<rparr>) = inv ids a"
proof -
  have "same_hist a (a\<lparr>declared := d\<rparr>)" by (simp add: same_hist_def)
  note H = same_histD[OF this]
  show ?thesis
    by (simp add: inv_def inv_term_def inv_log_def inv_leader_def inv_role_def inv_cand_def inv_ballot_def
        inv_acc_def inv_elect_def inv_commit_def H)
qed

lemma inv_commit_declare:
  assumes "inv ids a" "i \<in> set ids" "arole a i = Leader" "k < length (alog a i)"
    "eTerm (alog a i ! k) = aterm a i" "is_majority ids {p \<in> set ids. k \<le> amatch a i p}"
  shows "inv ids (a\<lparr>acommit := (acommit a)(i := k), declared := d\<rparr>)"
  using inv_leader_commit[OF assms] inv_declared[where a = "a\<lparr>acommit := (acommit a)(i := k)\<rparr>"] by simp

lemma inv_init: "inv ids initSpec"
proof -
  have "alog initSpec = (\<lambda>_. [zeroEntry])" by (simp add: initSpec_def)
  then have "inv_log ids initSpec" "inv_commit ids initSpec"
    by (simp_all add: inv_log_def wfl_init inv_commit_def committed_def initSpec_def)
  then show ?thesis
    by (simp add: inv_def inv_term_def inv_leader_def inv_role_def inv_cand_def inv_ballot_def inv_acc_def
        inv_elect_def) (simp add: initSpec_def zeroEntry_def)
qed

lemma astep_inv: "astep ids a b \<Longrightarrow> inv ids a \<Longrightarrow> inv ids b"
proof (induction rule: astep.induct)
  case (merge j a prev m es)
  then show ?case using inv_merge by simp
qed (simp_all add: inv_raise_term inv_step_down inv_stand inv_vote inv_count inv_win inv_propose inv_install
    inv_install_old inv_record_match inv_commit_declare inv_follow inv_restart)

theorem areach_inv: "areach ids a \<Longrightarrow> inv ids a"
  by (induction rule: areach.induct) (auto intro: inv_init astep_inv)

end
