(* ===== verification/Raft_Spec_Reads.thy ===== *)
theory Raft_Spec_Reads
  imports Raft_Spec_Steps
begin

text \<open>
  Commit indices of the abstract protocol.  Every commit index was announced by the leader of some
  term, and a leader announces exactly its own.  This is what a linearizable read relies on: a
  leader that has committed an entry of its term, while no later leader exists, has the highest
  commit index of all nodes.
\<close>

subsection \<open>History only grows\<close>

definition aext :: "Spec \<Rightarrow> Spec \<Rightarrow> bool" where
  "aext a b \<longleftrightarrow> hist_ext a b \<and> (\<forall>T. leaderOf a T \<noteq> None \<longrightarrow> declared a T \<le> declared b T) \<and>
     (\<forall>c T G. candLog a c T = Some G \<longrightarrow> candLog b c T = Some G) \<and>
     (\<forall>p T x. ballots a p T = Some x \<longrightarrow> ballots b p T = Some x)"

lemma aext_refl [simp]: "aext a a"
  by (simp add: aext_def hist_ext_def)

lemma hist_ext_trans: "hist_ext a b \<Longrightarrow> hist_ext b c \<Longrightarrow> hist_ext a c"
  unfolding hist_ext_def
proof (intro conjI allI impI, goal_cases)
  case (2 T)
  then show ?case by (metis append.assoc)
next
  case (3 p T)
  then show ?case by (meson order_trans)
qed simp

lemma aext_trans [trans]: "aext a b \<Longrightarrow> aext b c \<Longrightarrow> aext a c"
proof -
  assume A: "aext a b" "aext b c"
  then have "leaderOf a T \<noteq> None \<Longrightarrow> declared a T \<le> declared b T \<and> declared b T \<le> declared c T" for T
    using hist_ext_leader[of a b T] by (simp add: aext_def)
  then show "aext a c" using A hist_ext_trans[of a b c] order_trans unfolding aext_def by blast
qed

lemma aext_same:
  "leaderOf b = leaderOf a \<Longrightarrow> leaderLog b = leaderLog a \<Longrightarrow> accepted b = accepted a \<Longrightarrow>
   candLog b = candLog a \<Longrightarrow> ballots b = ballots a \<Longrightarrow> (\<And>T. declared a T \<le> declared b T) \<Longrightarrow> aext a b"
  by (simp add: aext_def hist_ext_def)

lemma aext_stand:
  assumes "inv ids a"
  shows "aext a (standFor i a)"
proof -
  have "candLog a i (aterm a i + 1) = None" "ballots a i (aterm a i + 1) = None"
    using invD(1,6)[OF assms] unfolding inv_term_def inv_ballot_def
    by (metis zle_add1_eq_le order.irrefl, metis not_Some_eq old.prod.exhaust zle_add1_eq_le order.irrefl)
  then show ?thesis by (auto simp: aext_def hist_ext_def standFor_def Let_def)
qed

lemma aext_vote: "aext a (castVote j c a)"
  by (auto simp: aext_def hist_ext_def castVote_def Let_def)

lemma aext_win:
  assumes "inv ids a" "i \<in> set ids" "arole a i = Candidate" "is_majority ids (avotes a i)"
  shows "aext a (electLeader i e a)"
proof -
  have none: "leaderOf a (aterm a i) = None" by (rule no_leader_yet[OF assms])
  then have "accepted a i (aterm a i) = 0"
    using invD(7)[OF assms(1)] unfolding inv_acc_def by (metis gr_zeroI)
  then show ?thesis using none by (auto simp: aext_def hist_ext_def electLeader_def Let_def)
qed

lemma aext_propose:
  assumes "inv ids a" "i \<in> set ids" "arole a i = Leader"
  shows "aext a (leaderAppend i e a)"
proof -
  have L: "leaderOf a (aterm a i) = Some i" "alog a i = leaderLog a (aterm a i)"
    using invD(4)[OF assms(1)] assms(2,3) by (auto simp: inv_role_def)
  then have "accepted a i (aterm a i) \<le> length (alog a i)"
    using invD(7)[OF assms(1)] unfolding inv_acc_def by (metis less_imp_le option.distinct(1))
  then show ?thesis using L by (auto simp: aext_def hist_ext_def leaderAppend_def Let_def)
qed

lemma aext_accept: "aext a (acceptUpTo j k F a)"
  by (auto simp: aext_def hist_ext_def acceptUpTo_def Let_def)

lemma astep_aext: "astep ids a b \<Longrightarrow> inv ids a \<Longrightarrow> aext a b"
  by (induction rule: astep.induct)
    (simp_all add: aext_stand aext_vote aext_win aext_propose aext_accept aext_same)

subsection \<open>Announced commit indices\<close>

definition inv_decl :: "string list \<Rightarrow> Spec \<Rightarrow> bool" where
  "inv_decl ids a \<longleftrightarrow>
     (\<forall>i \<in> set ids. arole a i = Leader \<longrightarrow> declared a (aterm a i) = acommit a i) \<and>
     (\<forall>T. leaderOf a T \<noteq> None \<longrightarrow> declared a T < length (leaderLog a T) \<and>
        committed ids a (take (Suc (declared a T)) (leaderLog a T)) T) \<and>
     (\<forall>j \<in> set ids. acommit a j = 0 \<or> (\<exists>T \<le> aterm a j. leaderOf a T \<noteq> None \<and> acommit a j \<le> declared a T))"

lemma inv_declD:
  assumes "inv_decl ids a"
  shows "i \<in> set ids \<Longrightarrow> arole a i = Leader \<Longrightarrow> declared a (aterm a i) = acommit a i"
    "leaderOf a T \<noteq> None \<Longrightarrow> declared a T < length (leaderLog a T)"
    "leaderOf a T \<noteq> None \<Longrightarrow> committed ids a (take (Suc (declared a T)) (leaderLog a T)) T"
    "j \<in> set ids \<Longrightarrow> acommit a j = 0 \<or> (\<exists>T \<le> aterm a j. leaderOf a T \<noteq> None \<and> acommit a j \<le> declared a T)"
  using assms by (auto simp: inv_decl_def)

text \<open>Steps that announce nothing, with the history extended.\<close>

lemma decl_ext:
  assumes d: "inv_decl ids a" and h: "hist_ext a b"
    and same: "declared b = declared a" "\<And>T. leaderOf b T \<noteq> None \<Longrightarrow> leaderOf a T \<noteq> None"
    and term_le: "\<And>j. aterm a j \<le> aterm b j"
    and lead: "\<And>i. i \<in> set ids \<Longrightarrow> arole b i = Leader \<Longrightarrow>
        arole a i = Leader \<and> aterm b i = aterm a i \<and> acommit b i = acommit a i"
    and com: "\<And>j. j \<in> set ids \<Longrightarrow> acommit b j \<le> acommit a j \<or>
        leaderOf a (aterm b j) \<noteq> None \<and> acommit b j \<le> declared a (aterm b j)"
  shows "inv_decl ids b"
  unfolding inv_decl_def
proof (intro conjI ballI allI impI)
  fix i assume "i \<in> set ids" "arole b i = Leader"
  then show "declared b (aterm b i) = acommit b i"
    using lead inv_declD(1)[OF d] same(1) by simp
next
  fix T assume "leaderOf b T \<noteq> None"
  then have L: "leaderOf a T \<noteq> None" by (rule same(2))
  show "declared b T < length (leaderLog b T)"
    using inv_declD(2)[OF d L] hist_ext_length[OF h L] same(1) by simp
  have "take (Suc (declared a T)) (leaderLog b T) = take (Suc (declared a T)) (leaderLog a T)"
    using hist_ext_take[OF h L] inv_declD(2)[OF d L] by simp
  then show "committed ids b (take (Suc (declared b T)) (leaderLog b T)) T"
    using committed_ext[OF h inv_declD(3)[OF d L] order_refl] same(1) by simp
next
  fix j assume j: "j \<in> set ids"
  from com[OF j] show "acommit b j = 0 \<or> (\<exists>T \<le> aterm b j. leaderOf b T \<noteq> None \<and> acommit b j \<le> declared b T)"
  proof
    assume le: "acommit b j \<le> acommit a j"
    from inv_declD(4)[OF d j] show ?thesis
    proof
      assume "\<exists>T \<le> aterm a j. leaderOf a T \<noteq> None \<and> acommit a j \<le> declared a T"
      then obtain T where "T \<le> aterm a j" "leaderOf a T \<noteq> None" "acommit a j \<le> declared a T" by blast
      then have "T \<le> aterm b j \<and> leaderOf b T \<noteq> None \<and> acommit b j \<le> declared b T"
        using le term_le[of j] hist_ext_leader[OF h, of T] same(1) by auto
      then show ?thesis by blast
    qed (use le in simp)
  next
    assume "leaderOf a (aterm b j) \<noteq> None \<and> acommit b j \<le> declared a (aterm b j)"
    then show ?thesis using hist_ext_leader[OF h] same(1) by (intro disjI2 exI[of _ "aterm b j"]) simp
  qed
qed

lemma decl_win:
  assumes inv: "inv ids a" and d: "inv_decl ids a"
    and i: "i \<in> set ids" "arole a i = Candidate" "is_majority ids (avotes a i)"
    and h: "hist_ext a (electLeader i e a)"
  shows "inv_decl ids (electLeader i e a)" (is "inv_decl ids ?b")
proof -
  define T where "T = aterm a i"
  have none: "leaderOf a T = None" unfolding T_def by (rule no_leader_yet[OF inv i])
  have eq: "aterm ?b = aterm a" "acommit ?b = acommit a" "arole ?b = (arole a)(i := Leader)"
      "leaderOf ?b = (leaderOf a)(T := Some i)" "leaderLog ?b = (leaderLog a)(T := alog a i @ [e])"
      "declared ?b = (declared a)(T := acommit a i)"
    by (simp_all add: electLeader_def Let_def T_def)
  have C: "acommit a i < length (alog a i)" "committed ids a (take (Suc (acommit a i)) (alog a i)) T"
    using invD(9)[OF inv] i(1) by (auto simp: inv_commit_def T_def)
  have term_ne: "aterm a j \<noteq> T" if "j \<in> set ids" "arole a j = Leader" for j
    using invD(4)[OF inv] that none by (auto simp: inv_role_def)
  show ?thesis
    unfolding inv_decl_def
  proof (intro conjI ballI allI impI)
    fix j assume "j \<in> set ids" "arole ?b j = Leader"
    then show "declared ?b (aterm ?b j) = acommit ?b j"
      using inv_declD(1)[OF d] term_ne by (auto simp: eq T_def split: if_splits)
  next
    fix U assume U: "leaderOf ?b U \<noteq> None"
    show "declared ?b U < length (leaderLog ?b U)"
      using U inv_declD(2)[OF d] C(1) by (auto simp: eq split: if_splits)
    show "committed ids ?b (take (Suc (declared ?b U)) (leaderLog ?b U)) U"
    proof (cases "U = T")
      case True
      then show ?thesis using committed_ext[OF h C(2) order_refl] C(1) by (simp add: eq)
    next
      case False
      then show ?thesis using U committed_ext[OF h inv_declD(3)[OF d] order_refl, of U] by (simp add: eq)
    qed
  next
    fix j assume "j \<in> set ids"
    from inv_declD(4)[OF d this]
    show "acommit ?b j = 0 \<or> (\<exists>U \<le> aterm ?b j. leaderOf ?b U \<noteq> None \<and> acommit ?b j \<le> declared ?b U)"
      unfolding eq using none by (metis fun_upd_other)
  qed
qed

lemma decl_commit:
  assumes inv: "inv ids a" and d: "inv_decl ids a" and i: "i \<in> set ids" "arole a i = Leader"
    and k: "acommit a i < k"
    and b: "b = a\<lparr>acommit := (acommit a)(i := k),
                  declared := (declared a)(aterm a i := max k (declared a (aterm a i)))\<rparr>"
    and invb: "inv ids b"
  shows "inv_decl ids b"
proof -
  define T where "T = aterm a i"
  have L: "leaderOf a T = Some i" "alog a i = leaderLog a T"
    using invD(4)[OF inv] i unfolding inv_role_def T_def by blast+
  have same: "same_hist a b" by (simp add: same_hist_def b)
  note H = same_histD[OF same]
  have eq: "aterm b = aterm a" "arole b = arole a" "alog b = alog a" "acommit b = (acommit a)(i := k)"
      "declared b = (declared a)(T := k)"
    using inv_declD(1)[OF d i] k by (simp_all add: b T_def)
  have C: "k < length (leaderLog a T)" "committed ids a (take (Suc k) (leaderLog a T)) T"
    using invD(9)[OF invb] i(1) L(2) unfolding inv_commit_def H eq by (auto simp: T_def)
  have le: "declared a U \<le> declared b U" for U
    using inv_declD(1)[OF d i] k by (simp add: eq T_def)
  have term_ne: "aterm a j \<noteq> T" if "j \<in> set ids" "arole a j = Leader" "j \<noteq> i" for j
    using invD(4)[OF inv] that L(1) by (auto simp: inv_role_def)
  show ?thesis
    unfolding inv_decl_def H
  proof (intro conjI ballI allI impI)
    fix j assume "j \<in> set ids" "arole b j = Leader"
    then show "declared b (aterm b j) = acommit b j"
      using inv_declD(1)[OF d] term_ne by (auto simp: eq T_def)
  next
    fix U assume "leaderOf a U \<noteq> None"
    then show "declared b U < length (leaderLog a U)" "committed ids a (take (Suc (declared b U)) (leaderLog a U)) U"
      using inv_declD(2,3)[OF d] C by (auto simp: eq)
  next
    fix j assume j: "j \<in> set ids"
    show "acommit b j = 0 \<or> (\<exists>U \<le> aterm b j. leaderOf a U \<noteq> None \<and> acommit b j \<le> declared b U)"
    proof (cases "j = i")
      case True
      then show ?thesis using L(1) by (intro disjI2 exI[of _ T]) (simp add: eq T_def)
    next
      case False
      then show ?thesis using inv_declD(4)[OF d j] le by (simp add: eq(1,4)) (meson order_trans)
    qed
  qed
qed

lemma decl_step:
  assumes "astep ids a b" and inv: "inv ids a" and d: "inv_decl ids a"
  shows "inv_decl ids b"
proof -
  have h: "hist_ext a b" using astep_aext[OF assms(1) inv] by (simp add: aext_def)
  have invb: "inv ids b" by (rule astep_inv[OF assms(1) inv])
  note keep = decl_ext[OF d h]
  from assms(1) show ?thesis
  proof cases
    case (win i e)
    then show ?thesis using decl_win[OF inv d, of i e] h by simp
  next
    case (commit i k)
    then show ?thesis using decl_commit[OF inv d _ _ _ commit(1) invb] by simp
  next
    case (follow j k)
    then show ?thesis by (intro keep) (auto split: if_splits)
  next
    case (restart i k)
    then show ?thesis by (intro keep) (auto split: if_splits)
  next
    case (propose i e)
    have "leaderOf a (aterm a i) \<noteq> None" using invD(4)[OF inv] propose(2,3) by (auto simp: inv_role_def)
    then show ?thesis using propose by (intro keep) (auto simp: leaderAppend_def Let_def split: if_splits)
  qed (intro keep; force simp: standFor_def castVote_def acceptUpTo_def Let_def split: if_splits)+
qed

lemma areach_decl: "areach ids a \<Longrightarrow> inv_decl ids a"
proof (induction rule: areach.induct)
  case areach_init
  then show ?case by (simp add: inv_decl_def initSpec_def)
next
  case (areach_step a b)
  then show ?case using decl_step areach_inv by blast
qed

subsection \<open>Linearizable reads\<close>

text \<open>
  No later leader: a leader of term \<open>T\<close> that has committed an entry of term \<open>T\<close>, while a majority
  has not moved past \<open>T\<close>, has the highest commit index.
\<close>

lemma no_later_leader:
  assumes inv: "inv ids a" and Q: "is_majority ids Q" "\<forall>p \<in> Q. aterm a p \<le> T" and U: "leaderOf a U \<noteq> None"
  shows "U \<le> T"
proof -
  obtain c P where P: "is_majority ids P" "\<forall>p \<in> P. \<exists>F. ballots a p U = Some (c, F)"
    using invD(8)[OF inv] U unfolding inv_elect_def by blast
  obtain p where "p \<in> P" "p \<in> Q" using maj.quorum_meet[OF P(1) Q(1)] by blast
  then have "U \<le> aterm a p" using P(2) invD(6)[OF inv] unfolding inv_ballot_def by blast
  then show ?thesis using Q(2) \<open>p \<in> Q\<close> by force
qed

lemma read_index_max:
  assumes inv: "inv ids a" and d: "inv_decl ids a" and i: "i \<in> set ids" "arole a i = Leader"
    and t: "eTerm (alog a i ! acommit a i) = aterm a i"
    and Q: "is_majority ids Q" "\<forall>p \<in> Q. aterm a p \<le> aterm a i" and j: "j \<in> set ids"
  shows "acommit a j \<le> acommit a i"
  using inv_declD(4)[OF d j]
proof
  define T where "T = aterm a i"
  have L: "leaderOf a T = Some i" "alog a i = leaderLog a T"
    using invD(4)[OF inv] i unfolding inv_role_def T_def by blast+
  have C: "acommit a i < length (leaderLog a T)" using invD(9)[OF inv] i(1) L(2) by (auto simp: inv_commit_def)
  assume "\<exists>U \<le> aterm a j. leaderOf a U \<noteq> None \<and> acommit a j \<le> declared a U"
  then obtain U where U: "leaderOf a U \<noteq> None" "acommit a j \<le> declared a U" by blast
  have UT: "U \<le> T" using no_later_leader[OF inv Q(1) _ U(1)] Q(2) by (simp add: T_def)
  show ?thesis
  proof (cases "U = T")
    case True
    then show ?thesis using U(2) inv_declD(1)[OF d i] by (simp add: T_def)
  next
    case False
    let ?c = "declared a U"
    have c: "?c < length (leaderLog a U)" by (rule inv_declD(2)[OF d U(1)])
    have "take (Suc ?c) (leaderLog a U) = take (Suc ?c) (leaderLog a T)"
      using committed_in_leader[OF inv inv_declD(3)[OF d U(1)] UT] L(1) c by (simp add: min_absorb1)
    then have "leaderLog a T ! ?c = leaderLog a U ! ?c" "?c < length (leaderLog a T)"
      using c take_eq_nth[of "Suc ?c" "leaderLog a U" "leaderLog a T" ?c]
        take_eq_length[of "Suc ?c" "leaderLog a U" "leaderLog a T"] by auto
    then have "eTerm (leaderLog a T ! ?c) < T"
      using leaderLog_term_le[OF invD(3)[OF inv] U(1) c] False UT by simp
    moreover have "eTerm (leaderLog a T ! acommit a i) = T" using t L(2) by (simp add: T_def)
    moreover have "full_ok (leaderLog a T)" using wfl_full[OF leader_terms(1)[OF inv]] L(1) by simp
    ultimately have "\<not> acommit a i \<le> ?c"
      using full_ok_mono[of "leaderLog a T" "acommit a i" ?c] \<open>?c < length (leaderLog a T)\<close> by linarith
    then show ?thesis using U(2) by simp
  qed
qed simp

end
