(* ===== verification/Raft_System.thy ===== *)
theory Raft_System
  imports Raft_Durable Raft_View Raft_Spec_Reads
begin

text \<open>
  The cluster: the nodes of a fixed configuration, each with its disk and its state machine, and
  the RPCs in flight.  A message stays available after it was sent, so it may be delivered late,
  in any order, several times or never; a response carries the request it answers, which is what
  the calling goroutine holds.  Goroutines may run at any moment: \<open>replicateSend\<close> for any peer and
  every pending vote request.  A node may crash and restart at any moment and comes back with what
  is on its disk.

  Two restrictions are part of the model.  The configuration is fixed: no node handles \<open>AddServer\<close>
  or \<open>RemoveServer\<close>.  And a snapshot is delivered only where it does not cut acknowledged entries
  (\<open>installSafe\<close>), because \<open>HandleInstallSnapshot\<close> drops every entry after the snapshot.
\<close>

subsection \<open>What a node relies on in its state machine\<close>

text \<open>
  \<open>sm\<close> reads the replicated state out of the world of a node and \<open>ap\<close> is the transition of that
  state.  Applying a message is \<open>ap\<close>, peer notifications leave the state alone, and restoring a
  snapshot gives back the state it was taken in.
\<close>

locale replicated_machine =
  fixes sm :: "'w \<Rightarrow> 's" and ap :: "ApplyMsg \<Rightarrow> 's \<Rightarrow> 's" and wf :: "'s \<Rightarrow> bool"
    and apply_msg :: "ApplyMsg \<Rightarrow> 'w \<Rightarrow> 'w" and sn :: "'w Snapshotter"
    and hook :: "addrmap \<Rightarrow> addrmap \<Rightarrow> 'w \<Rightarrow> 'w" and prep :: "'w \<Rightarrow> 'w"
  assumes apply_sm: "sm (apply_msg m w) = ap m (sm w)"
    and hook_sm: "sm (hook p q w) = sm w"
    and prep_sm: "sm (prep w) = sm w"
    and ap_wf: "wf s \<Longrightarrow> wf (ap m s)"
    and snap_data: "Snapshot sn w = Inr data \<Longrightarrow> data \<noteq> []"
    and snap_restore: "wf (sm w) \<Longrightarrow> Snapshot sn w = Inr data \<Longrightarrow>
      fst (Restore sn data w') = None \<and> sm (snd (Restore sn data w')) = sm w"
begin

lemma run_wf: "wf s \<Longrightarrow> wf (fold ap ms s)"
  by (induction ms arbitrary: s) (auto intro: ap_wf)

lemma run_sm: "sm (fold apply_msg ms w) = fold ap ms (sm w)"
  by (induction ms arbitrary: w) (simp_all add: apply_sm)

text \<open>Restoring a snapshot taken in the middle of a run and running on gives the state of the whole run.\<close>

lemma restore_run:
  assumes "wf (sm w)" and "Snapshot sn (fold apply_msg ms w) = Inr data"
  shows "sm (fold apply_msg ms' (snd (Restore sn data w'))) = fold ap (ms @ ms') (sm w)"
  using snap_restore[OF _ assms(2)] run_wf[OF assms(1)] by (simp add: run_sm)

end

subsection \<open>Clusters\<close>

record ('w, 'd, 's) Net =
  cIds :: "string list"
  cBoot :: "string \<Rightarrow> ('w, 'd) Boot"
  cSm :: "'w \<Rightarrow> 's"
  cAp :: "ApplyMsg \<Rightarrow> 's \<Rightarrow> 's"
  cWf :: "'s \<Rightarrow> bool"
  cStart :: 's

text \<open>The state of the machine after the entries \<open>1 \<dots> k\<close> of a log.\<close>

definition msgOf :: "LogEntry \<Rightarrow> ApplyMsg" where
  "msgOf e = \<lparr>amIndex = eIndex e, amCommand = eCommand e\<rparr>"

definition replay :: "('w, 'd, 's) Net \<Rightarrow> LogEntry list \<Rightarrow> nat \<Rightarrow> 's" where
  "replay K F k = fold (\<lambda>e. cAp K (msgOf e)) (take k (tl F)) (cStart K)"

definition represents :: "('w, 'd, 's) Net \<Rightarrow> bytes \<Rightarrow> 's \<Rightarrow> bool" where
  "represents K data s \<longleftrightarrow> (\<forall>i \<in> set (cIds K). \<forall>w.
     fst (Restore (bSnap (cBoot K i)) data w) = None \<and> cSm K (snd (Restore (bSnap (cBoot K i)) data w)) = s)"

text \<open>
  A cluster is set up correctly when every node knows the same members by well-formed names, has a
  working disk of its own and runs the same state machine.
\<close>

definition node_ok :: "('w, 'd, 's) Net \<Rightarrow> string \<Rightarrow> ('w, 'd) Boot \<Rightarrow> bool" where
  "node_ok K i b \<longleftrightarrow> cfgID (bCfg b) = i \<and> map_keys (cfgPeerAddrs (bCfg b)) = cIds K \<and> textual_boot b \<and>
     (\<exists>st. cfgStorage (bCfg b) = Some st \<and> storage_ok st) \<and>
     cfgSnapshotter (bCfg b) = Some (bSnap b) \<and> cSm K (bWorld b) = cStart K \<and>
     replicated_machine (cSm K) (cAp K) (cWf K) (bApply b) (bSnap b) (bHook b) (bSetup b)"

definition net_ok :: "('w, 'd, 's) Net \<Rightarrow> bool" where
  "net_ok K \<longleftrightarrow> '''' \<notin> set (cIds K) \<and> cWf K (cStart K) \<and>
     (\<forall>i \<in> set (cIds K). node_ok K i (cBoot K i)) \<and>
     (\<forall>i \<in> set (cIds K). \<forall>j \<in> set (cIds K). bSnap (cBoot K i) = bSnap (cBoot K j))"

subsection \<open>Messages and states\<close>

datatype msg =
    VoteReq string string RequestVoteRequest
  | VoteResp string string RequestVoteRequest RequestVoteResponse
  | AppReq string string AppendEntriesRequest int
  | AppResp string string AppendEntriesRequest int AppendEntriesResponse
  | HbReq string string AppendEntriesRequest int
  | HbResp string string int AppendEntriesResponse
  | SnapReq string string InstallSnapshotRequest int
  | SnapResp string string InstallSnapshotRequest int InstallSnapshotResponse

record ('w, 'd) Sys =
  nodes :: "string \<Rightarrow> ('w, 'd) RaftNode"
  msgs :: "msg set"

text \<open>Node \<open>i\<close> handles an event and sends the messages \<open>M\<close>.\<close>

definition deliver ::
  "('w, 'd, 's) Net \<Rightarrow> string \<Rightarrow> event \<Rightarrow> msg set \<Rightarrow> ('w, 'd) Sys \<Rightarrow> ('w, 'd) Sys" where
  "deliver K i ev M s =
     s\<lparr>nodes := (nodes s)(i := handle (cBoot K i) ev (nodes s i)), msgs := msgs s \<union> M\<rparr>"

definition installSafe :: "InstallSnapshotRequest \<Rightarrow> ('w, 'd) RaftNode \<Rightarrow> bool" where
  "installSafe req n \<longleftrightarrow> isTerm req < currentTerm n \<or>
     isLastIncludedIndex req \<le> lastIncludedIndexLocked n \<or>
     lastLogIndexLocked n \<le> isLastIncludedIndex req"

text \<open>The events a node handles without a message.\<close>

fun localEvent :: "event \<Rightarrow> bool" where
  "localEvent (EvTick e) = True"
| "localEvent (EvReplicateExit p) = True"
| "localEvent (EvPropose cmd) = True"
| "localEvent EvWaitTerm = True"
| "localEvent EvStop = True"
| "localEvent (EvRestart e) = True"
| "localEvent _ = False"

subsection \<open>Steps\<close>

inductive sys_step :: "('w, 'd, 's) Net \<Rightarrow> ('w, 'd) Sys \<Rightarrow> ('w, 'd) Sys \<Rightarrow> bool" for K where
  local_step: "i \<in> set (cIds K) \<Longrightarrow> localEvent ev \<Longrightarrow> sys_step K s (deliver K i ev {} s)"
| send_vote: "i \<in> set (cIds K) \<Longrightarrow> SendRequestVote p req \<in> set (goroutines (nodes s i)) \<Longrightarrow>
     sys_step K s (s\<lparr>msgs := insert (VoteReq i p req) (msgs s)\<rparr>)"
| recv_vote: "VoteReq c j req \<in> msgs s \<Longrightarrow> j \<in> set (cIds K) \<Longrightarrow>
     HandleRequestVote e req (nodes s j) = (resp, n) \<Longrightarrow>
     sys_step K s (deliver K j (EvVote e req) {VoteResp j c req resp} s)"
| recv_vote_resp: "VoteResp j c req resp \<in> msgs s \<Longrightarrow> c \<in> set (cIds K) \<Longrightarrow>
     sys_step K s (deliver K c (EvVoteResp e j req resp) {} s)"
| send_append: "i \<in> set (cIds K) \<Longrightarrow> p \<in> set (cIds K) \<Longrightarrow> p \<noteq> i \<Longrightarrow>
     replicateSend p (nodes s i) = (CallAppend req t, n) \<Longrightarrow>
     sys_step K s (deliver K i (EvReplicate p) {AppReq i p req t} s)"
| send_snapshot: "i \<in> set (cIds K) \<Longrightarrow> p \<in> set (cIds K) \<Longrightarrow> p \<noteq> i \<Longrightarrow>
     replicateSend p (nodes s i) = (CallInstall isreq t, n) \<Longrightarrow>
     sys_step K s (deliver K i (EvReplicate p) {SnapReq i p isreq t} s)"
| send_nothing: "i \<in> set (cIds K) \<Longrightarrow> p \<in> set (cIds K) \<Longrightarrow> p \<noteq> i \<Longrightarrow>
     replicateSend p (nodes s i) = (CallNone, n) \<Longrightarrow>
     sys_step K s (deliver K i (EvReplicate p) {} s)"
| send_heartbeat: "i \<in> set (cIds K) \<Longrightarrow> p \<in> set (cIds K) \<Longrightarrow> p \<noteq> i \<Longrightarrow>
     confirmSend t (nodes s i) = Some req \<Longrightarrow>
     sys_step K s (s\<lparr>msgs := insert (HbReq i p req t) (msgs s)\<rparr>)"
| recv_append: "AppReq l j req t \<in> msgs s \<Longrightarrow> j \<in> set (cIds K) \<Longrightarrow>
     HandleAppendEntries e req (nodes s j) = (aresp, n) \<Longrightarrow>
     sys_step K s (deliver K j (EvAppend e req) {AppResp j l req t aresp} s)"
| recv_heartbeat: "HbReq l j req t \<in> msgs s \<Longrightarrow> j \<in> set (cIds K) \<Longrightarrow>
     HandleAppendEntries e req (nodes s j) = (aresp, n) \<Longrightarrow>
     sys_step K s (deliver K j (EvAppend e req) {HbResp j l t aresp} s)"
| recv_append_resp: "AppResp j l req t aresp \<in> msgs s \<Longrightarrow> l \<in> set (cIds K) \<Longrightarrow>
     sys_step K s (deliver K l (EvAppendResp e j req t aresp) {} s)"
| recv_heartbeat_resp: "HbResp j l t aresp \<in> msgs s \<Longrightarrow> l \<in> set (cIds K) \<Longrightarrow>
     sys_step K s (deliver K l (EvConfirmResp e t aresp) {} s)"
| recv_snapshot: "SnapReq l j isreq t \<in> msgs s \<Longrightarrow> j \<in> set (cIds K) \<Longrightarrow> installSafe isreq (nodes s j) \<Longrightarrow>
     HandleInstallSnapshot e isreq (nodes s j) = (iresp, n) \<Longrightarrow>
     sys_step K s (deliver K j (EvInstall e isreq) {SnapResp j l isreq t iresp} s)"
| recv_snapshot_resp: "SnapResp j l isreq t iresp \<in> msgs s \<Longrightarrow> l \<in> set (cIds K) \<Longrightarrow>
     sys_step K s (deliver K l (EvInstallResp e j isreq t iresp) {} s)"

text \<open>Initially every node has been started on an empty disk and no message was sent.\<close>

definition sys_init :: "('w, 'd, 's) Net \<Rightarrow> ('w, 'd) Sys \<Rightarrow> bool" where
  "sys_init K s \<longleftrightarrow> msgs s = {} \<and>
     (\<forall>i \<in> set (cIds K). \<exists>e d st ds. cfgStorage (bCfg (cBoot K i)) = Some st \<and> Load st d = Inr ds \<and>
        \<not> hasDurable ds \<and> nodes s i = boot (cBoot K i) e d)"

inductive reach :: "('w, 'd, 's) Net \<Rightarrow> ('w, 'd) Sys \<Rightarrow> bool" for K where
  reach_init: "sys_init K s \<Longrightarrow> reach K s"
| reach_step: "reach K s \<Longrightarrow> sys_step K s s' \<Longrightarrow> reach K s'"

end
