(* ===== verification/Raft_Refine_Base.thy ===== *)
theory Raft_Refine_Base
  imports Raft_System
begin

text \<open>
  The relation between a node and the abstract protocol, the validity of messages in an abstract
  state, and how both survive abstract steps.
\<close>

subsection \<open>Steps on behalf of one node\<close>

definition others :: "string \<Rightarrow> Spec \<Rightarrow> Spec \<Rightarrow> bool" where
  "others i a b \<longleftrightarrow> (\<forall>j. j \<noteq> i \<longrightarrow> aterm b j = aterm a j \<and> avote b j = avote a j \<and> arole b j = arole a j \<and>
     alog b j = alog a j \<and> acommit b j = acommit a j \<and> avotes b j = avotes a j \<and> amatch b j = amatch a j)"

inductive reaches :: "string list \<Rightarrow> string \<Rightarrow> Spec \<Rightarrow> Spec \<Rightarrow> bool" for ids i where
  reaches_refl: "reaches ids i a a"
| reaches_step: "reaches ids i a b \<Longrightarrow> astep ids b c \<Longrightarrow> others i b c \<Longrightarrow> reaches ids i a c"

lemma reaches_one: "astep ids a b \<Longrightarrow> others i a b \<Longrightarrow> reaches ids i a b"
  by (rule reaches_step[OF reaches_refl])

lemma reaches_trans [trans]: "reaches ids i b c \<Longrightarrow> reaches ids i a b \<Longrightarrow> reaches ids i a c"
  by (induction rule: reaches.induct) (auto intro: reaches.intros)

lemma reaches_inv: "reaches ids i a b \<Longrightarrow> inv ids a \<Longrightarrow> inv ids b"
  by (induction rule: reaches.induct) (auto intro: astep_inv)

lemma reaches_areach: "reaches ids i a b \<Longrightarrow> areach ids a \<Longrightarrow> areach ids b"
  by (induction rule: reaches.induct) (auto intro: areach_step)

lemma reaches_aext: "reaches ids i a b \<Longrightarrow> inv ids a \<Longrightarrow> aext a b"
proof (induction rule: reaches.induct)
  case (reaches_step a b c)
  then show ?case using astep_aext reaches_inv aext_trans by blast
qed simp

lemma reaches_others: "reaches ids i a b \<Longrightarrow> others i a b"
  by (induction rule: reaches.induct) (auto simp: others_def)

subsection \<open>Valid messages\<close>

definition vote_req_ok :: "Spec \<Rightarrow> string \<Rightarrow> RequestVoteRequest \<Rightarrow> bool" where
  "vote_req_ok a c req \<longleftrightarrow> rvCandidateID req = c \<and>
     (\<exists>G. candLog a c (rvTerm req) = Some G \<and> rvLastLogIndex req = int (length G) - 1 \<and>
        rvLastLogTerm req = eTerm (last G))"

definition append_ok :: "string list \<Rightarrow> Spec \<Rightarrow> string \<Rightarrow> AppendEntriesRequest \<Rightarrow> int \<Rightarrow> bool" where
  "append_ok ids a l req t \<longleftrightarrow> aeTerm req = t \<and> leaderOf a t = Some l \<and>
     (\<exists>prev m c. aePrevLogIndex req = int prev \<and> prev + m < length (leaderLog a t) \<and>
        aePrevLogTerm req = eTerm (leaderLog a t ! prev) \<and>
        aeEntries req = take m (drop (Suc prev) (leaderLog a t)) \<and>
        aeLeaderCommit req = int c \<and> c \<le> prev + m \<and> c \<le> declared a t \<and>
        committed ids a (take (Suc c) (leaderLog a t)) t)"

definition snap_ok :: "('w, 'd, 's) Net \<Rightarrow> Spec \<Rightarrow> string \<Rightarrow> InstallSnapshotRequest \<Rightarrow> int \<Rightarrow> bool" where
  "snap_ok K a l req t \<longleftrightarrow> isTerm req = t \<and> leaderOf a t = Some l \<and>
     (\<exists>k. isLastIncludedIndex req = int k \<and> 0 < k \<and> k < length (leaderLog a t) \<and> k \<le> declared a t \<and>
        isLastIncludedTerm req = eTerm (leaderLog a t ! k) \<and>
        committed (cIds K) a (take (Suc k) (leaderLog a t)) t) \<and>
     map_keys (isPeers req) = cIds K \<and> valid_map (isPeers req) \<and> valid_map (isHTTP req) \<and> isData req \<noteq> [] \<and>
     represents K (isData req) (replay K (leaderLog a t) (nat (isLastIncludedIndex req)))"

fun msg_ok :: "('w, 'd, 's) Net \<Rightarrow> Spec \<Rightarrow> msg \<Rightarrow> bool" where
  "msg_ok K a (VoteReq c j req) \<longleftrightarrow> c \<in> set (cIds K) \<and> vote_req_ok a c req"
| "msg_ok K a (VoteResp j c req resp) \<longleftrightarrow> j \<in> set (cIds K) \<and>
     (rvrVoteGranted resp \<longrightarrow> (\<exists>F. ballots a j (rvTerm req) = Some (c, F)))"
| "msg_ok K a (AppReq l j req t) \<longleftrightarrow> append_ok (cIds K) a l req t"
| "msg_ok K a (AppResp j l req t resp) \<longleftrightarrow> j \<in> set (cIds K) \<and> (aerSuccess resp \<longrightarrow>
     0 \<le> aePrevLogIndex req \<and> aePrevLogIndex req + int (length (aeEntries req)) \<le> int (accepted a j t))"
| "msg_ok K a (HbReq l j req t) \<longleftrightarrow> append_ok (cIds K) a l req t"
| "msg_ok K a (HbResp j l t resp) \<longleftrightarrow> True"
| "msg_ok K a (SnapReq l j req t) \<longleftrightarrow> snap_ok K a l req t"
| "msg_ok K a (SnapResp j l req t resp) \<longleftrightarrow> j \<in> set (cIds K) \<and> (isrTerm resp \<le> t \<longrightarrow>
     0 \<le> isLastIncludedIndex req \<and> isLastIncludedIndex req \<le> int (accepted a j t))"

lemma vote_req_ok_ext: "aext a b \<Longrightarrow> vote_req_ok a c req \<Longrightarrow> vote_req_ok b c req"
  unfolding aext_def vote_req_ok_def by blast

lemma replay_prefix: "take (Suc k) F = take (Suc k) G \<Longrightarrow> replay K F k = replay K G k"
  by (drule arg_cong[where f = tl]) (simp add: replay_def tl_take)

lemma declared_ext: "aext a b \<Longrightarrow> leaderOf a t = Some l \<Longrightarrow> declared a t \<le> declared b t"
  by (simp add: aext_def)

lemma append_ok_ext:
  assumes "aext a b" and "append_ok ids a l req t"
  shows "append_ok ids b l req t"
proof -
  have h: "hist_ext a b" using assms(1) by (simp add: aext_def)
  from assms(2) obtain prev m c where t: "aeTerm req = t" "leaderOf a t = Some l"
    and r: "aePrevLogIndex req = int prev" "prev + m < length (leaderLog a t)"
      "aePrevLogTerm req = eTerm (leaderLog a t ! prev)" "aeEntries req = take m (drop (Suc prev) (leaderLog a t))"
      "aeLeaderCommit req = int c" "c \<le> prev + m" "committed ids a (take (Suc c) (leaderLog a t)) t"
    and dc: "c \<le> declared a t"
    unfolding append_ok_def by blast
  have "c \<le> declared b t" using declared_ext[OF assms(1) t(2)] dc by simp
  obtain xs where b: "leaderOf b t = Some l" "leaderLog b t = leaderLog a t @ xs"
    using h t(2) unfolding hist_ext_def by (metis option.distinct(1))
  then have "committed ids b (take (Suc c) (leaderLog b t)) t"
    using committed_ext[OF h r(7) order_refl] r by simp
  with \<open>c \<le> declared b t\<close> show ?thesis
    unfolding append_ok_def using t(1) b r
    by (intro conjI exI[of _ prev] exI[of _ m] exI[of _ c]) (simp_all add: nth_append)
qed

lemma snap_ok_ext:
  assumes "aext a b" and "snap_ok K a l req t"
  shows "snap_ok K b l req t"
proof -
  have h: "hist_ext a b" using assms(1) by (simp add: aext_def)
  from assms(2) obtain k where t: "isTerm req = t" "leaderOf a t = Some l"
    and r: "isLastIncludedIndex req = int k" "0 < k" "k < length (leaderLog a t)"
        "isLastIncludedTerm req = eTerm (leaderLog a t ! k)"
        "committed (cIds K) a (take (Suc k) (leaderLog a t)) t"
    and dk: "k \<le> declared a t"
    and d: "map_keys (isPeers req) = cIds K" "valid_map (isPeers req)" "valid_map (isHTTP req)" "isData req \<noteq> []"
        "represents K (isData req) (replay K (leaderLog a t) k)"
    unfolding snap_ok_def by auto
  obtain xs where b: "leaderOf b t = Some l" "leaderLog b t = leaderLog a t @ xs"
    using h t(2) unfolding hist_ext_def by (metis option.distinct(1))
  have p: "take (Suc k) (leaderLog b t) = take (Suc k) (leaderLog a t)" using b r(3) by simp
  then have "committed (cIds K) b (take (Suc k) (leaderLog b t)) t"
    using committed_ext[OF h r(5) order_refl] by simp
  moreover have "k \<le> declared b t" using declared_ext[OF assms(1) t(2)] dk by simp
  ultimately show ?thesis
    unfolding snap_ok_def using t(1) b r d replay_prefix[OF p, of K]
    by (intro conjI exI[of _ k]) (simp_all add: nth_append)
qed

lemma accepted_ext: "aext a b \<Longrightarrow> accepted a p T \<le> accepted b p T"
  by (simp add: aext_def hist_ext_def)

lemma msg_ok_ext:
  assumes "aext a b" and "msg_ok K a m"
  shows "msg_ok K b m"
proof (cases m)
  case (VoteResp j c req resp)
  then show ?thesis using assms unfolding aext_def by auto
next
  case (AppResp j l req t resp)
  then show ?thesis using assms(2) accepted_ext[OF assms(1), of j t] by auto
next
  case (SnapResp j l req t resp)
  then show ?thesis using assms(2) accepted_ext[OF assms(1), of j t] by auto
qed (use assms in \<open>auto intro: vote_req_ok_ext append_ok_ext snap_ok_ext\<close>)

subsection \<open>A node and its abstract counterpart\<close>

text \<open>The configuration of a node never changes.\<close>

definition conf :: "('w, 'd, 's) Net \<Rightarrow> string \<Rightarrow> ('w, 'd) RaftNode \<Rightarrow> bool" where
  "conf K i n \<longleftrightarrow> nid n = i \<and> peerIDs n = cIds K \<and> map_keys (peerAddrs n) = cIds K \<and>
     map_keys (basePeers n) = cIds K \<and> apply_fn n = Some (bApply (cBoot K i)) \<and>
     peerHook n = Some (bHook (cBoot K i)) \<and> snapshotter n = Some (bSnap (cBoot K i))"

text \<open>
  The node keeps the log above its snapshot, has applied a committed prefix of it, and its snapshot
  represents the state after the entries it replaces.
\<close>

definition kept :: "('w, 'd, 's) Net \<Rightarrow> LogEntry list \<Rightarrow> ('w, 'd) RaftNode \<Rightarrow> bool" where
  "kept K F n \<longleftrightarrow> (\<exists>b. keeps n F b \<and> int b \<le> lastApplied n \<and> lastApplied n \<le> commitIndex n \<and>
     commitIndex n < int (length F) \<and>
     cSm K (world n) = replay K F (nat (lastApplied n)) \<and> (snapshot n = [] \<longleftrightarrow> b = 0) \<and>
     (0 < b \<longrightarrow> represents K (snapshot n) (replay K F b)))"

definition voteName :: "string option \<Rightarrow> string" where
  "voteName v = (case v of None \<Rightarrow> '''' | Some c \<Rightarrow> c)"

definition rel :: "('w, 'd, 's) Net \<Rightarrow> string \<Rightarrow> Spec \<Rightarrow> ('w, 'd) RaftNode \<Rightarrow> bool" where
  "rel K i a n \<longleftrightarrow> conf K i n \<and> currentTerm n = aterm a i \<and> state n = arole a i \<and>
     votedFor n = voteName (avote a i) \<and> avote a i \<noteq> Some '''' \<and>
     commitIndex n = int (acommit a i) \<and> kept K (alog a i) n \<and>
     (state n = Candidate \<longrightarrow> {p. map_has (votesReceived n) p} = avotes a i) \<and>
     (state n = Leader \<longrightarrow> (\<forall>p. map_get 0 (matchIndex n) p = int (amatch a i p))) \<and>
     (\<forall>p req. (p, req) \<in> voteCalls n \<longrightarrow> vote_req_ok a i req)"

lemma relD:
  assumes "rel K i a n"
  shows "conf K i n" "currentTerm n = aterm a i" "state n = arole a i"
    "votedFor n = voteName (avote a i)" "avote a i \<noteq> Some ''''" "commitIndex n = int (acommit a i)"
    "kept K (alog a i) n"
    "state n = Candidate \<Longrightarrow> {p. map_has (votesReceived n) p} = avotes a i"
    "state n = Leader \<Longrightarrow> map_get 0 (matchIndex n) p = int (amatch a i p)"
    "(p, req) \<in> voteCalls n \<Longrightarrow> vote_req_ok a i req"
  using assms by (auto simp: rel_def)

lemma confD:
  assumes "conf K i n"
  shows "nid n = i" "peerIDs n = cIds K" "map_keys (peerAddrs n) = cIds K" "map_keys (basePeers n) = cIds K"
    "apply_fn n = Some (bApply (cBoot K i))" "peerHook n = Some (bHook (cBoot K i))"
    "snapshotter n = Some (bSnap (cBoot K i))"
  using assms by (auto simp: conf_def)

text \<open>A step of another node.\<close>

lemma rel_others:
  assumes "rel K i a n" and "others j a b" and "i \<noteq> j" and "aext a b"
  shows "rel K i b n"
  using assms vote_req_ok_ext[OF assms(4)] unfolding rel_def others_def by (metis (no_types, lifting))

text \<open>A change of fields the relation does not read.\<close>

lemma kept_cong:
  "rlog m = rlog n \<Longrightarrow> lastApplied m = lastApplied n \<Longrightarrow> commitIndex m = commitIndex n \<Longrightarrow>
   cSm K (world m) = cSm K (world n) \<Longrightarrow> snapshot m = snapshot n \<Longrightarrow> kept K F m = kept K F n"
  by (simp add: kept_def keeps_def)

lemma rel_quiet:
  assumes "rel K i a n" and "conf K i n \<Longrightarrow> conf K i m"
    and "currentTerm m = currentTerm n" "state m = state n" "votedFor m = votedFor n"
    "commitIndex m = commitIndex n" "rlog m = rlog n" "lastApplied m = lastApplied n"
    "cSm K (world m) = cSm K (world n)" "snapshot m = snapshot n"
    and "votesReceived m = votesReceived n" "matchIndex m = matchIndex n" "voteCalls m = voteCalls n"
  shows "rel K i a m"
  using assms(1,2) kept_cong[OF assms(7,8,6,9,10)] unfolding rel_def assms(3-6,11-13) by simp

lemma kept_last:
  assumes "kept K F n"
  shows "lastLogIndexLocked n = int (length F) - 1" "lastLogTermLocked n = eTerm (last F)"
  using assms keeps_last unfolding kept_def by blast+

end
