(* ===== verification/Raft_Refine_Apply.thy ===== *)
theory Raft_Refine_Apply
  imports Raft_Refine_Base
begin

text \<open>
  Applying committed entries and compacting the log do not change the abstract state.
\<close>

subsection \<open>Replaying a log\<close>

lemma replay_0 [simp]: "replay K F 0 = cStart K"
  by (simp add: replay_def)

lemma replay_Suc:
  assumes "Suc k < length F"
  shows "replay K F (Suc k) = cAp K (msgOf (F ! Suc k)) (replay K F k)"
proof -
  have "k < length (tl F)" and "tl F ! k = F ! Suc k" using assms by (auto simp: nth_tl)
  then show ?thesis by (simp add: replay_def take_Suc_conv_app_nth)
qed

lemma net_node:
  assumes "net_ok K" and "i \<in> set (cIds K)"
  shows "node_ok K i (cBoot K i)"
  using assms by (simp add: net_ok_def)

lemma node_machine:
  "node_ok K i b \<Longrightarrow> replicated_machine (cSm K) (cAp K) (cWf K) (bApply b) (bSnap b) (bHook b) (bSetup b)"
  by (simp add: node_ok_def)

lemma replay_wf:
  assumes "net_ok K" and "i \<in> set (cIds K)"
  shows "cWf K (replay K F k)"
proof -
  have "cWf K s \<Longrightarrow> cWf K (fold (\<lambda>e. cAp K (msgOf e)) es s)" for es s
    by (induction es arbitrary: s)
      (auto intro: replicated_machine.ap_wf[OF node_machine[OF net_node[OF assms]]])
  then show ?thesis using assms(1) by (simp add: replay_def net_ok_def)
qed

lemma represents_snapshot:
  assumes K: "net_ok K" and i: "i \<in> set (cIds K)"
    and s: "cWf K (cSm K w)" "Snapshot (bSnap (cBoot K i)) w = Inr data"
  shows "represents K data (cSm K w)" and "data \<noteq> []"
proof -
  note m = node_machine[OF net_node[OF K i]]
  have "bSnap (cBoot K j) = bSnap (cBoot K i)" if "j \<in> set (cIds K)" for j
    using K i that unfolding net_ok_def by blast
  then show "represents K data (cSm K w)"
    using replicated_machine.snap_restore[OF m s] unfolding represents_def by simp
  show "data \<noteq> []" by (rule replicated_machine.snap_data[OF m s(2)])
qed

subsection \<open>Applying\<close>

lemma kept_applyEntry:
  assumes K: "net_ok K" "i \<in> set (cIds K)" and c: "conf K i n" and k: "kept K F n"
    and next': "lastApplied n < commitIndex n" "entryAtLocked n (lastApplied n + 1) = Some e"
  shows "kept K F (applyEntry e (lastApplied n + 1) n)"
proof -
  from k obtain b where b: "keeps n F b" "int b \<le> lastApplied n" "commitIndex n < int (length F)"
      "cSm K (world n) = replay K F (nat (lastApplied n))" "snapshot n = [] \<longleftrightarrow> b = 0"
      "0 < b \<longrightarrow> represents K (snapshot n) (replay K F b)"
    unfolding kept_def by blast
  define l where "l = nat (lastApplied n)"
  have l: "lastApplied n = int l" "Suc l < length F" using b(2,3) next'(1) by (auto simp: l_def)
  then have e: "e = F ! Suc l"
    using keeps_entryAt[OF b(1), of "lastApplied n + 1"] next'(2) b(2) by (auto simp: nat_add_distrib split: if_splits)
  have "eIndex e = int (Suc l)" "eChange e = None"
    using keepsD(2)[OF b(1)] l(2) by (auto simp: e full_ok_def)
  then have "cSm K (world (applyEntry e (lastApplied n + 1) n)) = cAp K (msgOf e) (cSm K (world n))"
    using confD(5)[OF c] replicated_machine.apply_sm[OF node_machine[OF net_node[OF K]]] l(1)
    by (simp add: applyEntry_def msgOf_def add.commute)
  also have "\<dots> = replay K F (nat (lastApplied n + 1))"
    using b(4) replay_Suc[OF l(2), of K] by (simp add: e l(1) nat_add_distrib)
  finally show ?thesis
    unfolding kept_def using b next'(1) by (intro exI[of _ b]) (simp add: applyEntry_def keeps_def)
qed

lemma rel_applyEntry:
  assumes K: "net_ok K" "i \<in> set (cIds K)" and r: "rel K i a n"
    and next': "lastApplied n < commitIndex n" "entryAtLocked n (lastApplied n + 1) = Some e"
  shows "rel K i a (applyEntry e (lastApplied n + 1) n)"
  using kept_applyEntry[OF K relD(1,7)[OF r] next'] r
  by (auto simp: rel_def conf_def applyEntry_def voteCalls_def)

lemma rel_applyLoop:
  assumes "net_ok K" "i \<in> set (cIds K)" and "rel K i a n"
  shows "rel K i a (applyLoop n)"
  using assms(3)
proof (induction n rule: applyLoop.induct)
  case (1 n)
  then show ?case
    using rel_applyEntry[OF assms(1,2)] by (subst applyLoop.simps) (auto simp: Let_def split: option.split)
qed

subsection \<open>Membership without changes\<close>

lemma tl_view_changes: "full_ok F \<Longrightarrow> \<forall>e \<in> set (tl (view F b)). eChange e = None"
  by (auto simp: view_def full_ok_def dest: in_set_dropD)

lemma rebuildMembership_static:
  assumes "rlog n = view F b" and "full_ok F"
  shows "peerAddrs (rebuildMembershipLocked n) = basePeers n"
    and "peerIDs (rebuildMembershipLocked n) = map_keys (basePeers n)"
  using fold_applyEntryChange_none[OF tl_view_changes[OF assms(2)], of b] assms(1)
  by (simp_all add: rebuildMembershipLocked_def rebuildPeerIDsLocked_def cloneStringMap_def Let_def)

lemma membershipAt_static:
  assumes "rlog n = view F b" and "full_ok F"
  shows "membershipAtLocked n i = (basePeers n, baseHTTP n)"
proof -
  have "\<forall>e \<in> set (takeWhile p (tl (rlog n))). eChange e = None" for p
    using tl_view_changes[OF assms(2), of b] assms(1) by (auto dest: set_takeWhileD)
  then show ?thesis
    by (simp add: membershipAtLocked_def cloneStringMap_def fold_applyEntryChange_none)
qed

lemma notify_sm:
  assumes "net_ok K" "i \<in> set (cIds K)" and "peerHook n = Some (bHook (cBoot K i))"
  shows "cSm K (world (notifyPeersLocked n)) = cSm K (world n)"
  using replicated_machine.hook_sm[OF node_machine[OF net_node[OF assms(1,2)]]] assms(3)
  by (simp add: notifyPeersLocked_def)

subsection \<open>Compacting\<close>

lemma rel_compact:
  assumes K: "net_ok K" "i \<in> set (cIds K)" and r: "rel K i a n"
  shows "rel K i a (compactLocked (lastApplied n) n)"
proof -
  note c = confD[OF relD(1)[OF r]]
  let ?F = "alog a i"
  from relD(7)[OF r] obtain b where b: "keeps n ?F b" "int b \<le> lastApplied n" "lastApplied n \<le> commitIndex n"
      "commitIndex n < int (length ?F)" "cSm K (world n) = replay K ?F (nat (lastApplied n))"
    unfolding kept_def by blast
  note kb = keepsD[OF b(1)]
  define k where "k = nat (lastApplied n)"
  have k: "lastApplied n = int k" "b \<le> k" "k < length ?F" using b by (auto simp: k_def)
  show ?thesis
  proof (cases "b = k \<or> (\<exists>err. Snapshot (bSnap (cBoot K i)) (world n) = Inl err)")
    case True
    then show ?thesis
      using r c(7) k keeps_base(1)[OF b(1)] by (auto simp: compactLocked_def split: option.split sum.split)
  next
    case False
    then obtain data where data: "Snapshot (bSnap (cBoot K i)) (world n) = Inr data" and bk: "b < k"
      using k(2) by (cases "Snapshot (bSnap (cBoot K i)) (world n)") auto
    have e: "entryAtLocked n (lastApplied n) = Some (?F ! k)"
      using keeps_entryAt[OF b(1), of "int k"] k bk by simp
    have si: "sliceIndexLocked n (lastApplied n) = int k - int b"
      using kb(1) k(1) by (simp add: sliceIndexLocked_def view_def dummyAt_def)
    have len: "int k - int b < int (length (rlog n))"
      using kb(3) k by (simp add: kb(1) length_view of_nat_diff)
    define n1 where "n1 = n\<lparr>rlog := view ?F k, snapshot := data\<rparr>"
    have n1: "compactLocked (lastApplied n) n =
        persistLocked (notifyPeersLocked (rebuildMembershipLocked n1))"
      using bk c(7) k(1) keeps_base(1)[OF b(1)] e si len data
        view_compact[OF k(2,3), folded kb(1)] membershipAt_static[OF kb(1,2)]
      by (simp add: compactLocked_def Let_def n1_def dummyAt_def)
    have sm: "cSm K (world (notifyPeersLocked (rebuildMembershipLocked n1))) = cSm K (world n)"
      using notify_sm[OF K, of "rebuildMembershipLocked n1"] c(6) by (simp add: n1_def)
    have "represents K data (replay K ?F k)" "data \<noteq> []"
      using represents_snapshot[OF K _ data] replay_wf[OF K] b(5) by (simp_all add: k_def)
    then have "kept K ?F (compactLocked (lastApplied n) n)"
      unfolding kept_def n1 using b k bk kb sm by (intro exI[of _ k]) (simp add: keeps_def n1_def)
    moreover have "conf K i (compactLocked (lastApplied n) n)"
      unfolding conf_def n1 using c rebuildMembership_static[of n1 ?F k] kb(2) by (simp add: n1_def)
    ultimately show ?thesis using r by (simp add: rel_def voteCalls_def)
  qed
qed

lemma rel_applyCommitted:
  assumes "net_ok K" "i \<in> set (cIds K)" and "rel K i a n"
  shows "rel K i a (applyCommittedLocked n)"
  using rel_compact[OF assms(1,2) rel_applyLoop[OF assms]] rel_applyLoop[OF assms]
  by (simp add: applyCommittedLocked_def maybeCompactLocked_def Let_def)

end
