(* ===== verification/Raft_Refine_Roles.thy ===== *)
theory Raft_Refine_Roles
  imports Raft_Refine_Apply
begin

text \<open>
  Changes of role: stepping down, standing for election, voting, counting votes, winning, and the
  advance of a leader's commit index, each as a sequence of abstract steps.
\<close>

text \<open>\<open>sims K i a m\<close>: the abstract state can move, for node \<open>i\<close> only, to one related to \<open>m\<close>.\<close>

definition sims :: "('w, 'd, 's) Net \<Rightarrow> string \<Rightarrow> Spec \<Rightarrow> ('w, 'd) RaftNode \<Rightarrow> bool" where
  "sims K i a m \<longleftrightarrow> (\<exists>b. reaches (cIds K) i a b \<and> rel K i b m)"

lemma sims_refl: "rel K i a m \<Longrightarrow> sims K i a m"
  unfolding sims_def by (blast intro: reaches_refl)

lemma sims_step: "reaches (cIds K) i a b \<Longrightarrow> sims K i b m \<Longrightarrow> sims K i a m"
  unfolding sims_def by (blast intro: reaches_trans)

lemma sims_bind:
  assumes "sims K i a m" and "inv (cIds K) a"
    and "\<And>b. reaches (cIds K) i a b \<Longrightarrow> inv (cIds K) b \<Longrightarrow> rel K i b m \<Longrightarrow> sims K i b m'"
  shows "sims K i a m'"
  using assms reaches_inv sims_step unfolding sims_def by meson

lemma sims_map:
  assumes "sims K i a m" and "\<And>b. rel K i b m \<Longrightarrow> rel K i b m'"
  shows "sims K i a m'"
  using assms unfolding sims_def by blast

subsection \<open>Stepping down\<close>

lemma rel_follower:
  assumes r: "rel K i a n" and i: "i \<in> set (cIds K)" and t: "currentTerm n \<le> t"
  shows "sims K i a (becomeFollowerLocked t l n)"
proof -
  define b where "b = (if currentTerm n < t
     then a\<lparr>aterm := (aterm a)(i := t), avote := (avote a)(i := None), arole := (arole a)(i := Follower)\<rparr>
     else a\<lparr>arole := (arole a)(i := Follower)\<rparr>)"
  have "astep (cIds K) a b"
    unfolding b_def using relD(2)[OF r] raise_term[OF i, of a t] step_down[OF i, of a] by auto
  moreover have "others i a b" by (simp add: b_def others_def)
  ultimately have "reaches (cIds K) i a b" by (rule reaches_one)
  moreover have "vote_req_ok b i req = vote_req_ok a i req" for req
    by (simp add: b_def vote_req_ok_def)
  then have "rel K i b (becomeFollowerLocked t l n)"
    using r t kept_cong[of "becomeFollowerLocked t l n" n K] unfolding rel_def
    by (auto simp: b_def conf_def voteName_def voteCalls_def max_def)
  ultimately show ?thesis unfolding sims_def by blast
qed

lemma rel_reset: "rel K i a n \<Longrightarrow> rel K i a (resetElectionTimerLocked e n)"
  by (rule rel_quiet) (auto simp: conf_def voteCalls_def)

lemma rel_stepDown:
  assumes "rel K i a n" and "i \<in> set (cIds K)" and "currentTerm n \<le> t"
  shows "sims K i a (stepDown e t n)"
  unfolding stepDown_def by (rule sims_map[OF rel_follower[OF assms] rel_reset])

lemma rel_persist: "rel K i a n \<Longrightarrow> rel K i a (persistLocked n)"
  by (rule rel_quiet) (auto simp: conf_def voteCalls_def)

lemma rel_broadcast: "rel K i a n \<Longrightarrow> rel K i a (broadcastAppendEntriesLocked n)"
  by (rule rel_quiet) (auto simp: conf_def)

subsection \<open>The commit index of a leader\<close>

lemma advanceLoop_spec:
  "advanceLoop idx n = n \<or>
   (\<exists>k. commitIndex n < k \<and> k \<le> idx \<and> termAtLocked n k = Some (currentTerm n) \<and>
        majority n \<le> matchCount n k \<and> advanceLoop idx n = n\<lparr>commitIndex := k\<rparr>)"
proof (induction idx n rule: advanceLoop.induct)
  case (1 idx n)
  show ?case
  proof (cases "commitIndex n < idx")
    case False
    then show ?thesis by (subst advanceLoop.simps) simp
  next
    case True
    show ?thesis
    proof (cases "termAtLocked n idx = Some (currentTerm n) \<and> majority n \<le> matchCount n idx")
      case commit: True
      then have "advanceLoop idx n = n\<lparr>commitIndex := idx\<rparr>"
        using True by (subst advanceLoop.simps) simp
      then show ?thesis using True commit by blast
    next
      case False
      then have eq: "advanceLoop idx n = advanceLoop (idx - 1) n"
        using True by (subst advanceLoop.simps) auto
      have "advanceLoop (idx - 1) n = n \<or>
         (\<exists>k. commitIndex n < k \<and> k \<le> idx - 1 \<and> termAtLocked n k = Some (currentTerm n) \<and>
              majority n \<le> matchCount n k \<and> advanceLoop (idx - 1) n = n\<lparr>commitIndex := k\<rparr>)"
        using "1.IH"(1)[OF True] "1.IH"(2)[OF True] False by (cases "termAtLocked n idx = Some (currentTerm n)") simp_all
      then show ?thesis
      proof
        assume "\<exists>k. commitIndex n < k \<and> k \<le> idx - 1 \<and> termAtLocked n k = Some (currentTerm n) \<and>
              majority n \<le> matchCount n k \<and> advanceLoop (idx - 1) n = n\<lparr>commitIndex := k\<rparr>"
        then obtain k where "commitIndex n < k" "k \<le> idx - 1" "termAtLocked n k = Some (currentTerm n)"
            "majority n \<le> matchCount n k" "advanceLoop (idx - 1) n = n\<lparr>commitIndex := k\<rparr>" by blast
        then show ?thesis using eq by (intro disjI2 exI[of _ k]) simp
      qed (simp add: eq)
    qed
  qed
qed

lemma matchCount_card:
  assumes "conf K i n" and "net_ok K" "i \<in> set (cIds K)"
    and "\<And>p. map_get 0 (matchIndex n) p = int (f p)" and "majority n \<le> matchCount n (int k)"
  shows "is_majority (cIds K) {p \<in> set (cIds K). k \<le> f p}"
proof -
  have d: "distinct (cIds K)" using confD(3)[OF assms(1)] distinct_map_keys by metis
  have "matchCount n (int k) = int (card (set (filter (\<lambda>p. k \<le> f p) (cIds K))))"
    using distinct_card[OF distinct_filter[OF d]] by (simp add: matchCount_def confD(2)[OF assms(1)] assms(4))
  then show ?thesis
    using assms(5) d by (simp add: is_majority_def majority_def confD(2)[OF assms(1)] distinct_card)
qed

lemma rel_advance:
  assumes K: "net_ok K" "i \<in> set (cIds K)" and r: "rel K i a n" and L: "state n = Leader"
  shows "sims K i a (advanceCommitLocked n)"
proof -
  consider "advanceCommitLocked n = n"
    | k where "commitIndex n < k" "k \<le> lastLogIndexLocked n" "termAtLocked n k = Some (currentTerm n)"
        "majority n \<le> matchCount n k" "advanceCommitLocked n = n\<lparr>commitIndex := k\<rparr>"
    using advanceLoop_spec[of "lastLogIndexLocked n" n] unfolding advanceCommitLocked_def by blast
  then show ?thesis
  proof cases
    case 1
    then show ?thesis using r by (simp add: sims_refl)
  next
    case (2 k)
    from relD(7)[OF r] obtain b where kb: "keeps n (alog a i) b" and bl: "int b \<le> lastApplied n"
        "lastApplied n \<le> commitIndex n" unfolding kept_def by blast
    define j where "j = nat k"
    have j: "k = int j" "acommit a i < j" "j < length (alog a i)"
      using 2(1,2) relD(6)[OF r] keeps_last(1)[OF kb] by (auto simp: j_def)
    have t: "eTerm (alog a i ! j) = aterm a i"
      using 2(3) relD(2)[OF r] j keeps_termAt[OF kb, of k] by (simp split: if_splits)
    have maj: "is_majority (cIds K) {p \<in> set (cIds K). j \<le> amatch a i p}"
      using matchCount_card[OF relD(1)[OF r] K relD(9)[OF r L]] 2(4) j(1) by simp
    let ?b = "a\<lparr>acommit := (acommit a)(i := j),
                declared := (declared a)(aterm a i := max j (declared a (aterm a i)))\<rparr>"
    have "astep (cIds K) a ?b"
      using astep.commit[OF K(2) _ j(2,3) t maj] relD(3)[OF r] L by simp
    then have "reaches (cIds K) i a ?b" by (rule reaches_one) (simp add: others_def)
    moreover have "kept K (alog a i) (n\<lparr>commitIndex := k\<rparr>)"
      using relD(7)[OF r] 2(1) j(1,3) unfolding kept_def keeps_def by auto
    then have "rel K i ?b (advanceCommitLocked n)"
      using r j(1) unfolding rel_def 2(5) by (simp add: conf_def voteCalls_def vote_req_ok_def)
    ultimately show ?thesis unfolding sims_def by blast
  qed
qed

lemma rel_advance_apply:
  assumes K: "net_ok K" "i \<in> set (cIds K)" and r: "rel K i a n" and L: "state n = Leader"
  shows "sims K i a (applyCommittedLocked (advanceCommitLocked n))"
  by (rule sims_map[OF rel_advance[OF assms] rel_applyCommitted[OF K]])

subsection \<open>Becoming leader\<close>

lemma replay_append: "k < length F \<Longrightarrow> replay K (F @ es) k = replay K F k"
  by (rule replay_prefix) simp

lemma kept_snoc:
  assumes "kept K F n" and "rlog m = rlog n @ [e]" and "full_ok (F @ [e])"
    and "lastApplied m = lastApplied n" "commitIndex m = commitIndex n" "world m = world n" "snapshot m = snapshot n"
  shows "kept K (F @ [e]) m"
proof -
  from assms(1) obtain b where b: "keeps n F b" "int b \<le> lastApplied n" "lastApplied n \<le> commitIndex n"
      "commitIndex n < int (length F)" "cSm K (world n) = replay K F (nat (lastApplied n))"
      "snapshot n = [] \<longleftrightarrow> b = 0" "0 < b \<longrightarrow> represents K (snapshot n) (replay K F b)"
    unfolding kept_def by blast
  have "replay K (F @ [e]) b = replay K F b" "replay K (F @ [e]) (nat (lastApplied n)) = replay K F (nat (lastApplied n))"
    using b(2-4) by (auto intro: replay_append)
  then show ?thesis
    unfolding kept_def using b keeps_snoc[OF b(1) assms(2,3)] by (intro exI[of _ b]) (simp add: assms(4-7))
qed

lemma fold_trackFresh_match:
  "map_get 0 (matchIndex (fold (trackFresh l) ps n)) p = (if p \<in> set ps then 0 else map_get 0 (matchIndex n) p)"
  by (induction ps arbitrary: n) (auto simp: trackFresh_def)

lemma inv_full: "inv ids a \<Longrightarrow> i \<in> set ids \<Longrightarrow> full_ok (alog a i)"
  using invD(2) by (auto simp: inv_log_def wfl_def)

lemma inv_snoc_full:
  assumes "inv ids a" and "i \<in> set ids" and e: "eTerm e = aterm a i" "eIndex e = int (length (alog a i))" "eChange e = None"
  shows "full_ok (alog a i @ [e])"
proof -
  have "\<forall>x \<in> set (alog a i). eTerm x \<le> aterm a i" using invD(1)[OF assms(1)] assms(2) by (simp add: inv_term_def)
  then show ?thesis
    using full_ok_snoc[OF inv_full[OF assms(1,2)], of e] full_ok_nonempty[OF inv_full[OF assms(1,2)]] e by simp
qed

lemma rel_leader:
  assumes K: "net_ok K" "i \<in> set (cIds K)" and inv: "inv (cIds K) a" and r: "rel K i a n"
    and C: "state n = Candidate" and maj: "is_majority (cIds K) (avotes a i)"
  shows "sims K i a (becomeLeaderLocked n)"
proof -
  note c = confD[OF relD(1)[OF r]]
  define n1 where "n1 = n\<lparr>state := Leader, leaderID := nid n,
                 nextIndex := fmempty, matchIndex := fmempty, replicating := fmempty\<rparr>"
  define noop where "noop = noopEntry n1"
  define n2 where "n2 = fold (trackFresh (lastLogIndexLocked n1)) (peerIDs n1) n1"
  define n3 where "n3 = n2\<lparr>rlog := rlog n2 @ [noop],
                  matchIndex := fmupd (nid n2) (eIndex noop) (matchIndex n2),
                  nextIndex := fmupd (nid n2) (eIndex noop + 1) (nextIndex n2), nextHeartbeat := 0\<rparr>"
  have last: "lastLogIndexLocked n1 = int (length (alog a i)) - 1"
    using kept_last(1)[OF relD(7)[OF r]] by (simp add: n1_def lastLogIndexLocked_def)
  have e: "eTerm noop = aterm a i" "eIndex noop = int (length (alog a i))" "eChange noop = None"
    using last relD(2)[OF r] by (simp_all add: noop_def noopEntry_def) (simp add: n1_def)
  let ?b = "electLeader i noop a"
  have "astep (cIds K) a ?b"
    using win[OF K(2) _ maj e] relD(3)[OF r] C by simp
  then have R: "reaches (cIds K) i a ?b"
    by (rule reaches_one) (simp add: others_def electLeader_def Let_def)
  have n3: "rlog n3 = rlog n @ [noop]" "lastApplied n3 = lastApplied n" "commitIndex n3 = commitIndex n"
      "world n3 = world n" "snapshot n3 = snapshot n" "currentTerm n3 = currentTerm n" "votedFor n3 = votedFor n"
      "state n3 = Leader" "voteCalls n3 = voteCalls n" "conf K i n3"
    using relD(1)[OF r] by (simp_all add: n3_def n2_def n1_def voteCalls_def conf_def)
  have match: "map_get 0 (matchIndex n3) p = int (amatch ?b i p)" for p
    using e(2) c(1) by (simp add: n3_def n2_def n1_def fold_trackFresh_match electLeader_def Let_def)
  have "kept K (alog a i @ [noop]) n3"
    by (rule kept_snoc[OF relD(7)[OF r] n3(1) inv_snoc_full[OF inv K(2) e] n3(2-5)])
  then have "rel K i ?b n3"
    using r n3(6-10) match unfolding rel_def n3(3)
    by (simp add: electLeader_def Let_def vote_req_ok_def)
  then have "sims K i ?b (broadcastAppendEntriesLocked (applyCommittedLocked (advanceCommitLocked (persistLocked n3))))"
    by (intro sims_map[OF rel_advance_apply[OF K rel_persist] rel_broadcast]) (simp_all add: n3(8))
  moreover have "becomeLeaderLocked n =
      broadcastAppendEntriesLocked (applyCommittedLocked (advanceCommitLocked (persistLocked n3)))"
    unfolding becomeLeaderLocked_def Let_def n1_def n2_def n3_def noop_def by (rule refl)
  ultimately show ?thesis using sims_step[OF R] by simp
qed

subsection \<open>Standing for election\<close>

lemma votes_majority:
  assumes "conf K i n" and "{p. map_has (votesReceived n) p} = Q" and "Q \<subseteq> set (cIds K)"
    and "majority n \<le> map_len (votesReceived n)"
  shows "is_majority (cIds K) Q"
proof -
  have d: "distinct (cIds K)" using confD(3)[OF assms(1)] distinct_map_keys by metis
  have "map_len (votesReceived n) = int (card Q)"
    using distinct_card[OF distinct_map_keys, of "votesReceived n"] assms(2) by (simp add: map_len_def)
  then show ?thesis
    using assms(3,4) d by (simp add: is_majority_def majority_def confD(2)[OF assms(1)] distinct_card)
qed

lemma rel_stand:
  fixes e :: Env
  assumes K: "net_ok K" "i \<in> set (cIds K)" and inv: "inv (cIds K) a" and r: "rel K i a n"
  defines "n1 \<equiv> persistLocked (resetElectionTimerLocked e
     (n\<lparr>state := Candidate, currentTerm := currentTerm n + 1, votedFor := nid n,
        leaderID := '''', votesReceived := fmupd (nid n) True fmempty\<rparr>))"
  shows "reaches (cIds K) i a (standFor i a)" and "rel K i (standFor i a) n1"
    and "vote_req_ok (standFor i a) i (voteRequest n1)"
proof -
  note c = confD[OF relD(1)[OF r]]
  let ?b = "standFor i a"
  show reach: "reaches (cIds K) i a ?b"
    by (rule reaches_one[OF stand[OF K(2)]]) (simp add: others_def standFor_def Let_def)
  have "i \<noteq> ''''" using K by (auto simp: net_ok_def)
  moreover have "kept K (alog a i) n1"
    using relD(7)[OF r] kept_cong[of n1 n K] by (simp add: n1_def)
  moreover have "vote_req_ok ?b i req" if "(p, req) \<in> voteCalls n1" for p req
    using that relD(10)[OF r] vote_req_ok_ext[OF aext_stand[OF inv]] by (auto simp: voteCalls_def n1_def)
  ultimately show "rel K i ?b n1"
    using r unfolding rel_def
    by (auto simp: n1_def conf_def voteName_def standFor_def Let_def)
  have "lastLogIndexLocked n1 = lastLogIndexLocked n" "lastLogTermLocked n1 = lastLogTermLocked n"
    by (simp_all add: n1_def lastLogIndexLocked_def lastLogTermLocked_def)
  then show "vote_req_ok ?b i (voteRequest n1)"
    using c relD(2)[OF r] kept_last[OF relD(7)[OF r]]
    by (simp add: vote_req_ok_def voteRequest_def n1_def standFor_def Let_def)
qed

lemma rel_startElection:
  assumes K: "net_ok K" "i \<in> set (cIds K)" and inv: "inv (cIds K) a" and r: "rel K i a n"
  shows "sims K i a (startElectionLocked e n)"
proof (cases "joining n \<or> \<not> isVoterLocked n")
  case True
  then show ?thesis using r by (simp add: startElectionLocked_def sims_refl rel_reset)
next
  case False
  define n1 where "n1 = persistLocked (resetElectionTimerLocked e
     (n\<lparr>state := Candidate, currentTerm := currentTerm n + 1, votedFor := nid n,
        leaderID := '''', votesReceived := fmupd (nid n) True fmempty\<rparr>))"
  let ?b = "standFor i a"
  have S: "reaches (cIds K) i a ?b" "rel K i ?b n1" "vote_req_ok ?b i (voteRequest n1)"
    unfolding n1_def by (rule rel_stand[OF K inv r])+
  have inv': "inv (cIds K) ?b" by (rule inv_stand[OF inv K(2)])
  have "sims K i ?b (startElectionLocked e n)"
  proof (cases "map_len (votesReceived n1) \<ge> majority n1")
    case True
    have "{p. map_has (votesReceived n1) p} = avotes ?b i"
      by (rule relD(8)[OF S(2)]) (simp add: n1_def)
    moreover have "avotes ?b i \<subseteq> set (cIds K)" using K(2) by (simp add: standFor_def Let_def)
    ultimately have "is_majority (cIds K) (avotes ?b i)"
      using votes_majority[OF relD(1)[OF S(2)]] True by blast
    then have "sims K i ?b (becomeLeaderLocked n1)"
      by (intro rel_leader[OF K inv' S(2)]) (simp_all add: n1_def)
    then show ?thesis using False True by (simp add: startElectionLocked_def Let_def n1_def)
  next
    case more: False
    let ?m = "n1\<lparr>goroutines := goroutines n1 @
                   map (\<lambda>p. SendRequestVote p (voteRequest n1)) (filter (\<lambda>p. p \<noteq> nid n1) (peerIDs n1))\<rparr>"
    have "vote_req_ok ?b i req" if "(p, req) \<in> voteCalls ?m" for p req
      using that S(3) relD(10)[OF S(2)] by (auto simp: voteCalls_def)
    then have "rel K i ?b ?m"
      using S(2) kept_cong[of ?m n1 K] unfolding rel_def by (auto simp: conf_def)
    then show ?thesis using False more by (simp add: startElectionLocked_def Let_def n1_def sims_refl)
  qed
  then show ?thesis by (rule sims_step[OF S(1)])
qed

subsection \<open>Voting\<close>

lemma rel_vote:
  assumes K: "net_ok K" "j \<in> set (cIds K)" and r: "rel K j a n"
    and req: "vote_req_ok a c req" "c \<in> set (cIds K)" and t: "currentTerm n = rvTerm req"
    and v: "votedFor n = '''' \<or> votedFor n = rvCandidateID req"
    and u: "isLogUpToDateLocked n (rvLastLogIndex req) (rvLastLogTerm req)"
    and inv: "inv (cIds K) a"
  shows "\<exists>b. reaches (cIds K) j a b \<and>
      rel K j b (persistLocked (resetElectionTimerLocked e (n\<lparr>votedFor := rvCandidateID req\<rparr>))) \<and>
      (\<exists>F. ballots b j (rvTerm req) = Some (c, F))"
proof -
  from req(1) obtain G where G: "rvCandidateID req = c" "candLog a c (rvTerm req) = Some G"
      "rvLastLogIndex req = int (length G) - 1" "rvLastLogTerm req = eTerm (last G)"
    unfolding vote_req_ok_def by blast
  have c: "c \<noteq> ''''" using K(1) req(2) by (auto simp: net_ok_def)
  let ?b = "castVote j c a" and ?m = "persistLocked (resetElectionTimerLocked e (n\<lparr>votedFor := rvCandidateID req\<rparr>))"
  have up: "upToDate G (alog a j)"
    using u kept_last[OF relD(7)[OF r]] G(3,4)
    by (auto simp: isLogUpToDateLocked_def upToDate_def Let_def split: if_splits)
  have av: "avote a j = None \<or> avote a j = Some c"
    using v relD(4,5)[OF r] c G(1) by (cases "avote a j") (auto simp: voteName_def)
  have R: "reaches (cIds K) j a ?b"
    by (rule reaches_one[OF astep.vote[OF K(2) req(2) av _ up]])
      (use G(2) t relD(2)[OF r] in \<open>simp_all add: others_def castVote_def Let_def\<close>)
  have "vote_req_ok ?b j q = vote_req_ok a j q" for q
    by (simp add: vote_req_ok_def castVote_def Let_def)
  moreover have "kept K (alog a j) ?m"
    using relD(7)[OF r] kept_cong[of ?m n K] by simp
  ultimately have "rel K j ?b ?m"
    using r c G(1) unfolding rel_def by (auto simp: conf_def voteName_def voteCalls_def castVote_def Let_def)
  moreover have "\<exists>F. ballots ?b j (rvTerm req) = Some (c, F)"
  proof (cases "ballots a j (rvTerm req)")
    case None
    then show ?thesis using t relD(2)[OF r] by (simp add: castVote_def Let_def)
  next
    case (Some x)
    obtain c' F where x: "x = (c', F)" by (cases x)
    then have "avote a j = Some c'"
      using Some t relD(2)[OF r] invD(6)[OF inv] unfolding inv_ballot_def by metis
    then show ?thesis using av Some x by (auto simp: castVote_def Let_def)
  qed
  ultimately show ?thesis using R by blast
qed

lemma rel_HandleRequestVote:
  assumes K: "net_ok K" "j \<in> set (cIds K)" and inv: "inv (cIds K) a" and r: "rel K j a n"
    and req: "vote_req_ok a c req" "c \<in> set (cIds K)"
  shows "\<exists>b. reaches (cIds K) j a b \<and> rel K j b (snd (HandleRequestVote e req n)) \<and>
     (rvrVoteGranted (fst (HandleRequestVote e req n)) \<longrightarrow> (\<exists>F. ballots b j (rvTerm req) = Some (c, F)))"
proof (cases "rvTerm req < currentTerm n")
  case True
  then show ?thesis using r by (intro exI[of _ a]) (simp add: HandleRequestVote_def reaches_refl)
next
  case False
  define n1 where "n1 = (if rvTerm req > currentTerm n then becomeFollowerLocked (rvTerm req) '''' n else n)"
  have "sims K j a n1"
    unfolding n1_def using rel_follower[OF r K(2), of "rvTerm req"] sims_refl[OF r] by simp
  then obtain a1 where a1: "reaches (cIds K) j a a1" "rel K j a1 n1" unfolding sims_def by blast
  have inv1: "inv (cIds K) a1" by (rule reaches_inv[OF a1(1) inv])
  have req1: "vote_req_ok a1 c req" by (rule vote_req_ok_ext[OF reaches_aext[OF a1(1) inv] req(1)])
  have t1: "currentTerm n1 = rvTerm req" using False by (simp add: n1_def)
  show ?thesis
  proof (cases "(votedFor n1 = '''' \<or> votedFor n1 = rvCandidateID req) \<and>
      isLogUpToDateLocked n1 (rvLastLogIndex req) (rvLastLogTerm req)")
    case True
    then obtain b where b: "reaches (cIds K) j a1 b"
        "rel K j b (persistLocked (resetElectionTimerLocked e (n1\<lparr>votedFor := rvCandidateID req\<rparr>)))"
        "\<exists>F. ballots b j (rvTerm req) = Some (c, F)"
      using rel_vote[OF K a1(2) req1 req(2) t1 _ _ inv1, of e] by blast
    then show ?thesis
      using True False reaches_trans[OF b(1) a1(1)]
      by (intro exI[of _ b]) (simp add: HandleRequestVote_def Let_def n1_def[symmetric])
  next
    case no: False
    then show ?thesis
      using False a1 by (intro exI[of _ a1]) (auto simp: HandleRequestVote_def Let_def n1_def[symmetric])
  qed
qed

subsection \<open>Counting votes\<close>

lemma rel_requestVoteResp:
  assumes K: "net_ok K" "c \<in> set (cIds K)" and inv: "inv (cIds K) a" and r: "rel K c a n"
    and j: "j \<in> set (cIds K)" and g: "rvrVoteGranted resp \<Longrightarrow> \<exists>F. ballots a j (rvTerm req) = Some (c, F)"
  shows "sims K c a (requestVoteResp e j req resp n)"
proof (cases "rvrTerm resp > currentTerm n")
  case True
  then show ?thesis using rel_stepDown[OF r K(2)] by (simp add: requestVoteResp_def)
next
  case False
  show ?thesis
  proof (cases "state n = Candidate \<and> currentTerm n = rvTerm req \<and> rvrVoteGranted resp")
    case skip: False
    then show ?thesis using r False by (auto simp: requestVoteResp_def sims_refl)
  next
    case True
    then obtain F where F: "ballots a j (aterm a c) = Some (c, F)" using g relD(2)[OF r] by auto
    let ?b = "a\<lparr>avotes := (avotes a)(c := insert j (avotes a c))\<rparr>"
    define n1 where "n1 = n\<lparr>votesReceived := fmupd j True (votesReceived n)\<rparr>"
    have R: "reaches (cIds K) c a ?b"
      using True relD(3)[OF r] by (intro reaches_one count[OF K(2) j _ F]) (simp_all add: others_def)
    have inv': "inv (cIds K) ?b" by (rule reaches_inv[OF R inv])
    have k1: "kept K (alog a c) n1" using relD(7)[OF r] kept_cong[of n1 n K] by (simp add: n1_def)
    have v1: "{p. map_has (votesReceived n1) p} = insert j (avotes a c)"
      using relD(8)[OF r] True by (auto simp: n1_def)
    have r1: "rel K c ?b n1"
      using r k1 v1 unfolding rel_def by (auto simp: n1_def conf_def voteCalls_def vote_req_ok_def)
    have "sims K c ?b (if map_len (votesReceived n1) \<ge> majority n1 then becomeLeaderLocked n1 else n1)"
    proof (cases "map_len (votesReceived n1) \<ge> majority n1")
      case maj: True
      have "avotes ?b c \<subseteq> set (cIds K)"
        using invD(5)[OF inv] K(2) j True relD(3)[OF r] by (simp add: inv_cand_def)
      then have "is_majority (cIds K) (avotes ?b c)"
        using votes_majority[OF relD(1)[OF r1] _ _ maj] v1 by simp
      then show ?thesis using maj rel_leader[OF K inv' r1] True by (simp add: n1_def)
    qed (simp add: sims_refl[OF r1])
    then have "sims K c ?b (requestVoteResp e j req resp n)"
      using True False by (simp add: requestVoteResp_def Let_def n1_def[symmetric])
    then show ?thesis by (rule sims_step[OF R])
  qed
qed

subsection \<open>The ticker\<close>

lemma rel_tick:
  assumes K: "net_ok K" "i \<in> set (cIds K)" and inv: "inv (cIds K) a" and r: "rel K i a n"
  shows "sims K i a (tick e n)"
proof -
  have hb: "rel K i a (broadcastAppendEntriesLocked (n\<lparr>nextHeartbeat := t\<rparr>))" for t
    by (intro rel_broadcast rel_quiet[OF r]) (auto simp: conf_def voteCalls_def)
  show ?thesis
    unfolding tick_def using hb sims_refl[OF r] rel_startElection[OF K inv r]
    by (intro sims_map[OF _ rel_applyCommitted[OF K]]) (auto split: State.split intro: sims_refl)
qed

end
