(* ===== verification/Raft_Refine_Append.thy ===== *)
theory Raft_Refine_Append
  imports Raft_Refine_Roles
begin

text \<open>
  Replication: the requests a leader sends are slices of its log, a follower that accepts one
  performs the abstract merge, and a leader that records an acknowledgement may advance its commit
  index.
\<close>

subsection \<open>Requests\<close>

lemma leader_facts:
  assumes "inv (cIds K) a" and "inv_decl (cIds K) a" and "rel K i a n" and "i \<in> set (cIds K)" and "state n = Leader"
  shows "leaderOf a (aterm a i) = Some i" "leaderLog a (aterm a i) = alog a i"
    "acommit a i < length (alog a i)" "committed (cIds K) a (take (Suc (acommit a i)) (alog a i)) (aterm a i)"
    "declared a (aterm a i) = acommit a i"
  using invD(4,9)[OF assms(1)] relD(3)[OF assms(3)] inv_declD(1)[OF assms(2)] assms(4,5)
  by (auto simp: inv_role_def inv_commit_def)

lemma append_ok_slice:
  assumes inv: "inv (cIds K) a" "inv_decl (cIds K) a" and r: "rel K i a n" and i: "i \<in> set (cIds K)"
    and L: "state n = Leader" and req: "aeTerm req = currentTerm n" "aePrevLogIndex req = int prev" "prev < length (alog a i)"
      "aePrevLogTerm req = eTerm (alog a i ! prev)" "aeEntries req = drop (Suc prev) (alog a i)"
      "aeLeaderCommit req = commitIndex n"
  shows "append_ok (cIds K) a i req (currentTerm n)"
proof -
  note F = leader_facts[OF inv r i L]
  let ?m = "length (alog a i) - Suc prev"
  have "aeEntries req = take ?m (drop (Suc prev) (alog a i))" using req(5) by simp
  then show ?thesis
    unfolding append_ok_def using req F relD(2,6)[OF r]
    by (intro conjI exI[of _ prev] exI[of _ ?m] exI[of _ "acommit a i"]) auto
qed

lemma makeAppend_ok:
  assumes inv: "inv (cIds K) a" "inv_decl (cIds K) a" and r: "rel K i a n" and i: "i \<in> set (cIds K)"
    and L: "state n = Leader" and m: "makeAppendRequestLocked p n = (Some (req, t), n')"
  shows "append_ok (cIds K) a i req t"
proof -
  from relD(7)[OF r] obtain b where b: "keeps n (alog a i) b" unfolding kept_def by blast
  note kb = keepsD[OF b]
  define next1 where "next1 = (if map_get 0 (nextIndex n) p > lastLogIndexLocked n + 1
     then lastLogIndexLocked n + 1 else map_get 0 (nextIndex n) p)"
  define n1 where "n1 = (if map_get 0 (nextIndex n) p > lastLogIndexLocked n + 1
     then n\<lparr>nextIndex := fmupd p next1 (nextIndex n)\<rparr> else n)"
  have n1: "rlog n1 = rlog n" "currentTerm n1 = currentTerm n" "nid n1 = nid n" "commitIndex n1 = commitIndex n"
    by (simp_all add: n1_def)
  have b1: "keeps n1 (alog a i) b" using b n1(1) by (simp add: keeps_def)
  have lo: "int b < next1"
    using m keeps_base(1)[OF b] keeps_last(1)[OF b] kb(3)
    by (auto simp: makeAppendRequestLocked_def Let_def next1_def split: if_splits)
  have hi: "next1 \<le> int (length (alog a i))" using keeps_last(1)[OF b] by (simp add: next1_def)
  define k where "k = nat next1"
  have k: "next1 = int k" "b < k" "k \<le> length (alog a i)" using lo hi by (auto simp: k_def)
  have tm: "termAtLocked n1 (next1 - 1) = Some (eTerm (alog a i ! (k - 1)))"
    using keeps_termAt[OF b1, of "next1 - 1"] k by (simp add: nat_diff_distrib')
  have slice: "sliceIndexLocked n1 next1 = int (k - b)"
    using keeps_base(1)[OF b1] k by (simp add: sliceIndexLocked_def lastIncludedIndexLocked_def of_nat_diff)
  have len: "int (k - b) \<le> int (length (rlog n1))" using k by (simp add: n1(1) kb(1) length_view[OF kb(3)])
  have req: "aeTerm req = currentTerm n" "aePrevLogIndex req = int (k - 1)"
      "aePrevLogTerm req = eTerm (alog a i ! (k - 1))" "aeEntries req = drop (k - b) (rlog n)"
      "aeLeaderCommit req = commitIndex n" "t = currentTerm n"
    using m lo keeps_base(1)[OF b] tm slice len k n1
    unfolding makeAppendRequestLocked_def Let_def next1_def[symmetric] n1_def[symmetric]
    by (auto split: if_splits simp: of_nat_diff nat_diff_distrib')
  moreover have "drop (k - b) (rlog n) = drop (Suc (k - 1)) (alog a i)"
    using keeps_slice[OF b k(2,3)] k(2) by simp
  ultimately show ?thesis
    using append_ok_slice[OF inv r i L req(1,2) _ req(3) _ req(5)] k by simp
qed

lemma confirm_ok:
  assumes inv: "inv (cIds K) a" "inv_decl (cIds K) a" and r: "rel K i a n" and i: "i \<in> set (cIds K)"
    and m: "confirmSend t n = Some req"
  shows "append_ok (cIds K) a i req t"
proof -
  have L: "state n = Leader" and t: "t = currentTerm n" and req: "req = confirmHeartbeatLocked n"
    using m by (auto simp: confirmSend_def split: if_splits)
  have ne: "alog a i \<noteq> []" using full_ok_nonempty[OF inv_full[OF inv(1) i]] .
  show ?thesis
    unfolding t using kept_last[OF relD(7)[OF r]] ne
    by (intro append_ok_slice[OF inv r i L, of req "length (alog a i) - 1"])
      (simp_all add: req confirmHeartbeatLocked_def of_nat_diff Suc_le_eq last_conv_nth)
qed

lemma install_ok:
  assumes K: "net_ok K" and inv: "inv (cIds K) a" "inv_decl (cIds K) a" and r: "rel K i a n"
    and i: "i \<in> set (cIds K)" and t: "textual n" and L: "state n = Leader" and s: "shouldInstallSnapshotLocked p n"
  shows "snap_ok K a i (installSnapshotRequestLocked n) (currentTerm n)"
proof -
  note F = leader_facts[OF inv r i L]
  from relD(7)[OF r] obtain b where b: "keeps n (alog a i) b" "int b \<le> lastApplied n" "lastApplied n \<le> commitIndex n"
      "snapshot n = [] \<longleftrightarrow> b = 0" "0 < b \<longrightarrow> represents K (snapshot n) (replay K (alog a i) b)"
    unfolding kept_def by blast
  have b0: "0 < b" using s keeps_base(1)[OF b(1)] by (simp add: shouldInstallSnapshotLocked_def Let_def)
  have bc: "b \<le> acommit a i" using b(2,3) relD(6)[OF r] by simp
  then have "committed (cIds K) a (take (Suc b) (alog a i)) (aterm a i)"
    using committed_take[OF F(4), of "Suc b"] F(3) by (simp add: min_def)
  then show ?thesis
    unfolding snap_ok_def using F b b0 bc textualD(4,5)[OF t] keeps_base[OF b(1)] relD(2)[OF r] confD(4)[OF relD(1)[OF r]]
    by (intro conjI exI[of _ b]) (simp_all add: installSnapshotRequestLocked_def cloneStringMap_def)
qed

lemma rel_nextIndex: "rel K i a n \<Longrightarrow> rel K i a (n\<lparr>nextIndex := x\<rparr>)"
  by (rule rel_quiet) (auto simp: conf_def voteCalls_def)

lemma rel_makeAppend: "rel K i a n \<Longrightarrow> rel K i a (snd (makeAppendRequestLocked p n))"
  using rel_nextIndex[of K i a n] by (auto simp: makeAppendRequestLocked_def Let_def split: option.split)

lemma rel_replicateSend: "rel K i a n \<Longrightarrow> rel K i a (snd (replicateSend p n))"
  using rel_makeAppend[of K i a n p] by (auto simp: replicateSend_def split: prod.split option.split)

lemma replicateSend_append_ok:
  assumes "inv (cIds K) a" and "inv_decl (cIds K) a" and "rel K i a n" and "i \<in> set (cIds K)"
    and "replicateSend p n = (CallAppend req t, n')"
  shows "append_ok (cIds K) a i req t"
  using assms makeAppend_ok[OF assms(1-4)]
  by (auto simp: replicateSend_def split: if_splits prod.splits option.splits)

lemma replicateSend_install_ok:
  assumes "net_ok K" and "inv (cIds K) a" and "inv_decl (cIds K) a" and "rel K i a n" and "i \<in> set (cIds K)"
    and "textual n" and "replicateSend p n = (CallInstall req t, n')"
  shows "snap_ok K a i req t"
  using assms install_ok[OF assms(1-6)]
  by (auto simp: replicateSend_def split: if_splits prod.splits option.splits)

subsection \<open>Accepting entries\<close>

text \<open>The log of a follower changes, its committed prefix does not.\<close>

lemma committed_prefix_same:
  assumes inv: "inv ids a" "inv ids b" and x: "aext a b" and j: "j \<in> set ids"
    and c: "acommit b j = acommit a j"
  shows "take (Suc (acommit a j)) (alog b j) = take (Suc (acommit a j)) (alog a j)"
proof -
  have A: "acommit a j < length (alog a j)" "committed ids a (take (Suc (acommit a j)) (alog a j)) (aterm a j)"
    and B: "acommit b j < length (alog b j)" "committed ids b (take (Suc (acommit b j)) (alog b j)) (aterm b j)"
    using invD(9)[OF inv(1)] invD(9)[OF inv(2)] j by (auto simp: inv_commit_def)
  have A': "committed ids b (take (Suc (acommit a j)) (alog a j)) (aterm a j)"
    using committed_ext[OF _ A(2) order_refl] x by (simp add: aext_def)
  show ?thesis
    using A(1) B(1) c committed_agree[OF inv(2) B(2) A'] by (intro nth_equalityI) auto
qed

lemma kept_relog:
  assumes k: "kept K F n" and p: "take (Suc c) G = take (Suc c) F" and c: "commitIndex n = int c"
    and G: "full_ok G" "c < length G"
    and m: "\<And>b. keeps n F b \<Longrightarrow> int b \<le> lastApplied n \<Longrightarrow> rlog m = view G b"
    and same: "lastApplied m = lastApplied n" "commitIndex m = commitIndex n"
      "cSm K (world m) = cSm K (world n)" "snapshot m = snapshot n"
  shows "kept K G m"
proof -
  from k obtain b where b: "keeps n F b" "int b \<le> lastApplied n" "lastApplied n \<le> commitIndex n"
      "cSm K (world n) = replay K F (nat (lastApplied n))"
      "snapshot n = [] \<longleftrightarrow> b = 0" "0 < b \<longrightarrow> represents K (snapshot n) (replay K F b)"
    unfolding kept_def by blast
  have "replay K G l = replay K F l" if "l \<le> c" for l
    using take_eq_mono[OF p] that by (intro replay_prefix) simp
  then have "replay K G b = replay K F b" "replay K G (nat (lastApplied n)) = replay K F (nat (lastApplied n))"
    using b(2,3) c by auto
  then show ?thesis
    unfolding kept_def using b c G m[OF b(1,2)] by (intro exI[of _ b]) (simp add: same keeps_def)
qed

lemma kept_merge:
  assumes k: "kept K F n" and rm: "rlog m = rlog (snd (mergeEntries es (int (Suc prev)) n))"
    and e: "entryAtLocked n (int prev) = Some e" and es: "indexed (Suc prev) es"
    and p: "take (Suc c) (mergeFull F (Suc prev) es) = take (Suc c) F" and c: "commitIndex n = int c"
    and G: "full_ok (mergeFull F (Suc prev) es)" "c < length (mergeFull F (Suc prev) es)"
    and same: "lastApplied m = lastApplied n" "commitIndex m = commitIndex n"
      "cSm K (world m) = cSm K (world n)" "snapshot m = snapshot n"
  shows "kept K (mergeFull F (Suc prev) es) m"
proof (rule kept_relog[OF k p c G _ same])
  fix b assume b: "keeps n F b" "int b \<le> lastApplied n"
  then have "b < Suc prev" "Suc prev \<le> length F"
    using e keeps_entryAt[OF b(1), of "int prev"] keepsD(3)[OF b(1)] by (auto split: if_splits)
  then show "rlog m = view (mergeFull F (Suc prev) es) b"
    unfolding rm by (rule mergeEntries_view[OF b(1) _ _ es])
qed

text \<open>The part of the receiver between the consistency check and the commit index.\<close>

definition mergePersist :: "LogEntry list \<Rightarrow> int \<Rightarrow> ('w, 'd) RaftNode \<Rightarrow> ('w, 'd) RaftNode" where
  "mergePersist es i n = (if fst (mergeEntries es i n)
     then persistLocked (notifyPeersLocked (rebuildMembershipLocked (snd (mergeEntries es i n))))
     else snd (mergeEntries es i n))"

lemma mergePersist_frame:
  "nid (mergePersist es i n) = nid n" "basePeers (mergePersist es i n) = basePeers n"
  "apply_fn (mergePersist es i n) = apply_fn n" "peerHook (mergePersist es i n) = peerHook n"
  "snapshotter (mergePersist es i n) = snapshotter n" "currentTerm (mergePersist es i n) = currentTerm n"
  "state (mergePersist es i n) = state n" "votedFor (mergePersist es i n) = votedFor n"
  "commitIndex (mergePersist es i n) = commitIndex n" "lastApplied (mergePersist es i n) = lastApplied n"
  "snapshot (mergePersist es i n) = snapshot n" "votesReceived (mergePersist es i n) = votesReceived n"
  "matchIndex (mergePersist es i n) = matchIndex n" "goroutines (mergePersist es i n) = goroutines n"
  "rlog (mergePersist es i n) = rlog (snd (mergeEntries es i n))"
  by (simp_all add: mergePersist_def)

lemma mergePersist_sm:
  assumes "net_ok K" "i \<in> set (cIds K)" and "peerHook n = Some (bHook (cBoot K i))"
  shows "cSm K (world (mergePersist es k n)) = cSm K (world n)"
  using notify_sm[OF assms(1,2), of "rebuildMembershipLocked (snd (mergeEntries es k n))"] assms(3)
  by (simp add: mergePersist_def)

lemma mergePersist_conf:
  assumes "conf K i n" and "kept K G (mergePersist es k n)"
  shows "conf K i (mergePersist es k n)"
proof -
  from assms(2) obtain b where "keeps (mergePersist es k n) G b" unfolding kept_def by blast
  then have "rlog (snd (mergeEntries es k n)) = view G b" "full_ok G" by (auto simp: keeps_def mergePersist_frame)
  then have "peerAddrs (rebuildMembershipLocked (snd (mergeEntries es k n))) = basePeers n"
     "peerIDs (rebuildMembershipLocked (snd (mergeEntries es k n))) = map_keys (basePeers n)"
    using rebuildMembership_static[of "snd (mergeEntries es k n)" G b] by simp_all
  then show ?thesis using assms(1) by (auto simp: conf_def mergePersist_frame mergePersist_def)
qed

lemma rel_merge:
  assumes K: "net_ok K" "j \<in> set (cIds K)" and inv: "inv (cIds K) a" and r: "rel K j a n"
    and F: "state n = Follower" and L: "leaderOf a (aterm a j) \<noteq> None"
    and m: "prev + m < length (leaderLog a (aterm a j))" "es = take m (drop (Suc prev) (leaderLog a (aterm a j)))"
    and e: "entryAtLocked n (int prev) = Some e" "eTerm e = eTerm (leaderLog a (aterm a j) ! prev)"
  defines "b \<equiv> acceptUpTo j (prev + m) (mergeFull (alog a j) (Suc prev) es) a"
  shows "reaches (cIds K) j a b" and "rel K j b (mergePersist es (int prev + 1) n)"
    and "prev + m \<le> accepted b j (aterm b j)"
proof -
  from relD(7)[OF r] obtain s where s: "keeps n (alog a j) s" unfolding kept_def by blast
  have prev: "prev < length (alog a j)" "eTerm (alog a j ! prev) = eTerm (leaderLog a (aterm a j) ! prev)"
    using e keeps_entryAt[OF s, of "int prev"] keepsD(3)[OF s] by (auto simp: dummyAt_def split: if_splits)
  have "astep (cIds K) a b"
    unfolding b_def using astep.merge[OF K(2) _ L prev(1) m(1) prev(2) m(2)] relD(3)[OF r] F by simp
  then show R: "reaches (cIds K) j a b"
    by (rule reaches_one) (simp add: b_def others_def acceptUpTo_def Let_def)
  have inv': "inv (cIds K) b" by (rule reaches_inv[OF R inv])
  have b: "alog b j = mergeFull (alog a j) (Suc prev) es" "acommit b j = acommit a j" "aterm b = aterm a"
      "avote b = avote a" "arole b = arole a" "avotes b = avotes a" "amatch b = amatch a" "candLog b = candLog a"
    by (simp_all add: b_def acceptUpTo_def Let_def)
  show "prev + m \<le> accepted b j (aterm b j)" by (simp add: b_def acceptUpTo_def Let_def)
  have full: "full_ok (leaderLog a (aterm a j))" using leader_terms(1)[OF inv L] by (rule wfl_full)
  have idx: "indexed (Suc prev) es"
    using full m by (auto simp: indexed_def full_ok_def)
  have com: "acommit b j < length (alog b j)" using invD(9)[OF inv'] K(2) by (simp add: inv_commit_def)
  let ?m = "mergePersist es (int prev + 1) n"
  have kept': "kept K (alog b j) ?m"
    unfolding b(1)
  proof (rule kept_merge[OF relD(7)[OF r] _ e(1) idx _ relD(6)[OF r]])
    show "rlog ?m = rlog (snd (mergeEntries es (int (Suc prev)) n))" by (simp add: mergePersist_frame add.commute)
    show "take (Suc (acommit a j)) (mergeFull (alog a j) (Suc prev) es) = take (Suc (acommit a j)) (alog a j)"
      using committed_prefix_same[OF inv inv' reaches_aext[OF R inv] K(2) b(2)] b(1) by simp
    show "full_ok (mergeFull (alog a j) (Suc prev) es)" using inv_full[OF inv' K(2)] b(1) by simp
    show "acommit a j < length (mergeFull (alog a j) (Suc prev) es)" using com b(1,2) by simp
    show "cSm K (world ?m) = cSm K (world n)"
      by (rule mergePersist_sm[OF K confD(6)[OF relD(1)[OF r]]])
  qed (simp_all add: mergePersist_frame)
  then show "rel K j b ?m"
    using r mergePersist_conf[OF relD(1)[OF r] kept'] F unfolding rel_def
    by (simp add: b(2-8) mergePersist_frame voteCalls_def vote_req_ok_def)
qed

subsection \<open>The AppendEntries receiver\<close>

lemma rel_follow:
  assumes K: "net_ok K" "j \<in> set (cIds K)" and r: "rel K j a n"
    and L: "leaderOf a (aterm a j) \<noteq> None" and c: "c \<le> accepted a j (aterm a j)" "c < length (alog a j)"
      "committed (cIds K) a (take (Suc c) (leaderLog a (aterm a j))) (aterm a j)"
    and F: "state n = Follower" and dc: "c \<le> declared a (aterm a j)"
  shows "sims K j a (followCommit (int c) n)"
proof (cases "commitIndex n < int c")
  case False
  then show ?thesis using r by (simp add: followCommit_def sims_refl)
next
  case True
  have ac: "acommit a j < c" using True relD(6)[OF r] by simp
  let ?b = "a\<lparr>acommit := (acommit a)(j := c)\<rparr>" and ?m = "n\<lparr>commitIndex := int c\<rparr>"
  have R: "reaches (cIds K) j a ?b"
    using relD(3)[OF r] F by (intro reaches_one[OF astep.follow[OF K(2) _ L ac c(1) dc c(3)]]) (simp_all add: others_def)
  have "kept K (alog a j) ?m"
    using relD(7)[OF r] True c(2) unfolding kept_def keeps_def by auto
  then have "rel K j ?b ?m"
    using r unfolding rel_def by (simp add: conf_def voteCalls_def vote_req_ok_def)
  then have "rel K j ?b (applyCommittedLocked ?m)" by (rule rel_applyCommitted[OF K])
  then have "sims K j a (applyCommittedLocked ?m)" using R unfolding sims_def by blast
  moreover have "followCommit (int c) n = applyCommittedLocked ?m"
    using True c(2) kept_last(1)[OF relD(7)[OF r]] by (simp add: followCommit_def)
  ultimately show ?thesis by simp
qed

text \<open>The common beginning of the two receivers: follow the leader of the request's term.\<close>

lemma rel_accept_leader:
  fixes l :: string and e :: Env
  assumes K: "net_ok K" "j \<in> set (cIds K)" and r: "rel K j a n" and t: "currentTerm n \<le> t"
  defines "n1 \<equiv> (if t > currentTerm n \<or> state n \<noteq> Follower then becomeFollowerLocked t l n else n)"
  defines "n2 \<equiv> (resetElectionTimerLocked e (n1\<lparr>leaderID := l\<rparr>))\<lparr>joining := False\<rparr>"
  shows "sims K j a n2" and "currentTerm n2 = t" and "state n2 = Follower" and "rlog n2 = rlog n"
proof -
  have "sims K j a n1" unfolding n1_def using rel_follower[OF r K(2) t] sims_refl[OF r] by simp
  then show "sims K j a n2"
    by (rule sims_map) (rule rel_quiet, auto simp: n2_def conf_def voteCalls_def)
  show "currentTerm n2 = t" "state n2 = Follower" "rlog n2 = rlog n" using t by (auto simp: n2_def n1_def)
qed

lemma rel_HandleAppendEntries:
  assumes K: "net_ok K" "j \<in> set (cIds K)" and inv: "inv (cIds K) a" and r: "rel K j a n"
    and ok: "append_ok (cIds K) a l req t"
  shows "\<exists>b. reaches (cIds K) j a b \<and> rel K j b (snd (HandleAppendEntries e req n)) \<and>
     (aerSuccess (fst (HandleAppendEntries e req n)) \<longrightarrow> 0 \<le> aePrevLogIndex req \<and>
        aePrevLogIndex req + int (length (aeEntries req)) \<le> int (accepted b j t))"
proof (cases "aeTerm req < currentTerm n")
  case True
  then show ?thesis using r by (intro exI[of _ a]) (simp add: HandleAppendEntries_def reaches_refl)
next
  case False
  define n1 where "n1 = (if aeTerm req > currentTerm n \<or> state n \<noteq> Follower
     then becomeFollowerLocked (aeTerm req) (aeLeaderID req) n else n)"
  define n2 where "n2 = (resetElectionTimerLocked e (n1\<lparr>leaderID := aeLeaderID req\<rparr>))\<lparr>joining := False\<rparr>"
  have sim: "sims K j a n2" and n2: "currentTerm n2 = aeTerm req" "state n2 = Follower"
    unfolding n1_def n2_def using False by (intro rel_accept_leader[OF K r], simp)+
  obtain a1 where a1: "reaches (cIds K) j a a1" "rel K j a1 n2" using sim unfolding sims_def by blast
  have inv1: "inv (cIds K) a1" by (rule reaches_inv[OF a1(1) inv])
  have "append_ok (cIds K) a1 l req t" by (rule append_ok_ext[OF reaches_aext[OF a1(1) inv] ok])
  then obtain prev m c where t: "aeTerm req = t" "leaderOf a1 t = Some l"
    and q: "aePrevLogIndex req = int prev" "prev + m < length (leaderLog a1 t)"
      "aePrevLogTerm req = eTerm (leaderLog a1 t ! prev)" "aeEntries req = take m (drop (Suc prev) (leaderLog a1 t))"
      "aeLeaderCommit req = int c" "c \<le> prev + m" "committed (cIds K) a1 (take (Suc c) (leaderLog a1 t)) t"
      "c \<le> declared a1 t"
    unfolding append_ok_def by blast
  have at: "aterm a1 j = t" using relD(2)[OF a1(2)] n2(1) t(1) by simp
  show ?thesis
  proof (cases "\<exists>pe. entryAtLocked n2 (int prev) = Some pe \<and> eTerm pe = aePrevLogTerm req \<and>
      \<not> int prev < lastIncludedIndexLocked n2")
    case reject: False
    then have "HandleAppendEntries e req n = (\<lparr>aerTerm = currentTerm n2, aerSuccess = False\<rparr>, n2)"
      using False q(1) unfolding HandleAppendEntries_def Let_def n1_def[symmetric] n2_def[symmetric]
      by (auto split: option.split)
    then show ?thesis using a1 by (intro exI[of _ a1]) simp
  next
    case True
    then obtain pe where pe: "entryAtLocked n2 (int prev) = Some pe" "eTerm pe = aePrevLogTerm req"
        "\<not> int prev < lastIncludedIndexLocked n2" by blast
    let ?m = "mergePersist (aeEntries req) (int prev + 1) n2"
    have eq: "HandleAppendEntries e req n =
        (\<lparr>aerTerm = currentTerm n2, aerSuccess = True\<rparr>, followCommit (int c) ?m)"
      using False pe q(1,5) unfolding HandleAppendEntries_def Let_def n1_def[symmetric] n2_def[symmetric] mergePersist_def
      by (simp add: case_prod_beta)
    have L1: "leaderOf a1 (aterm a1 j) \<noteq> None" using t(2) at by simp
    define b where "b = acceptUpTo j (prev + m) (mergeFull (alog a1 j) (Suc prev) (aeEntries req)) a1"
    have M: "reaches (cIds K) j a1 b" "rel K j b ?m" "prev + m \<le> accepted b j (aterm b j)"
      unfolding b_def using rel_merge[OF K inv1 a1(2) n2(2) L1 _ _ pe(1)] q pe(2) at by auto
    have inv2: "inv (cIds K) b" by (rule reaches_inv[OF M(1) inv1])
    have same: "aterm b = aterm a1" "leaderOf b = leaderOf a1" "leaderLog b = leaderLog a1" "declared b = declared a1"
      by (simp_all add: b_def acceptUpTo_def Let_def)
    have "state ?m = Follower" by (simp add: n2(2) mergePersist_frame)
    have "prev + m < length (alog b j)"
    proof -
      have "holds b (alog b j) t (prev + m) \<or> deviates b t (prev + m) t"
        using invD(7)[OF inv2] K(2) M(3) t(2) at same unfolding inv_acc_def by (metis option.distinct(1))
      then have "take (Suc (prev + m)) (alog b j) = take (Suc (prev + m)) (leaderLog b t)"
        by (auto simp: deviates_def holds_def)
      then show ?thesis using q(2) same(3) take_eq_length[of "Suc (prev + m)" "leaderLog b t" "alog b j"] by simp
    qed
    with \<open>state ?m = Follower\<close> have "sims K j b (followCommit (int c) ?m)"
      using M(2,3) q(6,8) t(2) at committed_ext[OF _ q(7) order_refl] reaches_aext[OF M(1) inv1]
      by (intro rel_follow[OF K]) (simp_all add: same aext_def)
    then obtain b' where b': "reaches (cIds K) j b b'" "rel K j b' (followCommit (int c) ?m)"
      unfolding sims_def by blast
    have "accepted b j t \<le> accepted b' j t" by (rule accepted_ext[OF reaches_aext[OF b'(1) inv2]])
    then have "prev + length (aeEntries req) \<le> accepted b' j t"
      using M(3) at same(1) q(4) by simp
    then show ?thesis
      using b' reaches_trans[OF b'(1) reaches_trans[OF M(1) a1(1)]] by (intro exI[of _ b']) (simp add: eq q(1))
  qed
qed

subsection \<open>Acknowledgements\<close>

lemma rel_recordMatch:
  assumes K: "net_ok K" "i \<in> set (cIds K)" and p: "p \<in> set (cIds K)" and r: "rel K i a n"
    and L: "state n = Leader" and k: "0 \<le> k" "k \<le> int (accepted a p (aterm a i))"
  shows "sims K i a (applyCommittedLocked (advanceCommitLocked (recordMatch p k n)))"
proof -
  let ?b = "a\<lparr>amatch := (amatch a)(i := (amatch a i)(p := nat k))\<rparr>"
  have "nat k \<le> accepted a p (aterm a i)" using k by simp
  then have R: "reaches (cIds K) i a ?b"
    using relD(3)[OF r] L by (intro reaches_one[OF astep.record_match[OF K(2) p]]) (simp_all add: others_def)
  have "kept K (alog a i) (recordMatch p k n)"
    using relD(7)[OF r] kept_cong[of "recordMatch p k n" n K] by simp
  then have "rel K i ?b (recordMatch p k n)"
    using r L k(1) unfolding rel_def by (auto simp: conf_def voteCalls_def vote_req_ok_def)
  then show ?thesis using sims_step[OF R] rel_advance_apply[OF K] L by simp
qed

lemma rel_backOff: "rel K i a n \<Longrightarrow> rel K i a (backOff p n)"
  by (rule rel_quiet) (auto simp: conf_def voteCalls_def)

lemma rel_replicateAppendResp:
  assumes K: "net_ok K" "i \<in> set (cIds K)" and p: "p \<in> set (cIds K)" and r: "rel K i a n"
    and ok: "aerSuccess resp \<Longrightarrow> 0 \<le> aePrevLogIndex req \<and>
       aePrevLogIndex req + int (length (aeEntries req)) \<le> int (accepted a p t)"
  shows "sims K i a (snd (replicateAppendResp e p req t resp n))"
proof (cases "state n \<noteq> Leader \<or> currentTerm n \<noteq> t")
  case True
  then show ?thesis using r by (simp add: replicateAppendResp_def sims_refl)
next
  case False
  then have L: "state n = Leader" "aterm a i = t" using relD(2)[OF r] by simp_all
  show ?thesis
    using False rel_stepDown[OF r K(2), of "aerTerm resp" e] rel_backOff[OF r] ok
      rel_recordMatch[OF K p r L(1), of "aePrevLogIndex req + int (length (aeEntries req))"] L(2)
    by (auto simp: replicateAppendResp_def Let_def intro: sims_refl)
qed

lemma rel_replicateInstallResp:
  assumes K: "net_ok K" "i \<in> set (cIds K)" and p: "p \<in> set (cIds K)" and r: "rel K i a n"
    and ok: "isrTerm resp \<le> t \<Longrightarrow> 0 \<le> isLastIncludedIndex req \<and> isLastIncludedIndex req \<le> int (accepted a p t)"
  shows "sims K i a (snd (replicateInstallResp e p req t resp n))"
proof (cases "state n \<noteq> Leader \<or> currentTerm n \<noteq> t")
  case True
  then show ?thesis using r by (simp add: replicateInstallResp_def sims_refl)
next
  case False
  then have L: "state n = Leader" "aterm a i = t" using relD(2)[OF r] by simp_all
  show ?thesis
    using False rel_stepDown[OF r K(2), of "isrTerm resp" e] ok
      rel_recordMatch[OF K p r L(1), of "isLastIncludedIndex req"] L(2)
    by (auto simp: replicateInstallResp_def Let_def)
qed

lemma rel_confirmResp:
  assumes "rel K i a n" and "i \<in> set (cIds K)"
  shows "sims K i a (snd (confirmResp e t resp n))"
  using sims_refl[OF assms(1)] rel_stepDown[OF assms, of "aerTerm resp" e] by (simp add: confirmResp_def)

subsection \<open>Proposals\<close>

lemma rel_Propose:
  assumes K: "net_ok K" "i \<in> set (cIds K)" and inv: "inv (cIds K) a" and r: "rel K i a n"
  shows "sims K i a (snd (Propose cmd n))"
proof (cases "stopped n \<or> state n \<noteq> Leader")
  case True
  then show ?thesis using r by (auto simp: Propose_def sims_refl)
next
  case False
  then have L: "state n = Leader" by simp
  note c = confD[OF relD(1)[OF r]]
  define e where "e = \<lparr>eTerm = currentTerm n, eIndex = lastLogIndexLocked n + 1, eCommand = cmd, eChange = None\<rparr>"
  have E: "eTerm e = aterm a i" "eIndex e = int (length (alog a i))" "eChange e = None"
    using relD(2)[OF r] kept_last(1)[OF relD(7)[OF r]] by (simp_all add: e_def)
  let ?b = "leaderAppend i e a"
  have R: "reaches (cIds K) i a ?b"
    using relD(3)[OF r] L
    by (intro reaches_one[OF astep.propose[OF K(2) _ E]]) (simp_all add: others_def leaderAppend_def Let_def)
  define m where "m = recordMatch i (eIndex e) (persistLocked (appendOwn e n))"
  have "kept K (alog a i @ [e]) m"
    by (rule kept_snoc[OF relD(7)[OF r] _ inv_snoc_full[OF inv K(2) E]]) (simp_all add: m_def)
  then have "rel K i ?b m"
    using r L E(2) unfolding rel_def
    by (auto simp: m_def conf_def voteCalls_def vote_req_ok_def leaderAppend_def Let_def)
  then have "sims K i ?b (broadcastAppendEntriesLocked (applyCommittedLocked (advanceCommitLocked m)))"
    by (intro sims_map[OF rel_advance_apply[OF K] rel_broadcast]) (simp_all add: m_def L)
  then have "sims K i a (broadcastAppendEntriesLocked (applyCommittedLocked (advanceCommitLocked m)))"
    by (rule sims_step[OF R])
  then show ?thesis using False c(1) by (simp add: Propose_def Let_def m_def e_def)
qed

end
