(* ===== verification/Raft_Refine_Snapshot.thy ===== *)
theory Raft_Refine_Snapshot
  imports Raft_Refine_Append
begin

text \<open>
  Installing a snapshot and restarting from disk, as abstract steps.
\<close>

subsection \<open>The InstallSnapshot receiver\<close>

lemma map_len_keys: "map_keys m = ids \<Longrightarrow> i \<in> set ids \<Longrightarrow> map_len m > 0"
  by (auto simp: map_len_def)

lemma installSnapshot_spec:
  assumes K: "net_ok K" "j \<in> set (cIds K)" and c: "conf K j n"
    and p: "map_keys (isPeers req) = cIds K" and d: "isData req \<noteq> []" "represents K (isData req) s"
  defines "m \<equiv> installSnapshot req n"
  shows "conf K j m" "cSm K (world m) = s" "snapshot m = isData req" "lastApplied m = isLastIncludedIndex req"
    "commitIndex m = max (commitIndex n) (isLastIncludedIndex req)"
    "rlog m = [\<lparr>eTerm = isLastIncludedTerm req, eIndex = isLastIncludedIndex req, eCommand = [], eChange = None\<rparr>]"
proof -
  note cd = confD[OF c]
  define n1 where "n1 = n\<lparr>rlog := [\<lparr>eTerm = isLastIncludedTerm req, eIndex = isLastIncludedIndex req,
                          eCommand = [], eChange = None\<rparr>],
                snapshot := isData req, basePeers := isPeers req, baseHTTP := isHTTP req\<rparr>"
  define n2 where "n2 = notifyPeersLocked (rebuildMembershipLocked n1)"
  define n4 where "n4 = n2\<lparr>world := snd (restoreWorld n2), lastApplied := isLastIncludedIndex req,
                  commitIndex := (if commitIndex n2 < isLastIncludedIndex req
                                  then isLastIncludedIndex req else commitIndex n2)\<rparr>"
  have m: "m = persistLocked n4"
    unfolding m_def installSnapshot_def Let_def
    using map_len_keys[OF p K(2)] by (simp add: n1_def n2_def n4_def cloneStringMap_def)
  have n2: "snapshotter n2 = Some (bSnap (cBoot K j))" "snapshot n2 = isData req"
    "peerAddrs n2 = isPeers req" "peerIDs n2 = cIds K" "basePeers n2 = isPeers req"
    using cd p by (simp_all add: n2_def n1_def rebuildMembershipLocked_def rebuildPeerIDsLocked_def cloneStringMap_def)
  have "restoreWorld n2 = Restore (bSnap (cBoot K j)) (isData req) (world n2)"
    using n2 d(1) by (simp add: restoreWorld_def)
  then show "cSm K (world m) = s" using d(2) K(2) by (simp add: m n4_def represents_def)
  show "conf K j m" using cd p n2 by (simp add: conf_def m n4_def) (simp add: n2_def n1_def)
  show "snapshot m = isData req" "lastApplied m = isLastIncludedIndex req"
    "commitIndex m = max (commitIndex n) (isLastIncludedIndex req)"
    "rlog m = [\<lparr>eTerm = isLastIncludedTerm req, eIndex = isLastIncludedIndex req, eCommand = [], eChange = None\<rparr>]"
    by (simp_all add: m n4_def n2_def n1_def)
qed

lemma rel_install_new:
  assumes K: "net_ok K" "j \<in> set (cIds K)" and inv: "inv (cIds K) a" and r: "rel K j a n"
    and F: "state n = Follower" and t: "currentTerm n = t" and ok: "snap_ok K a l req t"
    and last: "lastLogIndexLocked n \<le> isLastIncludedIndex req"
  shows "\<exists>b. reaches (cIds K) j a b \<and> rel K j b (installSnapshot req n) \<and>
     isLastIncludedIndex req \<le> int (accepted b j t)"
proof -
  from ok obtain k where q: "leaderOf a t = Some l" "isLastIncludedIndex req = int k" "0 < k"
      "k < length (leaderLog a t)" "isLastIncludedTerm req = eTerm (leaderLog a t ! k)"
      "committed (cIds K) a (take (Suc k) (leaderLog a t)) t" "k \<le> declared a t"
    and d: "map_keys (isPeers req) = cIds K" "isData req \<noteq> []"
      "represents K (isData req) (replay K (leaderLog a t) k)"
    unfolding snap_ok_def by auto
  have at: "aterm a j = t" using relD(2)[OF r] t by simp
  define G where "G = take (Suc k) (leaderLog a t)"
  define b where "b = acceptUpTo j k G a"
  have "length (alog a j) \<le> Suc k" using last kept_last(1)[OF relD(7)[OF r]] q(2) by simp
  then have "astep (cIds K) a b"
    unfolding b_def G_def using astep.install[OF K(2), of a k] relD(3)[OF r] F q at by simp
  then have R: "reaches (cIds K) j a b"
    by (rule reaches_one) (simp add: b_def others_def acceptUpTo_def Let_def)
  have inv': "inv (cIds K) b" by (rule reaches_inv[OF R inv])
  have b: "alog b j = G" "acommit b j = acommit a j" "aterm b = aterm a" "avote b = avote a" "arole b = arole a"
      "candLog b = candLog a" "leaderOf b = leaderOf a" "leaderLog b = leaderLog a" "k \<le> accepted b j t"
      "declared b = declared a"
    by (simp_all add: b_def acceptUpTo_def Let_def at)
  have ck: "acommit a j \<le> k"
    using invD(9)[OF inv'] K(2) b(1,2) q(4) by (auto simp: inv_commit_def G_def)
  define b' where "b' = (if acommit a j < k then b\<lparr>acommit := (acommit b)(j := k)\<rparr> else b)"
  have com: "committed (cIds K) b (take (Suc k) (leaderLog b t)) t"
    using committed_ext[OF _ q(6) order_refl] reaches_aext[OF R inv] by (simp add: aext_def b(8))
  have R': "reaches (cIds K) j b b'"
  proof (cases "acommit a j < k")
    case True
    then have "astep (cIds K) b b'"
      unfolding b'_def using astep.follow[OF K(2), of b k] b com q(1,7) at relD(3)[OF r] F by simp
    then show ?thesis by (rule reaches_one) (simp add: b'_def others_def)
  qed (simp add: b'_def reaches_refl)
  have b': "acommit b' j = k" "alog b' = alog b" "aterm b' = aterm b" "avote b' = avote b" "arole b' = arole b"
      "candLog b' = candLog b" "accepted b' = accepted b"
    using ck b(2) by (auto simp: b'_def)
  note I = installSnapshot_spec[OF K relD(1)[OF r] d]
  have full: "full_ok G" using inv_full[OF inv' K(2)] b(1) by simp
  have "rlog (installSnapshot req n) = view G k"
    using I(6) q(2,4,5) by (simp add: view_def dummyAt_def G_def)
  moreover have "replay K G k = replay K (leaderLog a t) k"
    by (rule replay_prefix) (simp add: G_def)
  moreover have "commitIndex (installSnapshot req n) = int k"
    using I(5) relD(6)[OF r] ck q(2) by simp
  ultimately have kp: "kept K G (installSnapshot req n)"
    unfolding kept_def using I(2-5) d(2,3) q(2-4) full
    by (intro exI[of _ k]) (simp add: keeps_def G_def)
  have "commitIndex (installSnapshot req n) = int k" using I(5) relD(6)[OF r] ck q(2) by simp
  then have "rel K j b' (installSnapshot req n)"
    using r kp I(1) F unfolding rel_def by (simp add: b' b(1,3-6) voteCalls_def vote_req_ok_def)
  moreover have "isLastIncludedIndex req \<le> int (accepted b' j t)" using q(2) b(9) b'(7) by simp
  ultimately show ?thesis using reaches_trans[OF R' R] by blast
qed

lemma rel_install_old:
  assumes K: "net_ok K" "j \<in> set (cIds K)" and inv: "inv (cIds K) a" and r: "rel K j a n"
    and F: "state n = Follower" and t: "currentTerm n = t" and ok: "snap_ok K a l req t"
    and base: "isLastIncludedIndex req \<le> lastIncludedIndexLocked n"
  shows "\<exists>b. reaches (cIds K) j a b \<and> rel K j b n \<and> isLastIncludedIndex req \<le> int (accepted b j t)"
proof -
  from ok obtain k where q: "leaderOf a t = Some l" "isLastIncludedIndex req = int k"
      "k < length (leaderLog a t)" "committed (cIds K) a (take (Suc k) (leaderLog a t)) t"
    unfolding snap_ok_def by auto
  have at: "aterm a j = t" using relD(2)[OF r] t by simp
  from relD(7)[OF r] obtain s where s: "keeps n (alog a j) s" "int s \<le> lastApplied n" "lastApplied n \<le> commitIndex n"
    unfolding kept_def by blast
  then have k: "k \<le> acommit a j" using base keeps_base(1)[OF s(1)] q(2) relD(6)[OF r] by simp
  define b where "b = acceptUpTo j k (alog a j) a"
  have "astep (cIds K) a b"
    unfolding b_def using astep.install_old[OF K(2), of a k] relD(3)[OF r] F q k at by simp
  then have "reaches (cIds K) j a b"
    by (rule reaches_one) (simp add: b_def others_def acceptUpTo_def Let_def)
  moreover have "rel K j b n"
    using r unfolding rel_def by (simp add: b_def acceptUpTo_def Let_def vote_req_ok_def)
  moreover have "isLastIncludedIndex req \<le> int (accepted b j t)"
    by (simp add: b_def acceptUpTo_def Let_def at q(2))
  ultimately show ?thesis by blast
qed

lemma rel_HandleInstallSnapshot:
  assumes K: "net_ok K" "j \<in> set (cIds K)" and inv: "inv (cIds K) a" and r: "rel K j a n"
    and ok: "snap_ok K a l req t" and safe: "installSafe req n"
  shows "\<exists>b. reaches (cIds K) j a b \<and> rel K j b (snd (HandleInstallSnapshot e req n)) \<and>
     (isrTerm (fst (HandleInstallSnapshot e req n)) \<le> t \<longrightarrow>
        0 \<le> isLastIncludedIndex req \<and> isLastIncludedIndex req \<le> int (accepted b j t))"
proof -
  have t: "isTerm req = t" and pos: "0 \<le> isLastIncludedIndex req" using ok by (auto simp: snap_ok_def)
  show ?thesis
  proof (cases "isTerm req < currentTerm n")
    case True
    then show ?thesis
      using r t by (intro exI[of _ a]) (simp add: HandleInstallSnapshot_def reaches_refl)
  next
    case False
    define n1 where "n1 = (if isTerm req > currentTerm n \<or> state n \<noteq> Follower
       then becomeFollowerLocked (isTerm req) (isLeaderID req) n else n)"
    define n2 where "n2 = (resetElectionTimerLocked e (n1\<lparr>leaderID := isLeaderID req\<rparr>))\<lparr>joining := False\<rparr>"
    have sim: "sims K j a n2" and n2: "currentTerm n2 = isTerm req" "state n2 = Follower" "rlog n2 = rlog n"
      unfolding n1_def n2_def using False by (intro rel_accept_leader[OF K r], simp)+
    obtain a1 where a1: "reaches (cIds K) j a a1" "rel K j a1 n2" using sim unfolding sims_def by blast
    have inv1: "inv (cIds K) a1" by (rule reaches_inv[OF a1(1) inv])
    have ok1: "snap_ok K a1 l req t" by (rule snap_ok_ext[OF reaches_aext[OF a1(1) inv] ok])
    have eq: "HandleInstallSnapshot e req n = (\<lparr>isrTerm = currentTerm n2\<rparr>,
        if isLastIncludedIndex req \<le> lastIncludedIndexLocked n2 then n2 else installSnapshot req n2)"
      using False by (simp add: HandleInstallSnapshot_def Let_def n1_def[symmetric] n2_def[symmetric])
    have "\<exists>b. reaches (cIds K) j a1 b \<and> rel K j b (snd (HandleInstallSnapshot e req n)) \<and>
        isLastIncludedIndex req \<le> int (accepted b j t)"
    proof (cases "isLastIncludedIndex req \<le> lastIncludedIndexLocked n2")
      case True
      then show ?thesis
        using rel_install_old[OF K inv1 a1(2) n2(2) _ ok1 True] n2(1) t by (simp add: eq)
    next
      case new: False
      then have "lastLogIndexLocked n2 \<le> isLastIncludedIndex req"
        using safe False n2(3) by (simp add: installSafe_def lastLogIndexLocked_def lastIncludedIndexLocked_def)
      then show ?thesis
        using rel_install_new[OF K inv1 a1(2) n2(2) _ ok1] n2(1) t new by (simp add: eq)
    qed
    then show ?thesis using pos reaches_trans[OF _ a1(1)] by blast
  qed
qed

end
