(* ===== verification/Raft_Refine_System.thy ===== *)
theory Raft_Refine_System
  imports Raft_Refine_Snapshot
begin

text \<open>
  Restarts, the initial state, and the simulation of every step of the cluster by the abstract
  protocol.
\<close>

subsection \<open>Restarting\<close>

lemma restore_empty: "snapshot n = [] \<Longrightarrow> restoreSnapshotLocked n = n"
  by (simp add: restoreSnapshotLocked_def)

lemma restore_represents:
  assumes "i \<in> set (cIds K)" and "snapshotter n = Some (bSnap (cBoot K i))" and "snapshot n \<noteq> []"
    and "represents K (snapshot n) s"
  shows "cSm K (world (restoreSnapshotLocked n)) = s"
    and "lastApplied (restoreSnapshotLocked n) = max (lastApplied n) (lastIncludedIndexLocked n)"
    and "commitIndex (restoreSnapshotLocked n) = max (commitIndex n) (lastIncludedIndexLocked n)"
proof -
  let ?r = "Restore (bSnap (cBoot K i)) (snapshot n) (world n)"
  have "fst ?r = None" "cSm K (snd ?r) = s" using assms(1,4) unfolding represents_def by blast+
  then obtain w where "?r = (None, w)" "cSm K w = s" by (cases ?r) simp
  then show "cSm K (world (restoreSnapshotLocked n)) = s"
    "lastApplied (restoreSnapshotLocked n) = max (lastApplied n) (lastIncludedIndexLocked n)"
    "commitIndex (restoreSnapshotLocked n) = max (commitIndex n) (lastIncludedIndexLocked n)"
    using assms(2,3) by (simp_all add: restoreSnapshotLocked_def restoreWorld_def Let_def)
qed

text \<open>What the snapshot of a node at index \<open>b\<close> promises: nothing at 0, the state after \<open>b\<close> entries otherwise.\<close>

definition snap_at :: "('w, 'd, 's) Net \<Rightarrow> LogEntry list \<Rightarrow> nat \<Rightarrow> bytes \<Rightarrow> bool" where
  "snap_at K F b data \<longleftrightarrow> (data = [] \<longleftrightarrow> b = 0) \<and> (0 < b \<longrightarrow> represents K data (replay K F b))"

text \<open>A node that has applied exactly what its snapshot holds.\<close>

definition at_base :: "('w, 'd, 's) Net \<Rightarrow> LogEntry list \<Rightarrow> nat \<Rightarrow> ('w, 'd) RaftNode \<Rightarrow> bool" where
  "at_base K F b n \<longleftrightarrow> rlog n = view F b \<and> lastApplied n = int b \<and> commitIndex n = int b \<and>
     cSm K (world n) = replay K F b \<and> snap_at K F b (snapshot n)"

lemma at_base_kept: "at_base K F b n \<Longrightarrow> full_ok F \<Longrightarrow> b < length F \<Longrightarrow> kept K F n"
  unfolding at_base_def kept_def snap_at_def keeps_def by (intro exI[of _ b]) auto

lemma restore_at_base:
  assumes "i \<in> set (cIds K)" "snapshotter n = Some (bSnap (cBoot K i))" and s: "snap_at K F b (snapshot n)"
    and r: "rlog n = view F b" "lastApplied n = int b" "commitIndex n = int b"
    and zero: "b = 0 \<Longrightarrow> cSm K (world n) = replay K F 0"
  shows "at_base K F b (restoreSnapshotLocked n)"
proof (cases "b = 0")
  case True
  then have "snapshot n = []" using s by (simp add: snap_at_def)
  then show ?thesis using True s r zero by (simp add: restore_empty at_base_def)
next
  case False
  then have "snapshot n \<noteq> []" "represents K (snapshot n) (replay K F b)" using s by (simp_all add: snap_at_def)
  note R = restore_represents[OF assms(1,2) this]
  have "lastIncludedIndexLocked n = int b"
    using r(1) by (simp add: lastIncludedIndexLocked_def view_def dummyAt_def)
  then show ?thesis using R r s by (simp add: at_base_def)
qed

lemma at_base_wireUp:
  assumes K: "net_ok K" "i \<in> set (cIds K)" and n: "at_base K F b n"
  shows "at_base K F b (wireUp (cBoot K i) n)"
proof -
  have su: "cSm K (bSetup (cBoot K i) w) = cSm K w" for w
    by (rule replicated_machine.prep_sm[OF node_machine[OF net_node[OF K]]])
  define m where "m = (SetApply (bApply (cBoot K i)) n)\<lparr>snapshotter := Some (bSnap (cBoot K i))\<rparr>"
  have m: "snapshot m = snapshot n" "world m = world n" "lastApplied m = lastApplied n"
      "commitIndex m = commitIndex n" "rlog m = rlog n" "snapshotter m = Some (bSnap (cBoot K i))"
    by (simp_all add: m_def SetApply_def)
  have r: "at_base K F b (restoreSnapshotLocked m)"
    using n m by (intro restore_at_base[OF K(2) m(6)]) (auto simp: at_base_def)
  have "wireUp (cBoot K i) n = SetPeerHook (bHook (cBoot K i)) (SetTransport (bTransport (cBoot K i))
      ((restoreSnapshotLocked m)\<lparr>world := bSetup (cBoot K i) (world (restoreSnapshotLocked m))\<rparr>))"
    by (simp add: wireUp_def SetSnapshotter_def m_def Let_def)
  then show ?thesis
    using r by (simp add: at_base_def SetPeerHook_def SetTransport_def su)
qed

lemma at_base_recover:
  assumes K: "net_ok K" "i \<in> set (cIds K)" and ds: "dsLog ds = view F b" "snap_at K F b (dsSnapshot ds)"
  shows "at_base K F b (recoverNode ds (freshNode (clampConfig (bCfg (cBoot K i))) d (bWorld (cBoot K i))))"
proof -
  have N: "cfgSnapshotter (bCfg (cBoot K i)) = Some (bSnap (cBoot K i))" "cSm K (bWorld (cBoot K i)) = cStart K"
    using net_node[OF K] by (simp_all add: node_ok_def)
  define n0 where "n0 = freshNode (clampConfig (bCfg (cBoot K i))) d (bWorld (cBoot K i))"
  define n1 where "n1 = n0\<lparr>currentTerm := dsCurrentTerm ds, votedFor := dsVotedFor ds,
                 rlog := (if dsLog ds \<noteq> [] then dsLog ds else rlog n0), snapshot := dsSnapshot ds\<rparr>"
  define n2 where "n2 = (if map_len (dsSnapshotPeers ds) > 0
                then n1\<lparr>basePeers := cloneStringMap (dsSnapshotPeers ds),
                        baseHTTP := cloneStringMap (dsSnapshotHTTP ds)\<rparr> else n1)"
  define n3 where "n3 = (if snapshot n2 \<noteq> [] \<and> rlog n2 \<noteq> []
                then n2\<lparr>lastApplied := eIndex (hd (rlog n2)), commitIndex := eIndex (hd (rlog n2))\<rparr> else n2)"
  have ne: "view F b \<noteq> []" and hd: "eIndex (hd (view F b)) = int b"
    by (simp_all add: view_def dummyAt_def)
  have n2: "rlog n2 = view F b" "snapshot n2 = dsSnapshot ds" by (simp_all add: n2_def n1_def ds(1) ne)
  have "dsSnapshot ds = [] \<longleftrightarrow> b = 0" using ds(2) by (simp add: snap_at_def)
  then have n3: "rlog n3 = view F b" "snapshot n3 = dsSnapshot ds" "lastApplied n3 = int b" "commitIndex n3 = int b"
    using n2 ne hd by (simp_all add: n3_def) (simp_all add: n2_def n1_def n0_def freshNode_def)
  have n3': "snapshotter n3 = Some (bSnap (cBoot K i))" "world n3 = bWorld (cBoot K i)"
    by (simp_all add: n3_def n2_def n1_def n0_def freshNode_def N(1))
  have "at_base K F b (restoreSnapshotLocked n3)"
    using N(2) n3 n3'(2) ds(2) by (intro restore_at_base[OF K(2) n3'(1)]) (auto simp: replay_def)
  moreover have "recoverNode ds n0 = (let n4 = rebuildMembershipLocked (restoreSnapshotLocked n3) in
      if length (peerIDs n4) > 1 then n4\<lparr>joining := False\<rparr> else n4)"
    unfolding recoverNode_def Let_def n3_def n2_def n1_def by (rule refl)
  ultimately show ?thesis by (simp add: at_base_def Let_def n0_def[symmetric])
qed

lemma recover_peers:
  fixes n :: "('w, 'd) RaftNode"
  assumes "dsLog ds = view F b" and "full_ok F"
  defines "m \<equiv> recoverNode ds n"
  shows "peerAddrs m = basePeers m" and "peerIDs m = map_keys (basePeers m)"
proof -
  have st: "peerAddrs (rebuildMembershipLocked x) = basePeers x"
      "peerIDs (rebuildMembershipLocked x) = map_keys (basePeers x)"
    if "rlog x = view F b" for x :: "('w, 'd) RaftNode"
    using rebuildMembership_static[OF that assms(2)] .
  have "view F b \<noteq> []" by (simp add: view_def)
  then have "peerAddrs m = basePeers m \<and> peerIDs m = map_keys (basePeers m)"
    using assms(1) unfolding m_def recoverNode_def by (simp add: Let_def st)
  then show "peerAddrs m = basePeers m" "peerIDs m = map_keys (basePeers m)" by simp_all
qed

lemma boot_at_base:
  assumes K: "net_ok K" "i \<in> set (cIds K)" and d: "durable (cBoot K i) n" and r: "rel K i a n"
    and F: "full_ok (alog a i)"
  shows "\<exists>b. at_base K (alog a i) b (boot (cBoot K i) e (disk n)) \<and> b \<le> acommit a i \<and> b < length (alog a i)"
    and "conf K i (boot (cBoot K i) e (disk n))"
proof -
  let ?F = "alog a i" and ?m = "boot (cBoot K i) e (disk n)"
  note N = net_node[OF K, unfolded node_ok_def]
  from relD(7)[OF r] obtain b where b: "keeps n ?F b" "int b \<le> lastApplied n" "lastApplied n \<le> commitIndex n"
      "snap_at K ?F b (snapshot n)"
    unfolding kept_def snap_at_def by blast
  note kb = keepsD[OF b(1)]
  have le: "b \<le> acommit a i" using b(2,3) relD(6)[OF r] by simp
  from d obtain st where st: "cfgStorage (bCfg (cBoot K i)) = Some st"
    and sv: "saved st n \<or> unsaved st (cfgPeerAddrs (bCfg (cBoot K i))) (cfgHTTPAddrs (bCfg (cBoot K i))) n"
    unfolding durable_def by blast
  have "\<exists>x. ?m = resetElectionTimerLocked e (wireUp (cBoot K i) x) \<and> at_base K ?F b x \<and> nid x = i \<and>
      peerIDs x = cIds K \<and> map_keys (peerAddrs x) = cIds K \<and> map_keys (basePeers x) = cIds K"
    using sv
  proof
    assume "saved st n"
    then obtain ds where ds: "Load st (disk n) = Inr ds" "dsLog ds = rlog n" "dsSnapshot ds = snapshot n"
        "map_len (dsSnapshotPeers ds) > 0 \<longrightarrow> dsSnapshotPeers ds = basePeers n"
      unfolding saved_def by blast
    have log: "dsLog ds = view ?F b" using ds(2) kb(1) by simp
    then have "hasDurable ds" by (simp add: hasDurable_def view_def)
    moreover define x where "x = recoverNode ds (freshNode (clampConfig (bCfg (cBoot K i))) (disk n) (bWorld (cBoot K i)))"
    moreover have "map_keys (basePeers x) = cIds K"
      using ds(4) N confD(4)[OF relD(1)[OF r]] by (auto simp: x_def freshNode_def cloneStringMap_def)
    moreover have "nid x = i" using N by (simp add: x_def freshNode_def)
    moreover have "at_base K ?F b x" unfolding x_def using at_base_recover[OF K log] b(4) ds(3) by simp
    moreover have "peerAddrs x = basePeers x" "peerIDs x = map_keys (basePeers x)"
      unfolding x_def by (rule recover_peers[OF log F])+
    ultimately show ?thesis
      using boot_eq[OF st ds(1), of e] by (intro exI[of _ x]) simp
  next
    assume "unsaved st (cfgPeerAddrs (bCfg (cBoot K i))) (cfgHTTPAddrs (bCfg (cBoot K i))) n"
    then obtain ds where ds: "Load st (disk n) = Inr ds" "\<not> hasDurable ds"
      and n: "rlog n = [\<lparr>eTerm = 0, eIndex = 0, eCommand = [], eChange = None\<rparr>]" "snapshot n = []"
      unfolding unsaved_def by (auto simp: durableOf_def)
    have "b = 0" using b(4) n(2) by (simp add: snap_at_def)
    then have "view ?F b = [\<lparr>eTerm = 0, eIndex = 0, eCommand = [], eChange = None\<rparr>]" "b = 0"
      using kb(1) n(1) by simp_all
    then show ?thesis
      using boot_eq[OF st ds(1), of e] ds(2) N
      by (intro exI[of _ "freshNode (clampConfig (bCfg (cBoot K i))) (disk n) (bWorld (cBoot K i))"])
        (simp add: freshNode_def cloneStringMap_def at_base_def snap_at_def)
  qed
  then obtain x where x: "?m = resetElectionTimerLocked e (wireUp (cBoot K i) x)" "at_base K ?F b x" "nid x = i"
      "peerIDs x = cIds K" "map_keys (peerAddrs x) = cIds K" "map_keys (basePeers x) = cIds K" by blast
  have "at_base K ?F b ?m" using at_base_wireUp[OF K x(2)] by (simp add: x(1) at_base_def)
  then show "\<exists>b. at_base K ?F b ?m \<and> b \<le> acommit a i \<and> b < length ?F" using le kb(3) by blast
  show "conf K i ?m" using x(3-6) by (simp add: x(1) conf_def)
qed

lemma boot_fresh_fields:
  assumes "cfgStorage (bCfg b) = Some st" and "Load st d = Inr ds"
  shows "state (boot b e d) = Follower" "goroutines (boot b e d) = []"
  by (simp_all add: boot_eq[OF assms] freshNode_def)

lemma rel_restart:
  assumes K: "net_ok K" "i \<in> set (cIds K)" and inv: "inv (cIds K) a" and r: "rel K i a n"
    and d: "durable (cBoot K i) n"
  shows "sims K i a (boot (cBoot K i) e (disk n))"
proof -
  let ?m = "boot (cBoot K i) e (disk n)"
  note F = inv_full[OF inv K(2)]
  obtain b where b: "at_base K (alog a i) b ?m" "b \<le> acommit a i" "b < length (alog a i)"
    using boot_at_base(1)[OF K d r F] by blast
  note D = restart_durable(2,3)[OF d, of e]
  obtain st ds where "cfgStorage (bCfg (cBoot K i)) = Some st" "Load st (disk n) = Inr ds"
    using d unfolding durable_def saved_def unsaved_def by blast
  note f = boot_fresh_fields[OF this, of e]
  let ?b = "a\<lparr>arole := (arole a)(i := Follower), acommit := (acommit a)(i := b)\<rparr>"
  have "reaches (cIds K) i a ?b"
    by (rule reaches_one[OF astep.restart[OF K(2) b(2)]]) (simp add: others_def)
  moreover have "rel K i ?b ?m"
    using r at_base_kept[OF b(1) F b(3)] boot_at_base(2)[OF K d r F] D f b(1) unfolding rel_def
    by (simp add: at_base_def voteCalls_def)
  ultimately show ?thesis unfolding sims_def by blast
qed

subsection \<open>Initial states\<close>

lemma durable_boot:
  assumes "node_ok K i b" and "cfgStorage (bCfg b) = Some st" "Load st d = Inr ds" "\<not> hasDurable ds"
  shows "durable b (boot b e d)"
  using assms
  by (auto simp: boot_eq durable_def unsaved_def node_ok_def durableOf_def textual_wireUp textual_fresh)
    (simp_all add: freshNode_def cloneStringMap_def)

lemma rel_init:
  assumes K: "net_ok K" "i \<in> set (cIds K)"
    and d: "cfgStorage (bCfg (cBoot K i)) = Some st" "Load st d = Inr ds" "\<not> hasDurable ds"
  shows "rel K i initSpec (boot (cBoot K i) e d)"
proof -
  note N = net_node[OF K, unfolded node_ok_def]
  let ?x = "freshNode (clampConfig (bCfg (cBoot K i))) d (bWorld (cBoot K i))"
  have m: "boot (cBoot K i) e d = resetElectionTimerLocked e (wireUp (cBoot K i) ?x)"
    using boot_eq[OF d(1,2)] d(3) by simp
  have "at_base K [zeroEntry] 0 ?x"
    using N by (simp add: at_base_def freshNode_def view_def dummyAt_def snap_at_def zeroEntry_def)
  from at_base_wireUp[OF K this] have "at_base K [zeroEntry] 0 (boot (cBoot K i) e d)"
    by (simp add: m at_base_def)
  moreover have "conf K i (boot (cBoot K i) e d)"
    using N by (simp add: m conf_def freshNode_def cloneStringMap_def)
  ultimately show ?thesis
    using at_base_kept[of K "[zeroEntry]" 0 "boot (cBoot K i) e d"] boot_fresh_fields[OF d(1,2), of e]
    unfolding rel_def
    by (simp add: initSpec_def at_base_def voteCalls_def voteName_def) (simp add: m freshNode_def)
qed

subsection \<open>The simulation\<close>

definition sysrel :: "('w, 'd, 's) Net \<Rightarrow> ('w, 'd) Sys \<Rightarrow> Spec \<Rightarrow> bool" where
  "sysrel K s a \<longleftrightarrow> (\<forall>i \<in> set (cIds K). rel K i a (nodes s i) \<and> durable (cBoot K i) (nodes s i)) \<and>
     (\<forall>m \<in> msgs s. msg_ok K a m)"

lemma sysrelD:
  assumes "sysrel K s a"
  shows "i \<in> set (cIds K) \<Longrightarrow> rel K i a (nodes s i)" "i \<in> set (cIds K) \<Longrightarrow> durable (cBoot K i) (nodes s i)"
    "m \<in> msgs s \<Longrightarrow> msg_ok K a m"
  using assms by (auto simp: sysrel_def)

lemma sysrel_init: "net_ok K \<Longrightarrow> sys_init K s \<Longrightarrow> sysrel K s initSpec"
  unfolding sysrel_def sys_init_def using rel_init durable_boot net_node by (metis empty_iff)

lemma sysrel_deliver:
  assumes s: "sysrel K s a" and i: "i \<in> set (cIds K)" and R: "reaches (cIds K) i a b" and inv: "inv (cIds K) a"
    and ev: "textual_event ev" and r: "rel K i b (handle (cBoot K i) ev (nodes s i))" and M: "\<And>m. m \<in> M \<Longrightarrow> msg_ok K b m"
  shows "sysrel K (deliver K i ev M s) b"
proof -
  note x = reaches_aext[OF R inv]
  have "rel K j b (nodes s j)" if "j \<in> set (cIds K)" "j \<noteq> i" for j
    using rel_others[OF sysrelD(1)[OF s that(1)] reaches_others[OF R] that(2) x] .
  moreover have "durable (cBoot K i) (handle (cBoot K i) ev (nodes s i))"
    by (rule node.step_ok[OF sysrelD(2)[OF s i] ev])
  moreover have "msg_ok K b m" if "m \<in> msgs s" for m
    by (rule msg_ok_ext[OF x sysrelD(3)[OF s that]])
  ultimately show ?thesis
    using r M sysrelD(2)[OF s] by (auto simp: sysrel_def deliver_def)
qed

lemma sims_deliver:
  assumes "s' = deliver K i ev {} s" and "sysrel K s a" and "i \<in> set (cIds K)" and "inv (cIds K) a"
    and "textual_event ev" and "sims K i a (handle (cBoot K i) ev (nodes s i))"
  shows "\<exists>b j. reaches (cIds K) j a b \<and> sysrel K s' b"
  using assms(6) sysrel_deliver[OF assms(2,3) _ assms(4,5), of _ "{}"] unfolding sims_def assms(1) by blast

lemma sysrel_send:
  assumes "sysrel K s a" and "msg_ok K a m"
  shows "sysrel K (s\<lparr>msgs := insert m (msgs s)\<rparr>) a"
  using assms by (auto simp: sysrel_def)

lemma sims_local:
  assumes K: "net_ok K" "i \<in> set (cIds K)" and inv: "inv (cIds K) a" and r: "rel K i a n"
    and d: "durable (cBoot K i) n" and ev: "localEvent ev"
  shows "sims K i a (handle (cBoot K i) ev n)"
proof -
  have quiet: "rel K i a (replicateExit p n)" "rel K i a (Stop n)" for p
    by (rule rel_quiet[OF r]; simp add: conf_def voteCalls_def replicateExit_def Stop_def)+
  have "rel K i a (snd (waitCurrentTermIter n))"
    using r rel_broadcast[OF r] by (simp add: waitCurrentTermIter_def)
  then show ?thesis
    using ev quiet rel_tick[OF K inv r] rel_Propose[OF K inv r] rel_restart[OF K inv r d]
    by (cases ev) (simp_all add: handle_def sims_refl)
qed

lemma sim_recv:
  assumes "s' = deliver K i ev {m} s" and "sysrel K s a" and "i \<in> set (cIds K)" and "inv (cIds K) a"
    and "textual_event ev"
    and "\<exists>b. reaches (cIds K) i a b \<and> rel K i b (handle (cBoot K i) ev (nodes s i)) \<and> msg_ok K b m"
  shows "\<exists>b j. reaches (cIds K) j a b \<and> sysrel K s' b"
  using assms(6) sysrel_deliver[OF assms(2,3) _ assms(4,5), of _ "{m}"] unfolding assms(1) by blast

lemma textual_local: "localEvent ev \<Longrightarrow> textual_event ev"
  by (cases ev) simp_all

lemma textual_append:
  assumes "inv (cIds K) a" and "append_ok (cIds K) a l req t"
  shows "\<forall>x \<in> set (aeEntries req). valid_entry x"
proof -
  obtain prev m where r: "leaderOf a t = Some l" "aeEntries req = take m (drop (Suc prev) (leaderLog a t))"
    using assms(2) unfolding append_ok_def by blast
  have "full_ok (leaderLog a t)" using wfl_full[OF leader_terms(1)[OF assms(1)]] r(1) by simp
  then show ?thesis
    using r(2) by (auto simp: full_ok_def intro!: valid_none dest!: in_set_takeD in_set_dropD)
qed

text \<open>Every step of the cluster is a sequence of abstract steps of one node.\<close>

theorem sys_step_simulation:
  assumes "sys_step K s s'" and K: "net_ok K" and inv: "inv (cIds K) a" and decl: "inv_decl (cIds K) a"
    and R: "sysrel K s a"
  shows "\<exists>b i. reaches (cIds K) i a b \<and> sysrel K s' b"
  using assms(1)
proof cases
  case (local_step i ev)
  then show ?thesis
    by (intro sims_deliver[OF _ R _ inv textual_local] sims_local[OF K _ inv sysrelD(1,2)[OF R]])
next
  case (send_vote i p req)
  then have "msg_ok K a (VoteReq i p req)"
    using relD(10)[OF sysrelD(1)[OF R], of i p req] by (simp add: voteCalls_def)
  then show ?thesis using sysrel_send[OF R] reaches_refl send_vote(1) by metis
next
  case (recv_vote c j req e resp n)
  have m: "c \<in> set (cIds K)" "vote_req_ok a c req" using sysrelD(3)[OF R recv_vote(2)] by simp_all
  have "valid_utf8 (rvCandidateID req)"
    using net_node[OF K m(1)] m(2) by (auto simp: node_ok_def textual_boot_def vote_req_ok_def)
  then show ?thesis
    using rel_HandleRequestVote[OF K recv_vote(3) inv sysrelD(1)[OF R recv_vote(3)] m(2,1), of e] recv_vote(3,4)
    by (intro sim_recv[OF recv_vote(1) R recv_vote(3) inv]) (simp_all add: handle_def)
next
  case (recv_vote_resp j c req resp e)
  have "j \<in> set (cIds K)" "rvrVoteGranted resp \<Longrightarrow> \<exists>F. ballots a j (rvTerm req) = Some (c, F)"
    using sysrelD(3)[OF R recv_vote_resp(2)] by simp_all
  from rel_requestVoteResp[OF K recv_vote_resp(3) inv sysrelD(1)[OF R recv_vote_resp(3)] this]
  show ?thesis by (intro sims_deliver[OF recv_vote_resp(1) R recv_vote_resp(3) inv]) (simp_all add: handle_def)
next
  case (send_append i p req t n)
  note r = sysrelD(1)[OF R send_append(2)]
  have "rel K i a (handle (cBoot K i) (EvReplicate p) (nodes s i)) \<and> msg_ok K a (AppReq i p req t)"
    using rel_replicateSend[OF r, of p] replicateSend_append_ok[OF inv decl r send_append(2,5)] by (simp add: handle_def)
  then show ?thesis
    by (intro sim_recv[OF send_append(1) R send_append(2) inv] exI[of _ a] conjI) (auto intro: reaches_refl)
next
  case (send_snapshot i p req t n)
  note r = sysrelD(1)[OF R send_snapshot(2)]
  have t: "textual (nodes s i)" using sysrelD(2)[OF R send_snapshot(2)] by (simp add: durable_def)
  have "rel K i a (handle (cBoot K i) (EvReplicate p) (nodes s i)) \<and> msg_ok K a (SnapReq i p req t)"
    using rel_replicateSend[OF r, of p] replicateSend_install_ok[OF K inv decl r send_snapshot(2) t send_snapshot(5)]
    by (simp add: handle_def)
  then show ?thesis
    by (intro sim_recv[OF send_snapshot(1) R send_snapshot(2) inv] exI[of _ a] conjI) (auto intro: reaches_refl)
next
  case (send_nothing i p n)
  have "rel K i a (handle (cBoot K i) (EvReplicate p) (nodes s i))"
    using rel_replicateSend[OF sysrelD(1)[OF R send_nothing(2)], of p] by (simp add: handle_def)
  then show ?thesis
    by (intro sims_deliver[OF send_nothing(1) R send_nothing(2) inv] sims_refl) simp_all
next
  case (send_heartbeat i p t req)
  have "msg_ok K a (HbReq i p req t)"
    using confirm_ok[OF inv decl sysrelD(1)[OF R send_heartbeat(2)] send_heartbeat(2,5)] by simp
  then show ?thesis using sysrel_send[OF R] reaches_refl send_heartbeat(1) by metis
next
  case (recv_append l j req t e resp n)
  have ok: "append_ok (cIds K) a l req t" using sysrelD(3)[OF R recv_append(2)] by simp
  from rel_HandleAppendEntries[OF K recv_append(3) inv sysrelD(1)[OF R recv_append(3)] this, of e] show ?thesis
    using recv_append(3,4) textual_append[OF inv ok]
    by (intro sim_recv[OF recv_append(1) R recv_append(3) inv]) (simp_all add: handle_def)
next
  case (recv_heartbeat l j req t e resp n)
  have ok: "append_ok (cIds K) a l req t" using sysrelD(3)[OF R recv_heartbeat(2)] by simp
  from rel_HandleAppendEntries[OF K recv_heartbeat(3) inv sysrelD(1)[OF R recv_heartbeat(3)] this, of e] show ?thesis
    using textual_append[OF inv ok]
    by (intro sim_recv[OF recv_heartbeat(1) R recv_heartbeat(3) inv]) (auto simp: handle_def)
next
  case (recv_append_resp j l req t resp e)
  have "sims K l a (handle (cBoot K l) (EvAppendResp e j req t resp) (nodes s l))"
    using rel_replicateAppendResp[OF K recv_append_resp(3) _ sysrelD(1)[OF R recv_append_resp(3)]]
      sysrelD(3)[OF R recv_append_resp(2)] by (simp add: handle_def)
  then show ?thesis by (intro sims_deliver[OF recv_append_resp(1) R recv_append_resp(3) inv]) simp_all
next
  case (recv_heartbeat_resp j l t resp e)
  have "sims K l a (handle (cBoot K l) (EvConfirmResp e t resp) (nodes s l))"
    using rel_confirmResp[OF sysrelD(1)[OF R recv_heartbeat_resp(3)] recv_heartbeat_resp(3)] by (simp add: handle_def)
  then show ?thesis by (intro sims_deliver[OF recv_heartbeat_resp(1) R recv_heartbeat_resp(3) inv]) simp_all
next
  case (recv_snapshot l j req t e resp n)
  have ok: "snap_ok K a l req t" using sysrelD(3)[OF R recv_snapshot(2)] by simp
  from rel_HandleInstallSnapshot[OF K recv_snapshot(3) inv sysrelD(1)[OF R recv_snapshot(3)] this recv_snapshot(4), of e]
  show ?thesis
    using recv_snapshot(3,5) ok
    by (intro sim_recv[OF recv_snapshot(1) R recv_snapshot(3) inv]) (simp_all add: handle_def snap_ok_def)
next
  case (recv_snapshot_resp j l req t resp e)
  have "sims K l a (handle (cBoot K l) (EvInstallResp e j req t resp) (nodes s l))"
    using rel_replicateInstallResp[OF K recv_snapshot_resp(3) _ sysrelD(1)[OF R recv_snapshot_resp(3)]]
      sysrelD(3)[OF R recv_snapshot_resp(2)] by (simp add: handle_def)
  then show ?thesis by (intro sims_deliver[OF recv_snapshot_resp(1) R recv_snapshot_resp(3) inv]) simp_all
qed

lemma reach_refines:
  assumes "reach K s" and K: "net_ok K"
  shows "\<exists>a. areach (cIds K) a \<and> sysrel K s a"
  using assms(1)
proof (induction rule: reach.induct)
  case (reach_init s)
  then show ?case using sysrel_init[OF K] areach_init by blast
next
  case (reach_step s s')
  then obtain a where a: "areach (cIds K) a" "sysrel K s a" by blast
  then show ?case
    using sys_step_simulation[OF reach_step(2) K areach_inv[OF a(1)] areach_decl[OF a(1)] a(2)] reaches_areach by blast
qed

end
