(* ===== verification/Raft_Safety.thy ===== *)
theory Raft_Safety
  imports Raft_Refine_System Raft_Read
begin

text \<open>
  What the refinement gives for the nodes themselves.  Each property speaks about every state the
  cluster can reach, with messages lost, repeated and reordered and with nodes crashing and
  restarting from disk; the abstract protocol appears only in the proofs.  The members are fixed and a
  snapshot is delivered only where it cuts no entries (\<open>installSafe\<close>), as \<open>Raft_System\<close> explains.
\<close>

subsection \<open>Runs\<close>

abbreviation run :: "('w, 'd, 's) Net \<Rightarrow> ('w, 'd) Sys \<Rightarrow> ('w, 'd) Sys \<Rightarrow> bool" where
  "run K \<equiv> (sys_step K)\<^sup>*\<^sup>*"

text \<open>A node still has the entry of index \<open>k\<close>: it is not part of the snapshot.\<close>

definition hasEntry :: "('w, 'd) RaftNode \<Rightarrow> int \<Rightarrow> LogEntry \<Rightarrow> bool" where
  "hasEntry n k x \<longleftrightarrow> lastIncludedIndexLocked n < k \<and> entryAtLocked n k = Some x"

lemma run_refines:
  assumes "run K s s'" and K: "net_ok K" and "areach (cIds K) a" and "sysrel K s a"
  shows "\<exists>b. areach (cIds K) b \<and> aext a b \<and> sysrel K s' b"
  using assms(1)
proof (induction rule: rtranclp_induct)
  case base
  then show ?case using assms(3,4) aext_refl by blast
next
  case (step s1 s2)
  then obtain b where b: "areach (cIds K) b" "aext a b" "sysrel K s1 b" by blast
  obtain c i where c: "reaches (cIds K) i b c" "sysrel K s2 c"
    using sys_step_simulation[OF step(2) K areach_inv[OF b(1)] areach_decl[OF b(1)] b(3)] by blast
  then show ?case
    using reaches_areach[OF c(1) b(1)] reaches_aext[OF c(1) areach_inv[OF b(1)]] aext_trans[OF b(2)] by blast
qed

lemma run_reach: "run K s s' \<Longrightarrow> reach K s \<Longrightarrow> reach K s'"
  by (induction rule: rtranclp_induct) (auto intro: reach_step)

subsection \<open>From nodes to the abstract protocol\<close>

lemma rel_entry:
  assumes "rel K i a n" and "hasEntry n k x"
  shows "0 < k" "nat k < length (alog a i)" "alog a i ! nat k = x"
proof -
  from relD(7)[OF assms(1)] obtain b where b: "keeps n (alog a i) b" unfolding kept_def by blast
  then show "0 < k" "nat k < length (alog a i)" "alog a i ! nat k = x"
    using assms(2) by (auto simp: hasEntry_def keeps_entryAt[OF b] keeps_base(1)[OF b] split: if_splits)
qed

lemma rel_hasEntry:
  assumes "rel K i a n" and "lastIncludedIndexLocked n < int k" and "k < length (alog a i)"
  shows "hasEntry n (int k) (alog a i ! k)"
proof -
  from relD(7)[OF assms(1)] obtain b where b: "keeps n (alog a i) b" unfolding kept_def by blast
  then show ?thesis
    using assms(2,3) by (simp add: hasEntry_def keeps_entryAt[OF b] keeps_base(1)[OF b])
qed

lemma rel_indices:
  assumes "rel K i a n"
  shows "0 \<le> lastIncludedIndexLocked n" "lastIncludedIndexLocked n \<le> lastApplied n" "lastApplied n \<le> commitIndex n"
    "commitIndex n \<le> lastLogIndexLocked n" "cSm K (world n) = replay K (alog a i) (nat (lastApplied n))"
proof -
  from relD(7)[OF assms] obtain b where b: "keeps n (alog a i) b" "int b \<le> lastApplied n"
      "lastApplied n \<le> commitIndex n" "commitIndex n < int (length (alog a i))"
      "cSm K (world n) = replay K (alog a i) (nat (lastApplied n))" unfolding kept_def by blast
  then show "0 \<le> lastIncludedIndexLocked n" "lastIncludedIndexLocked n \<le> lastApplied n" "lastApplied n \<le> commitIndex n"
    "commitIndex n \<le> lastLogIndexLocked n" "cSm K (world n) = replay K (alog a i) (nat (lastApplied n))"
    by (simp_all add: keeps_base(1)[OF b(1)] keeps_last(1)[OF b(1)])
qed

text \<open>The committed part of a node's log.\<close>

definition done_log :: "Spec \<Rightarrow> string \<Rightarrow> LogEntry list" where
  "done_log a i = take (Suc (acommit a i)) (alog a i)"

lemma done_log:
  assumes "inv ids a" and "i \<in> set ids"
  shows "committed ids a (done_log a i) (aterm a i)" "length (done_log a i) = Suc (acommit a i)"
  using invD(9)[OF assms(1)] assms(2) by (auto simp: inv_commit_def done_log_def)

lemma done_entry:
  assumes r: "rel K i a n" and e: "hasEntry n k x" "k \<le> commitIndex n" and inv: "inv (cIds K) a" "i \<in> set (cIds K)"
  shows "nat k < length (done_log a i)" "done_log a i ! nat k = x"
  using rel_entry[OF r e(1)] e(2) relD(6)[OF r] done_log(2)[OF inv] by (auto simp: done_log_def)

lemma aext_committed: "aext a b \<Longrightarrow> committed ids a F U \<Longrightarrow> committed ids b F U"
  using committed_ext by (auto simp: aext_def)

text \<open>Committed logs are prefixes of one another, so finitely many are prefixes of one.\<close>

lemma committed_chain:
  assumes "inv ids a" "committed ids a F U" "committed ids a G V" "length F \<le> length G"
  shows "F = take (length F) G"
  using committed_agree[OF assms(1-3)] assms(4) by (intro nth_equalityI) auto

lemma committed_common:
  assumes inv: "inv ids a" and "finite \<F>" and "\<forall>F \<in> \<F>. \<exists>U. committed ids a F U"
  shows "\<exists>H. \<forall>F \<in> \<F>. F = take (length F) H"
proof (cases "\<F> = {}")
  case False
  then obtain H where H: "H \<in> \<F>" "Max (length ` \<F>) = length H"
    using obtains_MAX[OF assms(2)] by metis
  then have "\<And>F. F \<in> \<F> \<Longrightarrow> length F \<le> length H"
    using Max_ge[of "length ` \<F>"] assms(2) by (simp flip: H(2))
  with H(1) show ?thesis using committed_chain[OF inv] assms(3) by blast
qed simp

lemma replay_done:
  assumes r: "rel K i a n" and inv: "inv (cIds K) a" "i \<in> set (cIds K)"
    and H: "done_log a i = take (length (done_log a i)) H"
  shows "cSm K (world n) = replay K H (nat (lastApplied n))"
proof -
  have le: "nat (lastApplied n) \<le> acommit a i" using rel_indices(3)[OF r] relD(6)[OF r] by simp
  have "take (Suc (acommit a i)) (alog a i) = take (Suc (acommit a i)) H"
    using H done_log(2)[OF inv] by (simp add: done_log_def)
  then have "take (Suc (nat (lastApplied n))) (alog a i) = take (Suc (nat (lastApplied n))) H"
    using le by (metis Suc_le_mono min.absorb1 take_take)
  then show ?thesis using rel_indices(5)[OF r] replay_prefix by metis
qed

text \<open>
  One history of entries explains a state: the machine of every node is the result of applying the
  first \<open>lastApplied\<close> entries after the dummy entry, and the history has every entry a node knows to
  be committed.
\<close>

definition explains :: "('w, 'd, 's) Net \<Rightarrow> LogEntry list \<Rightarrow> ('w, 'd) Sys \<Rightarrow> bool" where
  "explains K H s \<longleftrightarrow> (\<forall>i \<in> set (cIds K).
     cSm K (world (nodes s i)) = replay K H (nat (lastApplied (nodes s i))) \<and>
     0 \<le> lastApplied (nodes s i) \<and> lastApplied (nodes s i) < int (length H) \<and>
     (\<forall>k x. hasEntry (nodes s i) k x \<longrightarrow> k \<le> commitIndex (nodes s i) \<longrightarrow> 0 < k \<and> k < int (length H) \<and> H ! nat k = x))"

lemma explainsI:
  assumes "sysrel K s a" and inv: "inv (cIds K) a"
    and H: "\<And>i. i \<in> set (cIds K) \<Longrightarrow> done_log a i = take (length (done_log a i)) H"
  shows "explains K H s"
  unfolding explains_def
proof (intro ballI conjI allI impI)
  fix i assume i: "i \<in> set (cIds K)"
  note r = sysrelD(1)[OF assms(1) i]
  show "cSm K (world (nodes s i)) = replay K H (nat (lastApplied (nodes s i)))"
    by (rule replay_done[OF r inv i H[OF i]])
  have len: "length (done_log a i) \<le> length H" using take_eq_length[of "length (done_log a i)" "done_log a i" H] H[OF i] by simp
  show "0 \<le> lastApplied (nodes s i)" "lastApplied (nodes s i) < int (length H)"
    using rel_indices(1-3)[OF r] relD(6)[OF r] done_log(2)[OF inv i] len by linarith+
  fix k x assume e: "hasEntry (nodes s i) k x" "k \<le> commitIndex (nodes s i)"
  note d = done_entry[OF r e inv i]
  show "0 < k" by (rule rel_entry(1)[OF r e(1)])
  then show "k < int (length H)" using d(1) len by linarith
  show "H ! nat k = x" using d take_eq_nth[of "length (done_log a i)" "done_log a i" H "nat k"] H[OF i] by simp
qed

lemma common_history:
  assumes inva: "inv (cIds K) a" and invb: "inv (cIds K) b" and "aext a b" and "sysrel K s a" and "sysrel K s' b"
  shows "\<exists>H. explains K H s \<and> explains K H s'"
proof -
  let ?C = "done_log a ` set (cIds K) \<union> done_log b ` set (cIds K)"
  have fin: "finite ?C" by simp
  have "\<exists>U. committed (cIds K) b F U" if "F \<in> ?C" for F
    using that aext_committed[OF assms(3) done_log(1)[OF inva]] done_log(1)[OF invb] by (elim UnE imageE) blast+
  from committed_common[OF invb fin ballI[OF this]] obtain H where H: "\<forall>F \<in> ?C. F = take (length F) H" ..
  have "explains K H s" by (rule explainsI[OF assms(4) inva], rule bspec[OF H]) simp
  moreover have "explains K H s'" by (rule explainsI[OF assms(5) invb], rule bspec[OF H]) simp
  ultimately show ?thesis by blast
qed

lemma one_history:
  assumes "net_ok K" "reach K s" "run K s s'"
  shows "\<exists>H. explains K H s \<and> explains K H s'"
proof -
  obtain a where a: "areach (cIds K) a" "sysrel K s a" using reach_refines[OF assms(2,1)] by blast
  obtain b where b: "areach (cIds K) b" "aext a b" "sysrel K s' b" using run_refines[OF assms(3,1) a] by blast
  show ?thesis by (rule common_history[OF areach_inv[OF a(1)] areach_inv[OF b(1)] b(2) a(2) b(3)])
qed

subsection \<open>Safety of a state\<close>

text \<open>
  C1: Election safety.  In every reachable state of a correctly set up cluster two nodes that both
  believe to be leader of the same term are the same node.
  The members are fixed and snapshots are
  delivered where they cut no entries, as \<open>Raft_System\<close> says.
\<close>

theorem election_safety:
  assumes "net_ok K" "reach K s" "i \<in> set (cIds K)" "j \<in> set (cIds K)"
    and "state (nodes s i) = Leader" "state (nodes s j) = Leader"
    and "currentTerm (nodes s i) = currentTerm (nodes s j)"
  shows "i = j"
proof -
  obtain a where a: "areach (cIds K) a" "sysrel K s a" using reach_refines[OF assms(2,1)] by blast
  note ri = sysrelD(1)[OF a(2) assms(3)] and rj = sysrelD(1)[OF a(2) assms(4)]
  have "leaderOf a (aterm a p) = Some p" if "p \<in> set (cIds K)" "arole a p = Leader" for p
    using invD(4)[OF areach_inv[OF a(1)]] that by (simp add: inv_role_def)
  then have "leaderOf a (aterm a i) = Some i" "leaderOf a (aterm a j) = Some j"
    using relD(3)[OF ri] relD(3)[OF rj] assms(3-6) by simp_all
  then show ?thesis using relD(2)[OF ri] relD(2)[OF rj] assms(7) by simp
qed

text \<open>
  C7: Log matching.  If the logs of two nodes have entries of the same term at an index, then they
  agree on the entry of every smaller index that both still have.
  The members are fixed and snapshots are
  delivered where they cut no entries, as \<open>Raft_System\<close> says.
\<close>

theorem log_matching:
  assumes "net_ok K" "reach K s" "i \<in> set (cIds K)" "j \<in> set (cIds K)"
    and "termAtLocked (nodes s i) k = Some t" "termAtLocked (nodes s j) k = Some t"
    and "hasEntry (nodes s i) l x" "hasEntry (nodes s j) l y" "l \<le> k"
  shows "x = y"
proof -
  obtain a where a: "areach (cIds K) a" "sysrel K s a" using reach_refines[OF assms(2,1)] by blast
  note ri = sysrelD(1)[OF a(2) assms(3)] and rj = sysrelD(1)[OF a(2) assms(4)]
  note x = rel_entry[OF ri assms(7)] and y = rel_entry[OF rj assms(8)]
  have at: "nat k < length (alog a p) \<and> eTerm (alog a p ! nat k) = t"
    if r: "rel K p a n" and t: "termAtLocked n k = Some t" for p and n :: "('a, 'b) RaftNode"
    using relD(7)[OF r] t unfolding kept_def by (auto simp: keeps_termAt split: if_splits)
  have "matching (alog a i) (alog a j)"
    using invD(2)[OF areach_inv[OF a(1)]] assms(3,4) wfl_matching unfolding inv_log_def by blast
  then have "take (Suc (nat k)) (alog a i) = take (Suc (nat k)) (alog a j)"
    using at[OF ri assms(5)] at[OF rj assms(6)] by (simp add: matching_def)
  then have "alog a i ! nat l = alog a j ! nat l"
    using assms(9) by (metis nth_take le_imp_less_Suc nat_mono)
  then show ?thesis using x(3) y(3) by simp
qed

text \<open>
  C2: State machine safety.  For all states \<open>s\<close> and \<open>s'\<close> of a run there is one history of entries such
  that the state machine of every node, in \<open>s\<close> and in \<open>s'\<close>, is the result of applying the first
  \<open>lastApplied\<close> entries of that history to the initial state, and every entry that a node knows to be
  committed is the one of the history at that index.
  The members are fixed and snapshots are
  delivered where they cut no entries, as \<open>Raft_System\<close> says.
\<close>

theorem state_machine_safety:
  assumes "net_ok K" "reach K s" "run K s s'"
  shows "\<exists>H. explains K H s \<and> explains K H s'"
  by (rule one_history[OF assms])

text \<open>
  C6: Leader completeness.  An entry that some node knows to be committed is below the end of the
  log of every leader of the same or a later term, and the leader has that same entry unless its
  snapshot covers it.
  The members are fixed and snapshots are
  delivered where they cut no entries, as \<open>Raft_System\<close> says.
\<close>

theorem leader_has_committed:
  assumes "net_ok K" "reach K s" "i \<in> set (cIds K)" "j \<in> set (cIds K)"
    and "state (nodes s i) = Leader" "currentTerm (nodes s j) \<le> currentTerm (nodes s i)"
    and "hasEntry (nodes s j) k x" "k \<le> commitIndex (nodes s j)"
  shows "k \<le> lastLogIndexLocked (nodes s i) \<and>
     (k \<le> lastIncludedIndexLocked (nodes s i) \<or> hasEntry (nodes s i) k x)"
proof -
  obtain a where a: "areach (cIds K) a" "sysrel K s a" using reach_refines[OF assms(2,1)] by blast
  note inv = areach_inv[OF a(1)] and ri = sysrelD(1)[OF a(2) assms(3)] and rj = sysrelD(1)[OF a(2) assms(4)]
  have L: "leaderOf a (aterm a i) \<noteq> None" "leaderLog a (aterm a i) = alog a i"
    using invD(4)[OF inv] relD(3)[OF ri] assms(3,5) by (auto simp: inv_role_def)
  let ?F = "done_log a j"
  have F: "?F = take (length ?F) (alog a i)"
    using committed_in_leader[OF inv done_log(1)[OF inv assms(4)] _ L(1)] L(2) relD(2)[OF ri] relD(2)[OF rj] assms(6)
    by simp
  note x = done_entry[OF rj assms(7,8) inv assms(4)]
  have pos: "0 < k" by (rule rel_entry(1)[OF rj assms(7)])
  have len: "nat k < length (alog a i)" using take_eq_length[of "length ?F" ?F "alog a i"] F x(1) by simp
  have at: "alog a i ! nat k = x" using x(2) take_eq_nth[of "length ?F" ?F "alog a i" "nat k"] F x(1) by simp
  have "k \<le> lastLogIndexLocked (nodes s i)" using kept_last(1)[OF relD(7)[OF ri]] len pos by simp
  moreover have "lastIncludedIndexLocked (nodes s i) < k \<Longrightarrow> hasEntry (nodes s i) k x"
    using rel_hasEntry[OF ri _ len] pos by (simp add: at)
  ultimately show ?thesis by linarith
qed


text \<open>
  C8: One vote per term, across crashes.  Whatever happens between them, two granted vote responses
  of a node for the same term answer the same candidate.
  The members are fixed and snapshots are
  delivered where they cut no entries, as \<open>Raft_System\<close> says.
\<close>

theorem one_vote_per_term:
  assumes "net_ok K" "reach K s"
    and "VoteResp j c req resp \<in> msgs s" "rvrVoteGranted resp"
    and "VoteResp j d req' resp' \<in> msgs s" "rvrVoteGranted resp'" "rvTerm req = rvTerm req'"
  shows "c = d"
proof -
  obtain a where a: "areach (cIds K) a" "sysrel K s a" using reach_refines[OF assms(2,1)] by blast
  show ?thesis using sysrelD(3)[OF a(2) assms(3)] sysrelD(3)[OF a(2) assms(5)] assms(4,6,7) by auto
qed

text \<open>
  C13: Index bounds.  In every reachable state the snapshot index, the applied index, the commit
  index and the last log index of a node are non-negative and ordered.
  The members are fixed and snapshots are
  delivered where they cut no entries, as \<open>Raft_System\<close> says.
\<close>

theorem indices_ordered:
  assumes "net_ok K" "reach K s" "i \<in> set (cIds K)"
  shows "0 \<le> lastIncludedIndexLocked (nodes s i) \<and>
     lastIncludedIndexLocked (nodes s i) \<le> lastApplied (nodes s i) \<and>
     lastApplied (nodes s i) \<le> commitIndex (nodes s i) \<and>
     commitIndex (nodes s i) \<le> lastLogIndexLocked (nodes s i)"
proof -
  obtain a where a: "areach (cIds K) a" "sysrel K s a" using reach_refines[OF assms(2,1)] by blast
  show ?thesis using rel_indices[OF sysrelD(1)[OF a(2) assms(3)]] by simp
qed

lemma keeps_log_ok:
  assumes "keeps n F b"
  shows "log_ok (rlog n)"
proof -
  have F: "full_ok F" "b < length F" "rlog n = dummyAt F b # drop (Suc b) F" using assms by (auto simp: keeps_def view_def)
  have i: "eIndex (dummyAt F b) = int b" "eTerm (dummyAt F b) = eTerm (F ! b)" using F(1,2) by (auto simp: dummyAt_def full_ok_def)
  have "map eTerm (rlog n) = drop b (map eTerm F)" using F(2,3) i(2) by (simp add: drop_map Cons_nth_drop_Suc[symmetric])
  moreover have "sorted (drop b (map eTerm F))" using F(1) by (simp add: full_ok_def sorted_wrt_drop)
  moreover have "eIndex (rlog n ! k) = int (b + k)" if "k < length (rlog n)" for k
    using F i(1) that by (cases k) (auto simp: full_ok_def)
  then have "contiguous (rlog n)" using F(3) i(1) by (intro contiguousI) simp
  ultimately show ?thesis using F(3) by (simp add: log_ok_def)
qed

text \<open>
  C12: Nodes are well formed.  In every reachable state a node has its own id and the members it was
  started with, its log starts at the snapshot, has consecutive indices and terms that do not
  decrease, and ends in a term that the node has reached.
  The members are fixed and snapshots are
  delivered where they cut no entries, as \<open>Raft_System\<close> says.
\<close>

theorem nodes_well_formed:
  assumes "net_ok K" "reach K s" "i \<in> set (cIds K)"
  shows "nid (nodes s i) = i \<and> peerIDs (nodes s i) = cIds K \<and> log_ok (rlog (nodes s i)) \<and>
     lastLogTermLocked (nodes s i) \<le> currentTerm (nodes s i)"
proof -
  obtain a where a: "areach (cIds K) a" "sysrel K s a" using reach_refines[OF assms(2,1)] by blast
  note r = sysrelD(1)[OF a(2) assms(3)]
  from relD(7)[OF r] obtain b where b: "keeps (nodes s i) (alog a i) b" unfolding kept_def by blast
  have F: "alog a i \<noteq> []" using b by (auto simp: keeps_def)
  then have "eTerm (last (alog a i)) \<le> aterm a i"
    using invD(1)[OF areach_inv[OF a(1)]] assms(3) unfolding inv_term_def by (meson last_in_set)
  then show ?thesis using relD(1,2)[OF r] keeps_log_ok[OF b] keeps_last(2)[OF b] by (simp add: conf_def)
qed

subsection \<open>Linearizable reads\<close>

lemma sys_term_mono:
  assumes "sys_step K s s'" and "sysrel K s a"
  shows "i \<in> set (cIds K) \<Longrightarrow> currentTerm (nodes s i) \<le> currentTerm (nodes s' i)"
  using assms(1) by cases (auto simp: deliver_def intro: node.step_term sysrelD(2)[OF assms(2)])

lemma run_term_mono:
  assumes "run K s s'" and K: "net_ok K" "reach K s" and i: "i \<in> set (cIds K)"
  shows "currentTerm (nodes s i) \<le> currentTerm (nodes s' i)"
  using assms(1)
proof (induction rule: rtranclp_induct)
  case (step s1 s2)
  obtain b where "sysrel K s1 b" using reach_refines[OF run_reach[OF step(1) K(2)] K(1)] by blast
  then show ?case using sys_term_mono[OF step(2) _ i] step(3) by (meson order_trans)
qed simp

lemma rel_committed_term:
  assumes "rel K i a n" and "committedCurrentTermLocked n"
  shows "eTerm (alog a i ! acommit a i) = aterm a i"
  using relD(7)[OF assms(1)] assms(2) relD(2,6)[OF assms(1)] unfolding kept_def
  by (auto simp: committedCurrentTermLocked_def keeps_termAt split: if_splits)

lemma read_index_le:
  assumes "net_ok K" "reach K s" "i \<in> set (cIds K)" "j \<in> set (cIds K)"
    and "state (nodes s i) = Leader" "committedCurrentTermLocked (nodes s i)"
    and "is_majority (cIds K) Q"
    and "\<forall>p \<in> Q. \<exists>s'. run K s s' \<and> currentTerm (nodes s' p) \<le> currentTerm (nodes s i)"
    and a: "areach (cIds K) a" "sysrel K s a"
  shows "commitIndex (nodes s j) \<le> commitIndex (nodes s i)"
proof -
  note ri = sysrelD(1)[OF a(2) assms(3)] and rj = sysrelD(1)[OF a(2) assms(4)]
  have Q: "aterm a p \<le> aterm a i" if "p \<in> Q" for p
  proof -
    have p: "p \<in> set (cIds K)" using assms(7) that unfolding is_majority_def by blast
    from assms(8) that obtain s' where s': "run K s s'" "currentTerm (nodes s' p) \<le> currentTerm (nodes s i)" by blast
    show ?thesis
      using order_trans[OF run_term_mono[OF s'(1) assms(1,2) p] s'(2)]
      unfolding relD(2)[OF ri] relD(2)[OF sysrelD(1)[OF a(2) p]] .
  qed
  have "arole a i = Leader" using relD(3)[OF ri] assms(5) by simp
  then have "acommit a j \<le> acommit a i"
    using Q by (intro read_index_max[OF areach_inv[OF a(1)] areach_decl[OF a(1)] assms(3) _
        rel_committed_term[OF ri assms(6)] assms(7) _ assms(4)]) blast+
  then show ?thesis unfolding relD(6)[OF ri] relD(6)[OF rj] by simp
qed

lemma read_applied_le:
  assumes K: "net_ok K" "reach K s" and ij: "i \<in> set (cIds K)" "j \<in> set (cIds K)"
    and lead: "state (nodes s i) = Leader" "committedCurrentTermLocked (nodes s i)"
    and Q: "is_majority (cIds K) Q"
      "\<forall>p \<in> Q. \<exists>s'. run K s s' \<and> currentTerm (nodes s' p) \<le> currentTerm (nodes s i)"
    and "commitIndex (nodes s i) \<le> k"
  shows "lastApplied (nodes s j) \<le> k"
proof -
  obtain a where a: "areach (cIds K) a" "sysrel K s a" using reach_refines[OF K(2,1)] by blast
  show ?thesis
    using read_index_le[OF K ij lead Q a] rel_indices(3)[OF sysrelD(1)[OF a(2) ij(2)]] assms(9) by linarith
qed


end
