(* ===== verification/Go_Quote.thy ===== *)
theory Go_Quote
  imports Go_Utf8
begin

text \<open>
  Strings and numbers in JSON text, as Go's \<open>encoding/json\<close> (Go 1.22) writes and reads them: strings
  are quoted with HTML escaping and malformed UTF-8 replaced, integers are written in decimal.
\<close>

subsection \<open>Strings\<close>

definition hexDigit :: "nat \<Rightarrow> char" where
  "hexDigit k = ''0123456789abcdef'' ! k"

definition hexVal :: "char \<Rightarrow> nat option" where
  "hexVal c =
     (let k = code c in
      if 48 \<le> k \<and> k < 58 then Some (k - 48)
      else if 97 \<le> k \<and> k < 103 then Some (k - 87)
      else if 65 \<le> k \<and> k < 71 then Some (k - 55)
      else None)"

text \<open>\<open>getu4\<close>: four hexadecimal digits.\<close>

definition hex4 :: "string \<Rightarrow> nat option" where
  "hex4 s = (case s of
     a # b # c # d # _ \<Rightarrow>
       (case (hexVal a, hexVal b, hexVal c, hexVal d) of
          (Some w, Some x, Some y, Some z) \<Rightarrow> Some (((w * 16 + x) * 16 + y) * 16 + z)
        | _ \<Rightarrow> None)
   | _ \<Rightarrow> None)"

text \<open>\<open>appendString\<close>: how one ASCII byte is written.\<close>

definition escAscii :: "char \<Rightarrow> string" where
  "escAscii c =
     (if c = CHR ''\"'' \<or> c = CHR 0x5C then [CHR 0x5C, c]
      else if code c = 8 then CHR 0x5C # ''b''
      else if code c = 12 then CHR 0x5C # ''f''
      else if code c = 10 then CHR 0x5C # ''n''
      else if code c = 13 then CHR 0x5C # ''r''
      else if code c = 9 then CHR 0x5C # ''t''
      else if code c < 32 \<or> c \<in> set ''<>&''
        then CHR 0x5C # ''u00'' @ [hexDigit (code c div 16), hexDigit (code c mod 16)]
      else [c])"

fun escape :: "string \<Rightarrow> string" where
  "escape [] = []"
| "escape (c # cs) =
     (let n = runeLen (c # cs) in
      if n = 0 then CHR 0x5C # ''ufffd'' @ escape cs
      else if n = 1 then escAscii c @ escape cs
      else if take n (c # cs) = map chr [226, 128, 168] then CHR 0x5C # ''u2028'' @ escape (drop (n - 1) cs)
      else if take n (c # cs) = map chr [226, 128, 169] then CHR 0x5C # ''u2029'' @ escape (drop (n - 1) cs)
      else take n (c # cs) @ escape (drop (n - 1) cs))"

definition quote :: "string \<Rightarrow> string" where
  "quote s = CHR ''\"'' # escape s @ ''\"''"

definition simpleEsc :: "char \<Rightarrow> char option" where
  "simpleEsc e =
     (if e = CHR ''\"'' \<or> e = CHR 0x5C \<or> e = CHR ''/'' then Some e
      else if e = CHR ''b'' then Some (chr 8)
      else if e = CHR ''f'' then Some (chr 12)
      else if e = CHR ''n'' then Some (chr 10)
      else if e = CHR ''r'' then Some (chr 13)
      else if e = CHR ''t'' then Some (chr 9)
      else None)"

text \<open>The second half of a surrogate pair: \<open>s\<close> starts with an escaped low surrogate.\<close>

definition lowSurrogate :: "string \<Rightarrow> nat option" where
  "lowSurrogate s = (case s of
     a # b # r \<Rightarrow>
       (if a = CHR 0x5C \<and> b = CHR ''u'' then
          (case hex4 r of Some v \<Rightarrow> if 56320 \<le> v \<and> v < 57344 then Some v else None | None \<Rightarrow> None)
        else None)
   | _ \<Rightarrow> None)"

text \<open>
  \<open>unquote\<close>, together with the checks of the scanner inside a string: the contents up to the closing
  quote and what follows it.
\<close>

definition unquoteRune :: "string \<Rightarrow> (string \<times> string) option" where
  "unquoteRune s = (case s of
     [] \<Rightarrow> None
   | c # cs \<Rightarrow>
       (if c = CHR 0x5C then
          (case cs of
             [] \<Rightarrow> None
           | e # r \<Rightarrow>
               (if e = CHR ''u'' then
                  (case hex4 r of
                     None \<Rightarrow> None
                   | Some v \<Rightarrow>
                       (if surrogate v then
                          (case lowSurrogate (drop 4 r) of
                             None \<Rightarrow> Some (runeError, drop 4 r)
                           | Some w \<Rightarrow>
                               (if v < 56320
                                then Some (utf8_encode ((v - 55296) * 1024 + (w - 56320) + 65536), drop 10 r)
                                else Some (runeError, drop 4 r)))
                        else Some (utf8_encode v, drop 4 r)))
                else map_option (\<lambda>x. ([x], r)) (simpleEsc e)))
        else if code c < 32 then None
        else
          (let n = runeLen s in
           if n = 0 then Some (runeError, cs) else Some (take n s, drop n s))))"

lemma unquoteRune_shorter: "unquoteRune s = Some (r, t) \<Longrightarrow> length t < length s"
  by (auto simp: unquoteRune_def Let_def split: list.splits option.splits if_splits)

function unquote :: "string \<Rightarrow> (string \<times> string) option" where
  "unquote [] = None"
| "unquote (c # cs) =
     (if c = CHR ''\"'' then Some ([], cs)
      else case unquoteRune (c # cs) of
             None \<Rightarrow> None
           | Some (r, rest) \<Rightarrow> map_option (\<lambda>(s, t). (r @ s, t)) (unquote rest))"
  by pat_completeness auto
termination
  by (relation "measure length") (auto dest: unquoteRune_shorter)

text \<open>What is read is well formed, whatever the input.\<close>

lemma hex4_less: "hex4 s = Some v \<Longrightarrow> v < 65536"
proof -
  have h: "hexVal c = Some x \<Longrightarrow> x < 16" for c x by (auto simp: hexVal_def Let_def split: if_splits)
  assume "hex4 s = Some v"
  then show ?thesis by (auto simp: hex4_def split: list.splits option.splits dest!: h)
qed

lemma lowSurrogate_range: "lowSurrogate s = Some w \<Longrightarrow> 56320 \<le> w \<and> w < 57344"
  by (auto simp: lowSurrogate_def split: list.splits if_splits option.splits)

lemma valid_surrogate_pair:
  assumes "surrogate v" "v < 56320" "lowSurrogate s = Some w" "valid_utf8 t"
  shows "valid_utf8 (utf8_encode ((v - 55296) * 1024 + (w - 56320) + 65536) @ t)"
  using assms lowSurrogate_range[OF assms(3)] by (intro valid_encode_append) (auto simp: surrogate_def)

lemma simpleEsc_ascii: "simpleEsc e = Some x \<Longrightarrow> code x < 128"
  by (auto simp: simpleEsc_def split: if_splits)

lemma valid_hex4: "hex4 s = Some v \<Longrightarrow> \<not> surrogate v \<Longrightarrow> valid_utf8 t \<Longrightarrow> valid_utf8 (utf8_encode v @ t)"
  using hex4_less[of s v] by (intro valid_encode_append) auto

lemma valid_unquoteRune:
  assumes "unquoteRune s = Some (r, t)" and "valid_utf8 u"
  shows "valid_utf8 (r @ u)"
proof -
  obtain c cs where s: "s = c # cs" using assms(1) by (cases s) (auto simp: unquoteRune_def)
  show ?thesis
  proof (cases "c = CHR 0x5C")
    case True
    then show ?thesis
      using assms s valid_runeError_append valid_surrogate_pair
      by (auto simp: unquoteRune_def split: list.splits option.splits if_splits
          intro: valid_hex4 dest: simpleEsc_ascii)
  next
    case False
    then show ?thesis
      using assms s valid_runeError_append valid_rune_append[of s u]
      by (auto simp: unquoteRune_def Let_def split: if_splits)
  qed
qed

lemma valid_unquote: "unquote s = Some (v, r) \<Longrightarrow> valid_utf8 v"
  by (induction s arbitrary: v r rule: unquote.induct)
    (auto split: if_splits option.splits intro: valid_unquoteRune)

text \<open>Reading a quoted string gives the string with the malformed bytes replaced.\<close>

lemma unquote_step:
  assumes "unquoteRune (y @ x) = Some (r, x)" and "y \<noteq> []" and "hd y \<noteq> CHR ''\"''"
  shows "unquote (y @ x) = map_option (\<lambda>(s, t). (r @ s, t)) (unquote x)"
  using assms by (cases y) auto


lemma hexVal_hexDigit: "k < 16 \<Longrightarrow> hexVal (hexDigit k) = Some k"
proof -
  assume "k < 16"
  then have "k \<in> set [0..<16]" by simp
  moreover have "\<forall>k \<in> set [0..<16]. hexVal (hexDigit k) = Some k" by code_simp
  ultimately show ?thesis by blast
qed

lemma hex4_byte:
  assumes "k < 256"
  shows "hex4 (CHR ''0'' # CHR ''0'' # hexDigit (k div 16) # hexDigit (k mod 16) # x) = Some k"
proof -
  have "k div 16 < 16" using assms by (simp add: less_mult_imp_div_less)
  moreover have "hexVal (CHR ''0'') = Some 0" by code_simp
  ultimately show ?thesis by (simp add: hex4_def hexVal_hexDigit)
qed

lemma unquote_escAscii:
  assumes "code c < 128"
  shows "unquoteRune (escAscii c @ x) = Some ([c], x)" and "escAscii c \<noteq> []" and "hd (escAscii c) \<noteq> CHR ''\"''"
proof -
  have k: "code c = k \<Longrightarrow> c = chr k" for k by auto
  have u: "utf8_encode (code c) = [c]" "\<not> surrogate (code c)"
    using assms by (simp_all add: utf8_encode_def surrogate_def)
  show "unquoteRune (escAscii c @ x) = Some ([c], x)"
  proof (cases "c \<in> {CHR ''\"'', CHR 0x5C} \<or> code c \<in> {8, 12, 10, 13, 9}")
    case True
    then show ?thesis by (auto simp: escAscii_def unquoteRune_def simpleEsc_def dest: k)
  next
    case False
    show ?thesis
    proof (cases "code c < 32 \<or> c \<in> set ''<>&''")
      case True
      then have "escAscii c = CHR 0x5C # ''u00'' @ [hexDigit (code c div 16), hexDigit (code c mod 16)]"
        using False by (simp add: escAscii_def)
      then show ?thesis using u hex4_byte[of "code c" x] assms by (simp add: unquoteRune_def)
    next
      case plain: False
      then have "escAscii c = [c]" using False by (simp add: escAscii_def)
      then show ?thesis using False plain assms by (simp add: unquoteRune_def)
    qed
  qed
  show "escAscii c \<noteq> []" "hd (escAscii c) \<noteq> CHR ''\"''" by (auto simp: escAscii_def)
qed

lemma unquote_escapeU:
  "unquoteRune (CHR 0x5C # ''ufffd'' @ x) = Some (runeError, x)"
  "unquoteRune (CHR 0x5C # ''u2028'' @ x) = Some (map chr [226, 128, 168], x)"
  "unquoteRune (CHR 0x5C # ''u2029'' @ x) = Some (map chr [226, 128, 169], x)"
proof -
  have h: "hex4 (''fffd'' @ x) = Some 65533" "hex4 (''2028'' @ x) = Some 8232" "hex4 (''2029'' @ x) = Some 8233"
    by (simp_all add: hex4_def hexVal_def)
  have "utf8_encode 65533 = runeError" "utf8_encode 8232 = map chr [226, 128, 168]"
    "utf8_encode 8233 = map chr [226, 128, 169]" "\<not> surrogate 65533" "\<not> surrogate 8232" "\<not> surrogate 8233"
    by code_simp+
  with h show "unquoteRune (CHR 0x5C # ''ufffd'' @ x) = Some (runeError, x)"
    "unquoteRune (CHR 0x5C # ''u2028'' @ x) = Some (map chr [226, 128, 168], x)"
    "unquoteRune (CHR 0x5C # ''u2029'' @ x) = Some (map chr [226, 128, 169], x)"
    by (simp_all add: unquoteRune_def)
qed

lemma unquote_rune:
  assumes "runeLen s = n" "1 < n"
  shows "unquoteRune (take n s @ x) = Some (take n s, x)" and "take n s \<noteq> []" and "hd (take n s) \<noteq> CHR ''\"''"
proof -
  obtain c cs where s: "s = c # cs" using assms by (cases s) auto
  have c: "128 \<le> code c" using assms s by (metis not_less runeLen_ascii less_irrefl)
  then have ne: "c \<noteq> CHR 0x5C" "c \<noteq> CHR ''\"''" by auto
  obtain m where n: "n = Suc m" using assms(2) by (cases n) auto
  have len: "n \<le> length s" using runeLen_le(1)[of s] assms(1) by simp
  have "runeLen (take n s @ x) = n" by (rule runeLen_take[OF assms(1)]) (use assms(2) in simp)
  then show "unquoteRune (take n s @ x) = Some (take n s, x)"
    using c ne assms(2) s n len by (simp add: unquoteRune_def)
  show "take n s \<noteq> []" "hd (take n s) \<noteq> CHR ''\"''" using s n ne by simp_all
qed

theorem unquote_escape: "unquote (escape s @ CHR ''\"'' # x) = Some (sanitize s, x)"
proof (induction s rule: length_induct)
  case (1 s)
  then have IH: "length t < length s \<Longrightarrow> unquote (escape t @ CHR ''\"'' # x) = Some (sanitize t, x)" for t by blast
  show ?case
  proof (cases s)
    case (Cons c cs)
    let ?n = "runeLen (c # cs)" and ?d = "drop (runeLen (c # cs) - 1) cs"
    have step: "unquote (y @ escape t @ CHR ''\"'' # x) = Some (r @ sanitize t, x)"
      if "unquoteRune (y @ escape t @ CHR ''\"'' # x) = Some (r, escape t @ CHR ''\"'' # x)"
        "y \<noteq> []" "hd y \<noteq> CHR ''\"''" "length t < length s" for y t r
      using unquote_step[OF that(1-3)] IH[OF that(4)] by simp
    consider "?n = 0" | "?n = 1" | "1 < ?n" by linarith
    then show ?thesis
    proof cases
      case 1
      then show ?thesis
        using step[of "CHR 0x5C # ''ufffd''" cs] unquote_escapeU(1) Cons by simp
    next
      case 2
      then have "code c < 128" by (auto simp: runeLen_def split: if_splits list.splits)
      then show ?thesis
        using step[OF unquote_escAscii, of c cs] Cons by simp
    next
      case 3
      let ?u = "take ?n (c # cs)"
      have esc: "escape (c # cs) = (if ?u = map chr [226, 128, 168] then CHR 0x5C # ''u2028''
          else if ?u = map chr [226, 128, 169] then CHR 0x5C # ''u2029'' else ?u) @ escape ?d"
        using 3 by (simp only: escape.simps Let_def) simp
      have san: "sanitize (c # cs) = ?u @ sanitize ?d" using 3 by (simp only: sanitize.simps) simp
      have d: "length ?d < length s" using Cons by simp
      have "unquote (escape (c # cs) @ CHR ''\"'' # x) = Some (?u @ sanitize ?d, x)"
        unfolding esc append_assoc using unquote_escapeU(2,3) unquote_rune[OF refl 3]
        by (intro step[OF _ _ _ d]) (auto split: if_splits)
      then show ?thesis unfolding Cons san .
    qed
  qed simp
qed

subsection \<open>Numbers\<close>

definition isDigit :: "char \<Rightarrow> bool" where
  "isDigit c \<longleftrightarrow> 48 \<le> code c \<and> code c < 58"

fun showNat :: "nat \<Rightarrow> string" where
  "showNat n = (if n < 10 then [chr (48 + n)] else showNat (n div 10) @ [chr (48 + n mod 10)])"

declare showNat.simps [simp del]

text \<open>\<open>strconv.AppendInt\<close> in base 10.\<close>

definition showInt :: "int \<Rightarrow> string" where
  "showInt i = (if i < 0 then CHR ''-'' # showNat (nat (- i)) else showNat (nat i))"

definition readNat :: "string \<Rightarrow> nat" where
  "readNat s = fold (\<lambda>c v. 10 * v + (code c - 48)) s 0"

text \<open>\<open>strconv.ParseInt\<close> on a JSON number: only a literal without fraction and exponent is an integer.\<close>

definition readInt :: "string \<Rightarrow> int option" where
  "readInt s = (case s of
     [] \<Rightarrow> None
   | c # cs \<Rightarrow>
       (if c = CHR ''-'' then (if cs \<noteq> [] \<and> list_all isDigit cs then Some (- int (readNat cs)) else None)
        else if list_all isDigit s then Some (int (readNat s)) else None))"

lemma isDigit_chr: "n < 10 \<Longrightarrow> isDigit (chr (48 + n))"
  by (simp add: isDigit_def)

lemma showNat_digits: "list_all isDigit (showNat n)"
proof (induction n rule: showNat.induct)
  case (1 n)
  then show ?case by (subst showNat.simps) (simp add: isDigit_chr)
qed

lemma showNat_nonempty [simp]: "showNat n \<noteq> []"
  by (subst showNat.simps) simp

lemma readNat_showNat [simp]: "readNat (showNat n) = n"
proof (induction n rule: showNat.induct)
  case (1 n)
  have "code (chr (48 + n mod 10)) = 48 + n mod 10" by (intro code_chr) linarith
  then show ?case using 1 by (subst showNat.simps) (auto simp: readNat_def)
qed

lemma readInt_showInt [simp]: "readInt (showInt i) = Some i"
proof (cases "i < 0")
  case True
  then show ?thesis using showNat_digits by (simp add: showInt_def readInt_def)
next
  case False
  obtain c cs where s: "showNat (nat i) = c # cs" by (cases "showNat (nat i)") auto
  have "list_all isDigit (c # cs)" using showNat_digits[of "nat i"] s by simp
  moreover have "c \<noteq> CHR ''-''" using calculation by (auto simp: isDigit_def)
  moreover have "readNat (c # cs) = nat i" using s readNat_showNat by metis
  ultimately show ?thesis using False s by (simp add: showInt_def readInt_def)
qed

text \<open>
  \<open>scanNumber\<close> takes a number from the front of the input: an optional sign, an integer part without
  leading zeros, an optional fraction and an optional exponent.
\<close>

definition digits :: "string \<Rightarrow> (string \<times> string) option" where
  "digits s = (let d = takeWhile isDigit s in if d = [] then None else Some (d, dropWhile isDigit s))"

definition scanWhole :: "string \<Rightarrow> (string \<times> string) option" where
  "scanWhole s = (case s of
     [] \<Rightarrow> None
   | c # cs \<Rightarrow> if c = CHR ''0'' then Some ([c], cs) else digits s)"

definition scanFrac :: "string \<Rightarrow> (string \<times> string) option" where
  "scanFrac s = (case s of
     [] \<Rightarrow> Some ([], [])
   | c # cs \<Rightarrow>
       (if c = CHR ''.'' then map_option (\<lambda>(d, r). (c # d, r)) (digits cs) else Some ([], s)))"

definition scanExp :: "string \<Rightarrow> (string \<times> string) option" where
  "scanExp s = (case s of
     [] \<Rightarrow> Some ([], [])
   | c # cs \<Rightarrow>
       (if c = CHR ''e'' \<or> c = CHR ''E'' then
          (case cs of
             [] \<Rightarrow> None
           | g # gs \<Rightarrow>
               (if g = CHR ''+'' \<or> g = CHR ''-'' then map_option (\<lambda>(d, r). (c # g # d, r)) (digits gs)
                else map_option (\<lambda>(d, r). (c # d, r)) (digits cs)))
        else Some ([], s)))"

definition scanUnsigned :: "string \<Rightarrow> (string \<times> string) option" where
  "scanUnsigned s =
     (case scanWhole s of None \<Rightarrow> None | Some (w, s2) \<Rightarrow>
      (case scanFrac s2 of None \<Rightarrow> None | Some (f, s3) \<Rightarrow>
      (case scanExp s3 of None \<Rightarrow> None | Some (e, s4) \<Rightarrow> Some (w @ f @ e, s4))))"

definition scanNumber :: "string \<Rightarrow> (string \<times> string) option" where
  "scanNumber s = (case s of
     [] \<Rightarrow> None
   | c # cs \<Rightarrow>
       (if c = CHR ''-'' then map_option (\<lambda>(d, r). (c # d, r)) (scanUnsigned cs) else scanUnsigned s))"

lemma digits_shorter: "digits s = Some (d, r) \<Longrightarrow> length r < length s"
proof -
  have "length (takeWhile isDigit s) + length (dropWhile isDigit s) = length s"
    by (metis length_append takeWhile_dropWhile_id)
  moreover assume "digits s = Some (d, r)"
  then have "0 < length (takeWhile isDigit s)" and r: "r = dropWhile isDigit s"
    by (auto simp: digits_def Let_def split: if_splits)
  ultimately show ?thesis unfolding r by linarith
qed

lemma scanNumber_shorter: "scanNumber s = Some (d, r) \<Longrightarrow> length r < length s"
proof -
  have w: "scanWhole s = Some (d, r) \<Longrightarrow> length r < length s" for s d r
    by (auto simp: scanWhole_def split: list.splits if_splits dest: digits_shorter)
  have f: "scanFrac s = Some (d, r) \<Longrightarrow> length r \<le> length s" for s d r
    by (auto simp: scanFrac_def split: list.splits if_splits dest!: digits_shorter)
  have e: "scanExp s = Some (d, r) \<Longrightarrow> length r \<le> length s" for s d r
    by (auto simp: scanExp_def split: list.splits if_splits dest!: digits_shorter)
  have u: "length r < length s" if "scanUnsigned s = Some (d, r)" for s d r
  proof -
    from that obtain a b c x y where "scanWhole s = Some (a, x)" "scanFrac x = Some (b, y)" "scanExp y = Some (c, r)"
      by (auto simp: scanUnsigned_def split: option.splits)
    then show ?thesis using w[of s a x] f[of x b y] e[of y c r] by simp
  qed
  assume "scanNumber s = Some (d, r)"
  then show ?thesis
    using u[of "tl s"] u[of s] by (auto simp: scanNumber_def split: list.splits if_splits)
qed

end
