(* ===== verification/Go_Json.thy ===== *)
theory Go_Json
  imports Go_Quote
begin

text \<open>
  JSON values as Go's package \<open>encoding/json\<close> (Go 1.22) writes and reads them.  A value is written by
  \<open>emit\<close> (compact) and read back by \<open>parse\<close>: a lexer that cuts the text into tokens and a push-down
  machine over the tokens, like the scanner of the package, with its limit on nesting.  Reading what
  was written gives the value back with every string sanitized.
\<close>

subsection \<open>Values and tokens\<close>

datatype json = JNull | JBool bool | JNum string | JStr string | JArr "json list" | JObj "(string \<times> json) list"

datatype tok = TNull | TBool bool | TNum string | TStr string
  | TLBrack | TRBrack | TLBrace | TRBrace | TColon | TComma

fun tokText :: "tok \<Rightarrow> string" where
  "tokText TNull = ''null''"
| "tokText (TBool b) = (if b then ''true'' else ''false'')"
| "tokText (TNum n) = n"
| "tokText (TStr s) = quote s"
| "tokText TLBrack = ''[''"
| "tokText TRBrack = '']''"
| "tokText TLBrace = ''{''"
| "tokText TRBrace = ''}''"
| "tokText TColon = '':''"
| "tokText TComma = '',''"

text \<open>The tokens of a list of values, with the separators.\<close>

fun sepBy :: "tok list list \<Rightarrow> tok list" where
  "sepBy [] = []"
| "sepBy [ts] = ts"
| "sepBy (ts # tss) = ts @ TComma # sepBy tss"

fun toks :: "json \<Rightarrow> tok list" where
  "toks JNull = [TNull]"
| "toks (JBool b) = [TBool b]"
| "toks (JNum n) = [TNum n]"
| "toks (JStr s) = [TStr s]"
| "toks (JArr vs) = TLBrack # sepBy (map toks vs) @ [TRBrack]"
| "toks (JObj kvs) = TLBrace # sepBy (map (\<lambda>(k, v). TStr k # TColon # toks v) kvs) @ [TRBrace]"

definition emit :: "json \<Rightarrow> string" where
  "emit j = concat (map tokText (toks j))"

text \<open>One token; \<open>null\<close>, \<open>true\<close> and \<open>false\<close> are matched letter by letter.\<close>

definition isSpace :: "char \<Rightarrow> bool" where
  "isSpace c \<longleftrightarrow> c = CHR '' '' \<or> code c = 9 \<or> code c = 10 \<or> code c = 13"

definition word :: "string \<Rightarrow> tok \<Rightarrow> string \<Rightarrow> (tok \<times> string) option" where
  "word w t s = (if take (length w) s = w then Some (t, drop (length w) s) else None)"

definition lexTok :: "string \<Rightarrow> (tok \<times> string) option" where
  "lexTok s = (case s of
     [] \<Rightarrow> None
   | c # cs \<Rightarrow>
       (if c = CHR ''\"'' then map_option (\<lambda>(v, r). (TStr v, r)) (unquote cs)
        else if c = CHR ''['' then Some (TLBrack, cs)
        else if c = CHR '']'' then Some (TRBrack, cs)
        else if c = CHR ''{'' then Some (TLBrace, cs)
        else if c = CHR ''}'' then Some (TRBrace, cs)
        else if c = CHR '':'' then Some (TColon, cs)
        else if c = CHR '','' then Some (TComma, cs)
        else if c = CHR ''n'' then word ''null'' TNull s
        else if c = CHR ''t'' then word ''true'' (TBool True) s
        else if c = CHR ''f'' then word ''false'' (TBool False) s
        else map_option (\<lambda>(n, r). (TNum n, r)) (scanNumber s)))"

lemma unquote_shorter: "unquote s = Some (v, r) \<Longrightarrow> length r < length s"
proof (induction s arbitrary: v r rule: unquote.induct)
  case (2 c cs)
  show ?case
  proof (cases "c = CHR ''\"''")
    case False
    then obtain a t where a: "unquoteRune (c # cs) = Some (a, t)" using 2(2) by (auto split: option.splits)
    then obtain u where "unquote t = Some (u, r)" using 2(2) False by auto
    then show ?thesis using 2(1)[OF False a refl] unquoteRune_shorter[OF a] by force
  qed (use 2(2) in simp)
qed simp

lemma lexTok_shorter: "lexTok s = Some (t, r) \<Longrightarrow> length r < length s"
  by (auto simp: lexTok_def word_def split: list.splits if_splits dest: unquote_shorter scanNumber_shorter)

function tokenize :: "string \<Rightarrow> tok list option" where
  "tokenize [] = Some []"
| "tokenize (c # cs) =
     (if isSpace c then tokenize cs
      else case lexTok (c # cs) of
             None \<Rightarrow> None
           | Some (t, r) \<Rightarrow> map_option ((#) t) (tokenize r))"
  by pat_completeness auto
termination
  by (relation "measure length") (auto dest: lexTok_shorter)

text \<open>
  The push-down machine.  A frame is an array or object under construction, an object with the key
  whose value is being read.
\<close>

datatype frame = FArr "json list" | FObj "(string \<times> json) list" string

datatype mode = BeginValue | BeginValueOrEnd | BeginKey | BeginKeyOrEnd | Colon | EndValue | Finished json

definition maxNesting :: nat where "maxNesting = 10000"

fun reduce :: "json \<Rightarrow> frame list \<Rightarrow> mode \<times> frame list" where
  "reduce v [] = (Finished v, [])"
| "reduce v (FArr vs # st) = (EndValue, FArr (vs @ [v]) # st)"
| "reduce v (FObj kvs k # st) = (EndValue, FObj (kvs @ [(k, v)]) '''' # st)"

fun beginValue :: "tok \<Rightarrow> frame list \<Rightarrow> (mode \<times> frame list) option" where
  "beginValue TNull st = Some (reduce JNull st)"
| "beginValue (TBool b) st = Some (reduce (JBool b) st)"
| "beginValue (TNum n) st = Some (reduce (JNum n) st)"
| "beginValue (TStr s) st = Some (reduce (JStr s) st)"
| "beginValue TLBrack st = (if length st < maxNesting then Some (BeginValueOrEnd, FArr [] # st) else None)"
| "beginValue TLBrace st = (if length st < maxNesting then Some (BeginKeyOrEnd, FObj [] '''' # st) else None)"
| "beginValue _ st = None"

fun beginKey :: "tok \<Rightarrow> frame list \<Rightarrow> (mode \<times> frame list) option" where
  "beginKey (TStr k) (FObj kvs _ # st) = Some (Colon, FObj kvs k # st)"
| "beginKey _ _ = None"

fun endValue :: "tok \<Rightarrow> frame list \<Rightarrow> (mode \<times> frame list) option" where
  "endValue TComma (FArr vs # st) = Some (BeginValue, FArr vs # st)"
| "endValue TRBrack (FArr vs # st) = Some (reduce (JArr vs) st)"
| "endValue TComma (FObj kvs k # st) = Some (BeginKey, FObj kvs k # st)"
| "endValue TRBrace (FObj kvs k # st) = Some (reduce (JObj kvs) st)"
| "endValue _ _ = None"

fun pstep :: "tok \<Rightarrow> mode \<times> frame list \<Rightarrow> (mode \<times> frame list) option" where
  "pstep t (BeginValue, st) = beginValue t st"
| "pstep t (BeginValueOrEnd, st) = (if t = TRBrack then endValue t st else beginValue t st)"
| "pstep t (BeginKey, st) = beginKey t st"
| "pstep t (BeginKeyOrEnd, st) = (if t = TRBrace then endValue t st else beginKey t st)"
| "pstep t (Colon, st) = (if t = TColon then Some (BeginValue, st) else None)"
| "pstep t (EndValue, st) = endValue t st"
| "pstep t (Finished v, st) = None"

fun prun :: "tok list \<Rightarrow> mode \<times> frame list \<Rightarrow> (mode \<times> frame list) option" where
  "prun [] s = Some s"
| "prun (t # ts) s = (case pstep t s of None \<Rightarrow> None | Some s' \<Rightarrow> prun ts s')"

definition parse :: "string \<Rightarrow> json option" where
  "parse s = (case tokenize s of
     None \<Rightarrow> None
   | Some ts \<Rightarrow>
       (case prun ts (BeginValue, []) of
          Some (Finished v, []) \<Rightarrow> Some v
        | _ \<Rightarrow> None))"

subsection \<open>Reading what was written\<close>

text \<open>\<open>fits d j\<close>: the value \<open>j\<close> nests at most \<open>d\<close> deep.\<close>

fun fits :: "nat \<Rightarrow> json \<Rightarrow> bool" where
  "fits d (JArr vs) = (0 < d \<and> (\<forall>v \<in> set vs. fits (d - 1) v))"
| "fits d (JObj kvs) = (0 < d \<and> (\<forall>kv \<in> set kvs. fits (d - 1) (snd kv)))"
| "fits d _ = True"

definition begins :: "mode \<Rightarrow> bool" where
  "begins m \<longleftrightarrow> m = BeginValue \<or> m = BeginValueOrEnd"

lemma prun_elems:
  assumes "\<And>v m F rest. v \<in> set vs \<Longrightarrow> begins m \<Longrightarrow>
      prun (toks v @ rest) (m, F # st) = prun rest (reduce v (F # st))"
    and "vs \<noteq> []" and "begins m"
  shows "prun (sepBy (map toks vs) @ rest) (m, FArr us # st) = prun rest (EndValue, FArr (us @ vs) # st)"
  using assms
proof (induction vs arbitrary: us m)
  case (Cons v vs)
  have v: "prun (toks v @ r) (m, FArr us # st) = prun r (EndValue, FArr (us @ [v]) # st)" for r
    using Cons.prems(1,3) by simp
  show ?case
  proof (cases vs)
    case (Cons w ws)
    then show ?thesis using v Cons.IH[of BeginValue "us @ [v]"] Cons.prems(1) by (simp add: begins_def)
  qed (simp add: v)
qed simp

lemma prun_members:
  assumes "\<And>kv m F rest. kv \<in> set kvs \<Longrightarrow> begins m \<Longrightarrow>
      prun (toks (snd kv) @ rest) (m, F # st) = prun rest (reduce (snd kv) (F # st))"
    and "kvs \<noteq> []" and "m = BeginKey \<or> m = BeginKeyOrEnd"
  shows "prun (sepBy (map (\<lambda>(k, v). TStr k # TColon # toks v) kvs) @ rest) (m, FObj us x # st) =
      prun rest (EndValue, FObj (us @ kvs) [] # st)"
  using assms
proof (induction kvs arbitrary: us m x)
  case (Cons kv kvs)
  obtain k v where kv: "kv = (k, v)" by force
  have "prun (TStr k # TColon # ts) (m, FObj us x # st) = prun ts (BeginValue, FObj us k # st)" for ts
    using Cons.prems(3) by auto
  then have v: "prun (TStr k # TColon # toks v @ r) (m, FObj us x # st) =
      prun r (EndValue, FObj (us @ [(k, v)]) [] # st)" for r
    using Cons.prems(1)[of kv BeginValue] kv by (simp add: begins_def)
  show ?case
  proof (cases kvs)
    case Nil
    then show ?thesis using v by (simp add: kv del: prun.simps)
  next
    case (Cons w ws)
    have "prun (TComma # r) (EndValue, FObj (us @ [(k, v)]) [] # st) = prun r (BeginKey, FObj (us @ [(k, v)]) [] # st)" for r
      by simp
    then show ?thesis
      using v Cons.IH[of BeginKey "us @ [(k, v)]" "[]"] Cons.prems(1) Cons by (simp add: kv del: prun.simps)
  qed
qed simp

lemma prun_toks:
  assumes "begins m" and "fits d j" and "length st + d \<le> maxNesting"
  shows "prun (toks j @ rest) (m, st) = prun rest (reduce j st)"
  using assms
proof (induction j arbitrary: m st d rest rule: toks.induct)
  case (5 vs)
  have "length st < maxNesting" using 5(3,4) by auto
  then have "prun (TLBrack # r) (m, st) = prun r (BeginValueOrEnd, FArr [] # st)" for r
    using 5(2) by (auto simp: begins_def)
  moreover have "prun (toks v @ r) (m', F # st) = prun r (reduce v (F # st))"
    if "v \<in> set vs" "begins m'" for v m' F r
    using 5(1)[OF that, of "d - 1" "F # st" r] that(1) 5(3,4) by simp
  ultimately show ?case
    using prun_elems[of vs st BeginValueOrEnd "TRBrack # rest" "[]"]
    by (cases "vs = []") (simp_all add: begins_def del: prun.simps, simp_all)
next
  case (6 kvs)
  have "length st < maxNesting" using 6(3,4) by auto
  then have "prun (TLBrace # r) (m, st) = prun r (BeginKeyOrEnd, FObj [] [] # st)" for r
    using 6(2) by (auto simp: begins_def)
  moreover have "prun (toks (snd kv) @ r) (m', F # st) = prun r (reduce (snd kv) (F # st))"
    if "kv \<in> set kvs" "begins m'" for kv m' F r
    using 6(1)[OF that(1) prod.collapse that(2), of "d - 1" "F # st" r] that(1) 6(3,4) by simp
  ultimately show ?case
    using prun_members[of kvs st BeginKeyOrEnd "TRBrace # rest" "[]" "[]"]
    by (cases "kvs = []") (simp_all add: begins_def del: prun.simps, simp_all)
qed (auto simp: begins_def)

subsection \<open>Lexing what was written\<close>

text \<open>Numbers are always followed by punctuation, so that the lexer stops where they end.\<close>

definition closes :: "string \<Rightarrow> bool" where
  "closes s \<longleftrightarrow> (case s of [] \<Rightarrow> True | c # _ \<Rightarrow> c \<in> set '']},:'')"

fun goodTok :: "tok \<Rightarrow> bool" where
  "goodTok (TNum n) = (\<exists>i. n = showInt i)"
| "goodTok _ = True"

fun spaced :: "tok list \<Rightarrow> bool" where
  "spaced [] = True"
| "spaced (TNum n # ts) = (closes (concat (map tokText ts)) \<and> spaced ts)"
| "spaced (t # ts) = spaced ts"

fun cleanTok :: "tok \<Rightarrow> tok" where
  "cleanTok (TStr s) = TStr (sanitize s)"
| "cleanTok t = t"

lemma digits_showNat:
  assumes "closes r"
  shows "digits (showNat n @ r) = Some (showNat n, r)"
proof -
  have d: "\<And>c. c \<in> set (showNat n) \<Longrightarrow> isDigit c" using showNat_digits by (auto simp: list_all_iff)
  have "r = [] \<or> \<not> isDigit (hd r)" using assms by (auto simp: closes_def isDigit_def split: list.splits)
  then have "takeWhile isDigit r = []" "dropWhile isDigit r = r" by (cases r; auto)+
  then show ?thesis using d by (simp add: digits_def takeWhile_append2 dropWhile_append2)
qed

lemma showNat_head:
  "showNat n = c # cs \<Longrightarrow> isDigit c \<and> (c = CHR ''0'' \<longrightarrow> cs = [])"
proof (induction n arbitrary: c cs rule: showNat.induct)
  case (1 n)
  show ?case
  proof (cases "n < 10")
    case True
    then show ?thesis using 1(2) isDigit_chr[OF True] by (subst (asm) showNat.simps) auto
  next
    case False
    obtain d ds where d: "showNat (n div 10) = d # ds" by (cases "showNat (n div 10)") auto
    have "c = d" "cs \<noteq> []" using 1(2) d False by (subst (asm) showNat.simps, auto)+
    moreover have "d = CHR ''0'' \<longrightarrow> ds = []" "isDigit d" using 1(1)[OF False d] by simp_all
    moreover have "d \<noteq> CHR ''0''"
    proof
      assume "d = CHR ''0''"
      then have "showNat (n div 10) = ''0''" using calculation(3) d by simp
      then have "n div 10 = 0" using readNat_showNat[of "n div 10"] by (simp add: readNat_def)
      then show False using False by simp
    qed
    ultimately show ?thesis by simp
  qed
qed

lemma scanNumber_showInt:
  assumes "closes r"
  shows "scanNumber (showInt i @ r) = Some (showInt i, r)"
proof -
  have u: "scanUnsigned (showNat n @ r) = Some (showNat n, r)" for n
  proof -
    obtain c cs where c: "showNat n = c # cs" by (cases "showNat n") auto
    have "scanWhole (showNat n @ r) = Some (showNat n, r)"
      using digits_showNat[OF assms, of n] showNat_head[OF c] c by (auto simp: scanWhole_def)
    moreover have "scanFrac r = Some ([], r)" "scanExp r = Some ([], r)"
      using assms by (auto simp: scanFrac_def scanExp_def closes_def split: list.splits)
    ultimately show ?thesis by (simp add: scanUnsigned_def)
  qed
  obtain c cs where c: "showNat (nat i) = c # cs" by (cases "showNat (nat i)") auto
  have "c \<noteq> CHR ''-''" using showNat_head[OF c] by (auto simp: isDigit_def)
  then show ?thesis using u[of "nat i"] u[of "nat (- i)"] c by (auto simp: showInt_def scanNumber_def)
qed

lemma tokenize_step:
  assumes "lexTok (w @ r) = Some (t, r)" and "w \<noteq> []" and "\<not> isSpace (hd w)"
  shows "tokenize (w @ r) = map_option ((#) t) (tokenize r)"
  using assms by (cases w) auto

lemma showInt_head: "\<exists>c cs. showInt i = c # cs \<and> (isDigit c \<or> c = CHR ''-'')"
proof -
  obtain c cs where "showNat (nat i) = c # cs" by (cases "showNat (nat i)") auto
  then show ?thesis using showNat_head[of "nat i" c cs] by (auto simp: showInt_def)
qed

lemma lexTok_num: "closes r \<Longrightarrow> lexTok (showInt i @ r) = Some (TNum (showInt i), r)"
proof -
  assume r: "closes r"
  obtain c cs where c: "showInt i = c # cs" "isDigit c \<or> c = CHR ''-''" using showInt_head by blast
  have "c \<notin> set ''\"[]{}:,ntf''" using c(2) by (auto simp: isDigit_def)
  then show ?thesis using scanNumber_showInt[OF r, of i] c(1) by (simp add: lexTok_def)
qed

lemma tokenize_tokText:
  assumes "goodTok t" and "\<And>n. t = TNum n \<Longrightarrow> closes r"
  shows "tokenize (tokText t @ r) = map_option ((#) (cleanTok t)) (tokenize r)"
proof (cases t)
  case (TNum n)
  then obtain i where n: "n = showInt i" using assms(1) by auto
  obtain c cs where c: "showInt i = c # cs" "isDigit c \<or> c = CHR ''-''" using showInt_head by blast
  then have "\<not> isSpace c" by (auto simp: isSpace_def isDigit_def)
  then show ?thesis
    using tokenize_step[OF lexTok_num[OF assms(2)[OF TNum], of i]] c(1) TNum n by simp
next
  case (TStr s)
  have "lexTok (quote s @ r) = Some (TStr (sanitize s), r)"
    using unquote_escape[of s r] by (simp add: lexTok_def quote_def)
  then show ?thesis using tokenize_step[of "quote s" r] TStr by (simp add: quote_def isSpace_def)
qed (use tokenize_step[of "tokText t" r] in \<open>auto simp: lexTok_def word_def isSpace_def\<close>)

lemma tokenize_toks:
  assumes "list_all goodTok ts" and "spaced ts"
  shows "tokenize (concat (map tokText ts)) = Some (map cleanTok ts)"
  using assms
proof (induction ts)
  case (Cons t ts)
  have "spaced ts" and n: "\<And>n. t = TNum n \<Longrightarrow> closes (concat (map tokText ts))"
    using Cons.prems(2) by (cases t; simp)+
  then show ?case using Cons tokenize_tokText[of t "concat (map tokText ts)"] by simp
qed simp

text \<open>The tokens of a value are spaced: numbers stand before a comma, a bracket or the end.\<close>

definition closing :: "tok list \<Rightarrow> bool" where
  "closing ts \<longleftrightarrow> closes (concat (map tokText ts)) \<and> spaced ts"

lemma closing_simps [simp]:
  "closing []" "closing (TComma # ts) = spaced ts" "closing (TRBrack # ts) = spaced ts" "closing (TRBrace # ts) = spaced ts"
  by (auto simp: closing_def closes_def)

lemma spaced_sepBy:
  assumes "\<And>ts r. ts \<in> set tss \<Longrightarrow> closing r \<Longrightarrow> spaced (ts @ r)" and "closing r"
  shows "spaced (sepBy tss @ r)"
  using assms
proof (induction tss rule: sepBy.induct)
  case 1
  then show ?case by (simp add: closing_def)
next
  case (3 ts u tss)
  then show ?case by simp
qed simp

lemma spaced_toks: "closing r \<Longrightarrow> spaced (toks j @ r)"
proof (induction j arbitrary: r rule: toks.induct)
  case (5 vs)
  have "spaced (sepBy (map toks vs) @ TRBrack # r)"
    using 5 closing_simps(3)[of r] by (intro spaced_sepBy) (auto simp: closing_def)
  then show ?case by simp
next
  case (6 kvs)
  have "spaced (sepBy (map (\<lambda>(k, v). TStr k # TColon # toks v) kvs) @ TRBrace # r)"
    using 6 closing_simps(4)[of r] by (intro spaced_sepBy) (auto simp: closing_def)
  then show ?case by simp
qed (auto simp: closing_def)

text \<open>Integers are the only numbers that are written.\<close>

fun goodJson :: "json \<Rightarrow> bool" where
  "goodJson (JNum n) = (\<exists>i. n = showInt i)"
| "goodJson (JArr vs) = (\<forall>v \<in> set vs. goodJson v)"
| "goodJson (JObj kvs) = (\<forall>kv \<in> set kvs. goodJson (snd kv))"
| "goodJson _ = True"

fun clean :: "json \<Rightarrow> json" where
  "clean (JStr s) = JStr (sanitize s)"
| "clean (JArr vs) = JArr (map clean vs)"
| "clean (JObj kvs) = JObj (map (\<lambda>(k, v). (sanitize k, clean v)) kvs)"
| "clean j = j"

lemma good_sepBy: "(\<And>ts. ts \<in> set tss \<Longrightarrow> list_all goodTok ts) \<Longrightarrow> list_all goodTok (sepBy tss)"
  by (induction tss rule: sepBy.induct) auto

lemma good_toks: "goodJson j \<Longrightarrow> list_all goodTok (toks j)"
proof (induction j rule: toks.induct)
  case (5 vs)
  then have "list_all goodTok (sepBy (map toks vs))" by (intro good_sepBy) auto
  then show ?case by simp
next
  case (6 kvs)
  have "list_all goodTok (TStr k # TColon # toks v)" if "(k, v) \<in> set kvs" for k v
    using 6(1)[OF that refl] 6(2) that by auto
  then have "list_all goodTok (sepBy (map (\<lambda>(k, v). TStr k # TColon # toks v) kvs))"
    by (intro good_sepBy) (auto split: prod.splits)
  then show ?case by simp
qed auto

lemma map_sepBy: "map cleanTok (sepBy tss) = sepBy (map (map cleanTok) tss)"
  by (induction tss rule: sepBy.induct) auto

lemma clean_toks: "map cleanTok (toks j) = toks (clean j)"
  by (induction j rule: toks.induct) (auto simp: map_sepBy intro!: arg_cong[where f = sepBy])

lemma fits_clean: "fits d (clean j) = fits d j"
  by (induction d j rule: fits.induct) (auto split: prod.splits)

theorem parse_emit:
  assumes "goodJson j" and "fits maxNesting j"
  shows "parse (emit j) = Some (clean j)"
proof -
  have "spaced (toks j)" using spaced_toks[of "[]" j] by simp
  then have "tokenize (emit j) = Some (toks (clean j))"
    using tokenize_toks[OF good_toks[OF assms(1)]] by (simp add: emit_def clean_toks)
  moreover have "prun (toks (clean j)) (BeginValue, []) = Some (Finished (clean j), [])"
    using prun_toks[of BeginValue maxNesting "clean j" "[]" "[]"] assms(2) by (simp add: begins_def fits_clean)
  ultimately show ?thesis by (simp add: parse_def)
qed

end
