(* ===== verification/Go_Base64.thy ===== *)
theory Go_Base64
  imports Go_Utf8
begin

text \<open>
  The standard base64 encoding of \<open>encoding/base64\<close>, which \<open>encoding/json\<close> uses for \<open>[]byte\<close>.
\<close>

text \<open>The alphabet: \<open>A\<close> to \<open>Z\<close>, \<open>a\<close> to \<open>z\<close>, \<open>0\<close> to \<open>9\<close>, \<open>+\<close> and \<open>/\<close>.\<close>

definition b64char :: "nat \<Rightarrow> char" where
  "b64char i =
     (if i < 26 then chr (65 + i)
      else if i < 52 then chr (71 + i)
      else if i < 62 then chr (i - 4)
      else if i = 62 then CHR ''+''
      else CHR ''/'')"

definition b64val :: "char \<Rightarrow> nat option" where
  "b64val c =
     (let k = code c in
      if 65 \<le> k \<and> k < 91 then Some (k - 65)
      else if 97 \<le> k \<and> k < 123 then Some (k - 71)
      else if 48 \<le> k \<and> k < 58 then Some (k + 4)
      else if k = 43 then Some 62
      else if k = 47 then Some 63
      else None)"

fun b64encode :: "bytes \<Rightarrow> string" where
  "b64encode [] = []"
| "b64encode [a] = [b64char (code a div 4), b64char (code a mod 4 * 16), CHR ''='', CHR ''='']"
| "b64encode [a, b] =
     [b64char (code a div 4), b64char (code a mod 4 * 16 + code b div 16), b64char (code b mod 16 * 4), CHR ''='']"
| "b64encode (a # b # c # r) =
     b64char (code a div 4) # b64char (code a mod 4 * 16 + code b div 16) #
     b64char (code b mod 16 * 4 + code c div 64) # b64char (code c mod 64) # b64encode r"

text \<open>\<open>decodeQuantum\<close>: groups of four, the last one with up to two padding characters.\<close>

fun b64quanta :: "string \<Rightarrow> bytes option" where
  "b64quanta [] = Some []"
| "b64quanta (p # q # s # t # r) =
     (case (b64val p, b64val q) of
        (Some w, Some x) \<Rightarrow>
          (if s = CHR ''='' then (if t = CHR ''='' \<and> r = [] then Some [chr (w * 4 + x div 16)] else None)
           else case b64val s of
                  None \<Rightarrow> None
                | Some y \<Rightarrow>
                    (if t = CHR ''='' then
                       (if r = [] then Some [chr (w * 4 + x div 16), chr (x mod 16 * 16 + y div 4)] else None)
                     else case b64val t of
                            None \<Rightarrow> None
                          | Some z \<Rightarrow>
                              map_option (\<lambda>bs. chr (w * 4 + x div 16) # chr (x mod 16 * 16 + y div 4) #
                                  chr (y mod 4 * 64 + z) # bs) (b64quanta r)))
      | _ \<Rightarrow> None)"
| "b64quanta _ = None"

definition b64decode :: "string \<Rightarrow> bytes option" where
  "b64decode s = b64quanta (filter (\<lambda>c. code c \<noteq> 10 \<and> code c \<noteq> 13) s)"

lemma b64char:
  assumes "i < 64"
  shows "b64val (b64char i) = Some i" "b64char i \<noteq> CHR ''=''" "32 \<le> code (b64char i)" "code (b64char i) < 128"
proof -
  have c: "code (b64char i) =
      (if i < 26 then 65 + i else if i < 52 then 71 + i else if i < 62 then i - 4 else if i = 62 then 43 else 47)"
    by (simp add: b64char_def)
  show "b64val (b64char i) = Some i" using assms unfolding b64val_def c by (auto simp: Let_def)
  have "code (b64char i) \<noteq> 61" using assms unfolding c by auto
  then show "b64char i \<noteq> CHR ''=''" by auto
  show "32 \<le> code (b64char i)" "code (b64char i) < 128" using assms unfolding c by auto
qed

lemma code_bits:
  fixes a :: char
  shows "code a div 4 < 64" "code a mod 4 < 4" "code a div 16 < 16" "code a mod 16 < 16" "code a div 64 < 4"
    "code a mod 64 < 64"
proof -
  have "code a < 256" by simp
  then show "code a div 4 < 64" "code a div 16 < 16" "code a div 64 < 4" by (simp_all add: less_mult_imp_div_less)
qed simp_all

lemma sextet:
  fixes a b :: char
  shows "code a mod 4 * 16 + code b div 16 < 64" "code a mod 16 * 4 + code b div 64 < 64"
    "code a mod 4 * 16 < 64" "code a mod 16 * 4 < 64"
  using code_bits[of a] code_bits[of b] by linarith+

lemmas b64char_code = b64char[OF code_bits(1)] b64char[OF code_bits(6)]
  b64char[OF sextet(1)] b64char[OF sextet(2)] b64char[OF sextet(3)] b64char[OF sextet(4)]

lemma b64encode_chars: "c \<in> set (b64encode s) \<Longrightarrow> 32 \<le> code c \<and> code c < 128"
  by (induction s rule: b64encode.induct) (auto simp: b64char_code)

lemma valid_b64encode: "valid_utf8 (b64encode s)"
  using b64encode_chars by (intro valid_ascii) blast

lemma code_parts:
  "code a div 16 div 16 = 0" "code a div 16 mod 16 = code a div 16" "code a div 64 div 4 = 0"
  "code a div 64 mod 4 = code a div 64"
  using code_bits[of a] by simp_all

lemma b64quanta_encode: "b64quanta (b64encode s) = Some s"
  by (induction s rule: b64encode.induct) (simp_all add: b64char_code code_parts)

theorem b64decode_encode: "b64decode (b64encode s) = Some s"
proof -
  have "filter (\<lambda>c. code c \<noteq> 10 \<and> code c \<noteq> 13) (b64encode s) = b64encode s"
    using b64encode_chars by (force simp: filter_id_conv)
  then show ?thesis by (simp add: b64decode_def b64quanta_encode)
qed

end
