(* ===== verification/Go_Marshal.thy ===== *)
theory Go_Marshal
  imports Go_Json Go_Base64
begin

text \<open>
  \<open>json.Marshal\<close> and \<open>json.Unmarshal\<close> on the Go types the repository stores: strings, ints, byte
  slices, string maps, slices of structs and structs with field tags.  A decoder takes the value
  already in the variable; a missing decoder result is the error of \<open>Unmarshal\<close>.  (A slice is decoded
  from zero elements; it matters only for objects that repeat a key, which \<open>Marshal\<close> never writes.)
\<close>

subsection \<open>Encoding\<close>

definition jInt :: "int \<Rightarrow> json" where
  "jInt i = JNum (showInt i)"

definition jBytes :: "bytes \<Rightarrow> json" where
  "jBytes b = JStr (b64encode b)"

text \<open>Maps are written with sorted keys.\<close>

definition jMap :: "addrmap \<Rightarrow> json" where
  "jMap m = JObj (map (\<lambda>k. (k, JStr (map_get [] m k))) (map_keys m))"

text \<open>A field with the option \<open>omitempty\<close>.\<close>

definition omit :: "bool \<Rightarrow> string \<Rightarrow> json \<Rightarrow> (string \<times> json) list" where
  "omit e k v = (if e then [] else [(k, v)])"

subsection \<open>Decoding\<close>

type_synonym 'a decoder = "'a \<Rightarrow> json \<Rightarrow> 'a option"

fun decStr :: "string decoder" where
  "decStr cur JNull = Some cur"
| "decStr cur (JStr s) = Some s"
| "decStr cur _ = None"

fun decInt :: "int decoder" where
  "decInt cur JNull = Some cur"
| "decInt cur (JNum n) = readInt n"
| "decInt cur _ = None"

text \<open>A byte slice is read from base64, or from an array of numbers.\<close>

fun decByte :: "json \<Rightarrow> char option" where
  "decByte JNull = Some (chr 0)"
| "decByte (JNum n) = (case readInt n of
     None \<Rightarrow> None
   | Some i \<Rightarrow> if 0 \<le> i \<and> i < 256 then Some (chr (nat i)) else None)"
| "decByte _ = None"

fun decAll :: "(json \<Rightarrow> 'a option) \<Rightarrow> json list \<Rightarrow> 'a list option" where
  "decAll f [] = Some []"
| "decAll f (v # vs) = (case (f v, decAll f vs) of (Some x, Some xs) \<Rightarrow> Some (x # xs) | _ \<Rightarrow> None)"

fun decBytes :: "bytes decoder" where
  "decBytes cur JNull = Some []"
| "decBytes cur (JStr s) = b64decode s"
| "decBytes cur (JArr vs) = decAll decByte vs"
| "decBytes cur _ = None"

fun decMembers :: "(string \<times> json) list \<Rightarrow> addrmap \<Rightarrow> addrmap option" where
  "decMembers [] m = Some m"
| "decMembers ((k, v) # kvs) m =
     (case decStr [] v of None \<Rightarrow> None | Some s \<Rightarrow> decMembers kvs (fmupd k s m))"

fun decMap :: "addrmap decoder" where
  "decMap cur JNull = Some fmempty"
| "decMap cur (JObj kvs) = decMembers kvs cur"
| "decMap cur _ = None"

fun decSlice :: "'a \<Rightarrow> 'a decoder \<Rightarrow> 'a list decoder" where
  "decSlice zero f cur JNull = Some []"
| "decSlice zero f cur (JArr vs) = decAll (f zero) vs"
| "decSlice zero f cur _ = None"

text \<open>
  A key selects the field whose name it equals up to case folding (\<open>foldName\<close>: ASCII letters, the
  long s and the Kelvin sign are the only runes that fold to ASCII letters); other keys are skipped.
\<close>

fun foldName :: "string \<Rightarrow> string" where
  "foldName [] = []"
| "foldName (c # cs) =
     (if take 2 (c # cs) = map chr [197, 191] then CHR ''S'' # foldName (drop 1 cs)
      else if take 3 (c # cs) = map chr [226, 132, 170] then CHR ''K'' # foldName (drop 2 cs)
      else (if 97 \<le> code c \<and> code c < 123 then chr (code c - 32) else c) # foldName cs)"

declare foldName.simps [simp del]

type_synonym 'a fields = "(string \<times> 'a decoder) list"

definition fieldFor :: "'a fields \<Rightarrow> string \<Rightarrow> 'a decoder option" where
  "fieldFor fs k = map_option snd (find (\<lambda>f. foldName (fst f) = foldName k) fs)"

fun decFields :: "'a fields \<Rightarrow> (string \<times> json) list \<Rightarrow> 'a \<Rightarrow> 'a option" where
  "decFields fs [] x = Some x"
| "decFields fs ((k, v) # kvs) x =
     (case fieldFor fs k of
        None \<Rightarrow> decFields fs kvs x
      | Some f \<Rightarrow> (case f x v of None \<Rightarrow> None | Some y \<Rightarrow> decFields fs kvs y))"

fun decStruct :: "'a fields \<Rightarrow> 'a decoder" where
  "decStruct fs cur JNull = Some cur"
| "decStruct fs cur (JObj kvs) = decFields fs kvs cur"
| "decStruct fs cur _ = None"

text \<open>A field of a struct: read it, decode, write it back.\<close>

definition at :: "('a \<Rightarrow> 'b) \<Rightarrow> ('b \<Rightarrow> 'a \<Rightarrow> 'a) \<Rightarrow> 'b decoder \<Rightarrow> 'a decoder" where
  "at get put dec x v = map_option (\<lambda>y. put y x) (dec (get x) v)"

definition unmarshal :: "'a decoder \<Rightarrow> 'a \<Rightarrow> string \<Rightarrow> 'a option" where
  "unmarshal dec zero data = (case parse data of None \<Rightarrow> None | Some j \<Rightarrow> dec zero j)"

subsection \<open>Round trips\<close>

fun validJson :: "json \<Rightarrow> bool" where
  "validJson (JStr s) = valid_utf8 s"
| "validJson (JArr vs) = (\<forall>v \<in> set vs. validJson v)"
| "validJson (JObj kvs) = (\<forall>kv \<in> set kvs. valid_utf8 (fst kv) \<and> validJson (snd kv))"
| "validJson _ = True"

lemma clean_valid: "validJson j \<Longrightarrow> clean j = j"
  by (induction j rule: validJson.induct) (auto simp: sanitize_valid intro!: map_idI)

lemma unmarshal_emit:
  assumes "goodJson j" and "validJson j" and "fits d j" and "d \<le> maxNesting"
  shows "unmarshal dec zero (emit j) = dec zero j"
proof -
  have "fits d j \<Longrightarrow> d \<le> e \<Longrightarrow> fits e j" for e
    by (induction d j arbitrary: e rule: fits.induct) (auto intro: diff_le_mono)
  then show ?thesis
    using parse_emit[OF assms(1)] assms(2-4) by (simp add: unmarshal_def clean_valid)
qed

lemma decAll_map: "(\<And>x. x \<in> set xs \<Longrightarrow> f (g x) = Some x) \<Longrightarrow> decAll f (map g xs) = Some xs"
  by (induction xs) auto

lemma decInt_jInt [simp]: "decInt cur (jInt i) = Some i"
  by (simp add: jInt_def)

lemma decBytes_jBytes [simp]: "decBytes cur (jBytes b) = Some b"
  by (simp add: jBytes_def b64decode_encode)

lemma decMembers_map:
  "\<exists>m'. decMembers (map (\<lambda>k. (k, JStr (g k))) ks) m = Some m' \<and>
     (\<forall>x. fmlookup m' x = (if x \<in> set ks then Some (g x) else fmlookup m x))"
proof (induction ks arbitrary: m)
  case (Cons k ks)
  then obtain m' where "decMembers (map (\<lambda>k. (k, JStr (g k))) ks) (fmupd k (g k) m) = Some m'"
    "\<forall>x. fmlookup m' x = (if x \<in> set ks then Some (g x) else fmlookup (fmupd k (g k) m) x)" by blast
  then show ?case by auto
qed simp

lemma decMap_jMap [simp]: "decMap fmempty (jMap m) = Some m"
proof -
  obtain m' where m': "decMembers (map (\<lambda>k. (k, JStr (map_get [] m k))) (map_keys m)) fmempty = Some m'"
    "\<forall>x. fmlookup m' x = (if x \<in> set (map_keys m) then Some (map_get [] m x) else fmlookup fmempty x)"
    using decMembers_map by blast
  have "m' = m" by (rule fmap_ext) (simp add: m'(2) map_has_def map_get_def split: option.split)
  then show ?thesis using m'(1) by (simp add: jMap_def)
qed

lemma json_parts [simp]:
  "goodJson (jInt i)" "validJson (jInt i)" "fits d (jInt i)" "goodJson (jBytes b)" "validJson (jBytes b)"
  "fits d (jBytes b)" "goodJson (jMap m)" "validJson (jMap m) \<longleftrightarrow> valid_map m" "fits d (jMap m) \<longleftrightarrow> 0 < d"
  by (auto simp: jInt_def jBytes_def jMap_def valid_b64encode valid_map_def)

subsection \<open>Whatever is read is well formed\<close>

text \<open>\<open>Unmarshal\<close> replaces malformed UTF-8, so every string it yields is well formed.\<close>

fun validTok :: "tok \<Rightarrow> bool" where
  "validTok (TStr s) = valid_utf8 s"
| "validTok _ = True"

fun validFrame :: "frame \<Rightarrow> bool" where
  "validFrame (FArr vs) = (\<forall>v \<in> set vs. validJson v)"
| "validFrame (FObj kvs k) = (valid_utf8 k \<and> (\<forall>kv \<in> set kvs. valid_utf8 (fst kv) \<and> validJson (snd kv)))"

fun validPos :: "mode \<times> frame list \<Rightarrow> bool" where
  "validPos (Finished v, st) = (validJson v \<and> list_all validFrame st)"
| "validPos (m, st) = list_all validFrame st"

lemma valid_tokenize: "tokenize s = Some ts \<Longrightarrow> list_all validTok ts"
proof (induction s arbitrary: ts rule: tokenize.induct)
  case (2 c cs)
  have "lexTok (c # cs) = Some (t, r) \<Longrightarrow> validTok t" for t r
    by (auto simp: lexTok_def word_def split: if_splits dest: valid_unquote)
  then show ?case using 2 by (auto split: if_splits option.splits)
qed simp

lemma valid_reduce: "validJson v \<Longrightarrow> list_all validFrame st \<Longrightarrow> validPos (reduce v st)"
  by (induction v st rule: reduce.induct) auto

lemma valid_begin: "beginValue t st = Some p \<Longrightarrow> validTok t \<Longrightarrow> list_all validFrame st \<Longrightarrow> validPos p"
  by (cases t) (auto split: if_splits intro: valid_reduce)

lemma valid_key: "beginKey t st = Some p \<Longrightarrow> validTok t \<Longrightarrow> list_all validFrame st \<Longrightarrow> validPos p"
  by (induction t st rule: beginKey.induct) auto

lemma valid_end: "endValue t st = Some p \<Longrightarrow> list_all validFrame st \<Longrightarrow> validPos p"
  by (induction t st rule: endValue.induct) (auto intro: valid_reduce)

lemma valid_pstep: "pstep t p = Some q \<Longrightarrow> validTok t \<Longrightarrow> validPos p \<Longrightarrow> validPos q"
  by (induction t p rule: pstep.induct) (auto split: if_splits dest: valid_begin valid_key valid_end)

lemma valid_prun: "prun ts p = Some q \<Longrightarrow> list_all validTok ts \<Longrightarrow> validPos p \<Longrightarrow> validPos q"
  by (induction ts p rule: prun.induct) (auto split: option.splits dest: valid_pstep)

lemma parse_valid: "parse s = Some j \<Longrightarrow> validJson j"
  by (auto simp: parse_def split: option.splits mode.splits list.splits prod.splits
      dest!: valid_prun dest: valid_tokenize)

end
