(* ===== verification/Go_Os.thy ===== *)
theory Go_Os
  imports Go_Prelude
begin

text \<open>
  The file operations of Go's package \<open>os\<close> that \<open>raft/persist.go\<close> uses.  A disk maps paths to files;
  a file has its bytes and a flag that tells whether they reached stable storage (\<open>Sync\<close>).

  An \<open>OS\<close> is the set of system calls over some state \<open>'d\<close>.  There are two of them: \<open>diskOS\<close>, where
  every call succeeds, and \<open>hostOS\<close>, where a plan decides for each call whether it succeeds, fails
  (a failing write may have written some bytes) or the process is killed, after which no call has
  an effect.  The locale \<open>file_os\<close> is what both of them promise.
\<close>

subsection \<open>Files\<close>

record FileData =
  content :: bytes
  synced :: bool

type_synonym disk_files = "FileData gomap"

definition truncateFile :: "string \<Rightarrow> disk_files \<Rightarrow> disk_files" where
  "truncateFile p fs = fmupd p \<lparr>content = [], synced = False\<rparr> fs"

definition appendFile :: "string \<Rightarrow> bytes \<Rightarrow> disk_files \<Rightarrow> disk_files" where
  "appendFile p b fs = (case fmlookup fs p of
     None \<Rightarrow> fs
   | Some f \<Rightarrow> fmupd p \<lparr>content = content f @ b, synced = False\<rparr> fs)"

definition syncFile :: "string \<Rightarrow> disk_files \<Rightarrow> disk_files" where
  "syncFile p fs = (case fmlookup fs p of None \<Rightarrow> fs | Some f \<Rightarrow> fmupd p (f\<lparr>synced := True\<rparr>) fs)"

definition renameFile :: "string \<Rightarrow> string \<Rightarrow> disk_files \<Rightarrow> disk_files" where
  "renameFile p q fs = (case fmlookup fs p of None \<Rightarrow> fs | Some f \<Rightarrow> fmupd q f (fmdrop p fs))"

definition removeFile :: "string \<Rightarrow> disk_files \<Rightarrow> disk_files" where
  "removeFile p fs = fmdrop p fs"

text \<open>Power loss: of a file that was not synced only some of the bytes survive.\<close>

definition powerLoss :: "(string \<Rightarrow> nat) \<Rightarrow> disk_files \<Rightarrow> disk_files" where
  "powerLoss k fs = fmmap_keys (\<lambda>p f. if synced f then f else f\<lparr>content := take (k p) (content f)\<rparr>) fs"

subsection \<open>System calls\<close>

type_synonym 'd syscall = "'d \<Rightarrow> string option \<times> 'd"

datatype readError = NotExist | ReadError string

record 'd OS =
  osMkdirAll :: "string \<Rightarrow> 'd syscall"
  osOpenFile :: "string \<Rightarrow> 'd syscall"
  osWrite :: "string \<Rightarrow> bytes \<Rightarrow> 'd syscall"
  osSync :: "string \<Rightarrow> 'd syscall"
  osClose :: "string \<Rightarrow> 'd syscall"
  osRename :: "string \<Rightarrow> string \<Rightarrow> 'd syscall"
  osRemove :: "string \<Rightarrow> 'd syscall"
  osReadFile :: "string \<Rightarrow> 'd \<Rightarrow> readError + bytes"

definition readFile :: "string \<Rightarrow> disk_files \<Rightarrow> readError + bytes" where
  "readFile p fs = (case fmlookup fs p of None \<Rightarrow> Inl NotExist | Some f \<Rightarrow> Inr (content f))"

definition ok :: "('d \<Rightarrow> 'd) \<Rightarrow> 'd syscall" where
  "ok f d = (None, f d)"

text \<open>\<open>MkdirAll\<close> refuses the empty path.\<close>

definition mkdirOf :: "'d syscall \<Rightarrow> string \<Rightarrow> 'd syscall" where
  "mkdirOf call p d = (if p = [] then (Some ''mkdir : no such file or directory'', d) else call d)"

definition diskOS :: "disk_files OS" where
  "diskOS = \<lparr>osMkdirAll = mkdirOf (ok id), osOpenFile = \<lambda>p. ok (truncateFile p),
     osWrite = \<lambda>p b. ok (appendFile p b), osSync = \<lambda>p. ok (syncFile p), osClose = \<lambda>p. ok id,
     osRename = \<lambda>p q. ok (renameFile p q), osRemove = \<lambda>p. ok (removeFile p), osReadFile = readFile\<rparr>"

datatype outcome = Success | Failure nat | Killed nat

record host =
  files :: disk_files
  plan :: "outcome list"

text \<open>A call under the plan; \<open>part k\<close> is what it has done when it fails.\<close>

definition attempt :: "(disk_files \<Rightarrow> disk_files) \<Rightarrow> (nat \<Rightarrow> disk_files \<Rightarrow> disk_files) \<Rightarrow> host syscall" where
  "attempt full part h = (case plan h of
     [] \<Rightarrow> (None, h\<lparr>files := full (files h)\<rparr>)
   | Success # os \<Rightarrow> (None, h\<lparr>files := full (files h), plan := os\<rparr>)
   | Failure k # os \<Rightarrow> (Some ''input/output error'', h\<lparr>files := part k (files h), plan := os\<rparr>)
   | Killed k # os \<Rightarrow> (Some ''killed'', h\<lparr>files := part k (files h)\<rparr>))"

definition hostOS :: "host OS" where
  "hostOS = \<lparr>osMkdirAll = mkdirOf (attempt id (\<lambda>k. id)), osOpenFile = \<lambda>p. attempt (truncateFile p) (\<lambda>k. id),
     osWrite = \<lambda>p b. attempt (appendFile p b) (\<lambda>k. appendFile p (take k b)),
     osSync = \<lambda>p. attempt (syncFile p) (\<lambda>k. id), osClose = \<lambda>p. attempt id (\<lambda>k. id),
     osRename = \<lambda>p q. attempt (renameFile p q) (\<lambda>k. id), osRemove = \<lambda>p. attempt (removeFile p) (\<lambda>k. id),
     osReadFile = \<lambda>p h. (case plan h of
        Failure k # os \<Rightarrow> Inl (ReadError ''input/output error'')
      | Killed k # os \<Rightarrow> Inl (ReadError ''killed'')
      | _ \<Rightarrow> readFile p (files h))\<rparr>"

subsection \<open>What a client may rely on\<close>

locale file_os =
  fixes os :: "'d OS" and fs :: "'d \<Rightarrow> disk_files"
  assumes mkdir: "fs (snd (osMkdirAll os p d)) = fs d"
    and open_ok: "osOpenFile os p d = (None, d') \<Longrightarrow> fs d' = truncateFile p (fs d)"
    and open_err: "osOpenFile os p d = (Some e, d') \<Longrightarrow> fs d' = fs d"
    and write_ok: "osWrite os p b d = (None, d') \<Longrightarrow> fs d' = appendFile p b (fs d)"
    and write_err: "osWrite os p b d = (Some e, d') \<Longrightarrow> \<exists>k. fs d' = appendFile p (take k b) (fs d)"
    and sync_ok: "osSync os p d = (None, d') \<Longrightarrow> fs d' = syncFile p (fs d)"
    and sync_err: "osSync os p d = (Some e, d') \<Longrightarrow> fs d' = fs d"
    and close: "fs (snd (osClose os p d)) = fs d"
    and rename_ok: "osRename os p q d = (None, d') \<Longrightarrow> fs d' = renameFile p q (fs d)"
    and rename_err: "osRename os p q d = (Some e, d') \<Longrightarrow> fs d' = fs d"
    and remove: "fs (snd (osRemove os p d)) = fs d \<or> fs (snd (osRemove os p d)) = removeFile p (fs d)"
    and read: "osReadFile os p d = readFile p (fs d) \<or> (\<exists>e. osReadFile os p d = Inl (ReadError e))"
begin

text \<open>What a call does to files other than the one it names.\<close>

lemma other:
  assumes "q \<noteq> p"
  shows "fmlookup (fs (snd (osOpenFile os p d))) q = fmlookup (fs d) q"
    and "fmlookup (fs (snd (osWrite os p b d))) q = fmlookup (fs d) q"
    and "fmlookup (fs (snd (osSync os p d))) q = fmlookup (fs d) q"
    and "fmlookup (fs (snd (osRemove os p d))) q = fmlookup (fs d) q"
proof -
  show "fmlookup (fs (snd (osOpenFile os p d))) q = fmlookup (fs d) q"
    by (cases "osOpenFile os p d"; cases "fst (osOpenFile os p d)")
      (use assms in \<open>auto dest!: open_ok open_err simp: truncateFile_def\<close>)
  show "fmlookup (fs (snd (osWrite os p b d))) q = fmlookup (fs d) q"
    by (cases "osWrite os p b d"; cases "fst (osWrite os p b d)")
      (use assms in \<open>auto dest!: write_ok write_err simp: appendFile_def split: option.splits\<close>)
  show "fmlookup (fs (snd (osSync os p d))) q = fmlookup (fs d) q"
    by (cases "osSync os p d"; cases "fst (osSync os p d)")
      (use assms in \<open>auto dest!: sync_ok sync_err simp: syncFile_def split: option.splits\<close>)
  show "fmlookup (fs (snd (osRemove os p d))) q = fmlookup (fs d) q"
    using remove[of p d] assms by (auto simp: removeFile_def)
qed

end

interpretation disk_os: file_os diskOS "\<lambda>d. d"
  by unfold_locales (auto simp: diskOS_def ok_def mkdirOf_def)

interpretation host_os: file_os hostOS files
  by unfold_locales (auto simp: hostOS_def attempt_def mkdirOf_def split: list.splits outcome.splits)

end
