(* ===== verification/Go_Strings.thy ===== *)
theory Go_Strings
  imports Go_Prelude
begin

text \<open>
  The functions of Go's packages \<open>strings\<close> and \<open>path/filepath\<close> the repository calls: splitting and
  joining, trimming, cutting, prefixes, and the lexical cleaning of Unix paths.
\<close>

subsection \<open>Splitting and joining\<close>

text \<open>\<open>strings.Split\<close> and \<open>strings.Join\<close> with a separator of one byte.\<close>

fun splitOn :: "char \<Rightarrow> string \<Rightarrow> string list" where
  "splitOn c [] = [[]]"
| "splitOn c (x # xs) =
     (if x = c then [] # splitOn c xs
      else case splitOn c xs of [] \<Rightarrow> [[x]] | y # ys \<Rightarrow> (x # y) # ys)"

fun joinOn :: "char \<Rightarrow> string list \<Rightarrow> string" where
  "joinOn c [] = []"
| "joinOn c [x] = x"
| "joinOn c (x # xs) = x @ c # joinOn c xs"

text \<open>\<open>strings.Cut\<close> with a separator of one byte; the last component tells whether it was found.\<close>

definition cut :: "char \<Rightarrow> string \<Rightarrow> string \<times> string \<times> bool" where
  "cut c s = (takeWhile (\<lambda>x. x \<noteq> c) s, drop 1 (dropWhile (\<lambda>x. x \<noteq> c) s), c \<in> set s)"

definition hasPrefix :: "string \<Rightarrow> string \<Rightarrow> bool" where
  "hasPrefix s p \<longleftrightarrow> take (length p) s = p"

text \<open>
  \<open>strings.TrimSpace\<close>: the white space runes of Unicode in their UTF-8 encoding.
\<close>

definition spaces :: "string list" where
  "spaces = map (\<lambda>b. [char_of (b :: nat)]) [9, 10, 11, 12, 13, 32] @
     map (map char_of) ([[194, 133], [194, 160], [225, 154, 128]] @
       map (\<lambda>b. [226, 128, b]) ([128..<139] @ [168, 169, 175]) @ [[226, 129, 159], [227, 128, 128 :: nat]])"

definition spaceAt :: "string \<Rightarrow> nat" where
  "spaceAt s = (case find (\<lambda>w. take (length w) s = w) spaces of None \<Rightarrow> 0 | Some w \<Rightarrow> length w)"

definition spaceEnd :: "string \<Rightarrow> nat" where
  "spaceEnd s = (case find (\<lambda>w. drop (length s - length w) s = w \<and> length w \<le> length s) spaces of
     None \<Rightarrow> 0 | Some w \<Rightarrow> length w)"

function trimLeft :: "string \<Rightarrow> string" where
  "trimLeft s = (if spaceAt s = 0 \<or> s = [] then s else trimLeft (drop (spaceAt s) s))"
  by auto
termination by (relation "measure length") auto

function trimRight :: "string \<Rightarrow> string" where
  "trimRight s = (if spaceEnd s = 0 \<or> s = [] then s else trimRight (take (length s - spaceEnd s) s))"
  by auto
termination by (relation "measure length") auto

declare trimLeft.simps [simp del] trimRight.simps [simp del]

definition trimSpace :: "string \<Rightarrow> string" where
  "trimSpace s = trimRight (trimLeft s)"

subsection \<open>Paths\<close>

text \<open>
  \<open>filepath.Clean\<close> works on the components: empty ones and \<open>.\<close> vanish, \<open>..\<close> removes the component
  before it.
\<close>

definition slash :: char where "slash = CHR ''/''"

definition pushComp :: "bool \<Rightarrow> string list \<Rightarrow> string \<Rightarrow> string list" where
  "pushComp rooted acc c =
     (if c = [] \<or> c = ''.'' then acc
      else if c = ''..'' then
        (if acc \<noteq> [] \<and> last acc \<noteq> ''..'' then butlast acc else if rooted then acc else acc @ [c])
      else acc @ [c])"

definition resolve :: "string \<Rightarrow> bool \<times> string list" where
  "resolve p = (let rooted = hasPrefix p [slash] in (rooted, foldl (pushComp rooted) [] (splitOn slash p)))"

definition render :: "bool \<times> string list \<Rightarrow> string" where
  "render rc = (let p = (if fst rc then [slash] else []) @ joinOn slash (snd rc) in if p = [] then ''.'' else p)"

definition pathClean :: "string \<Rightarrow> string" where
  "pathClean p = render (resolve p)"

definition pathJoin :: "string \<Rightarrow> string \<Rightarrow> string" where
  "pathJoin a b =
     (if a \<noteq> [] then pathClean (a @ slash # b) else if b \<noteq> [] then pathClean b else [])"

text \<open>A name that is one component of a path.\<close>

definition plainName :: "string \<Rightarrow> bool" where
  "plainName s \<longleftrightarrow> s \<noteq> [] \<and> s \<noteq> ''.'' \<and> s \<noteq> ''..'' \<and> slash \<notin> set s"

subsection \<open>Facts\<close>

lemma splitOn_not_Nil [simp]: "splitOn c s \<noteq> []"
  by (induction s) (auto split: list.splits)

lemma splitOn_plain: "c \<notin> set s \<Longrightarrow> splitOn c s = [s]"
  by (induction s) auto

lemma splitOn_append: "splitOn c (s @ c # t) = splitOn c s @ splitOn c t"
  by (induction s) (auto split: list.splits)

lemma splitOn_joinOn: "xs \<noteq> [] \<Longrightarrow> \<forall>x \<in> set xs. c \<notin> set x \<Longrightarrow> splitOn c (joinOn c xs) = xs"
  by (induction c xs rule: joinOn.induct) (auto simp: splitOn_plain splitOn_append)

lemma joinOn_splitOn: "joinOn c (splitOn c s) = s"
proof (induction s)
  case (Cons x s)
  obtain y ys where "splitOn c s = y # ys" using splitOn_not_Nil by (meson neq_Nil_conv)
  then show ?case using Cons by (cases ys) auto
qed simp

lemma splitOn_sep: "x \<in> set (splitOn c s) \<Longrightarrow> c \<notin> set x"
  by (induction s arbitrary: x) (auto split: list.splits if_splits)

lemma joinOn_snoc: "xs \<noteq> [] \<Longrightarrow> joinOn c (xs @ [x]) = joinOn c xs @ c # x"
  by (induction c xs rule: joinOn.induct) auto

lemma resolve_name:
  assumes "plainName n" and "d \<noteq> []"
  shows "resolve (d @ slash # n) = (fst (resolve d), snd (resolve d) @ [n])"
proof -
  have r: "hasPrefix (d @ slash # n) [slash] = hasPrefix d [slash]" using assms(2) by (cases d) (auto simp: hasPrefix_def)
  have "splitOn slash (d @ slash # n) = splitOn slash d @ [n]"
    using assms(1) by (simp add: splitOn_append splitOn_plain plainName_def)
  then show ?thesis using assms(1) r by (simp add: resolve_def Let_def pushComp_def plainName_def)
qed

lemma render_snoc:
  "n \<noteq> [] \<Longrightarrow> render (r, cs @ [n]) =
     (if r then [slash] else []) @ (if cs = [] then [] else joinOn slash cs @ [slash]) @ n"
  by (simp add: render_def Let_def joinOn_snoc)

text \<open>Different names in a directory have different paths.\<close>

lemma pathJoin_name:
  assumes "plainName n" and "d \<noteq> []"
  shows "\<exists>pre. \<forall>m. plainName m \<longrightarrow> pathJoin d m = pre @ m"
  using assms by (auto simp: pathJoin_def pathClean_def resolve_name render_snoc plainName_def)

lemma pathJoin_inj:
  assumes "plainName m" "plainName n" "d \<noteq> []"
  shows "pathJoin d m = pathJoin d n \<longleftrightarrow> m = n"
  using pathJoin_name[OF assms(1,3)] assms(1,2) by auto

text \<open>Cleaning is idempotent: the components of a cleaned path are what the path resolves to.\<close>

definition comps :: "bool \<Rightarrow> string list \<Rightarrow> bool" where
  "comps r cs \<longleftrightarrow> foldl (pushComp r) [] cs = cs \<and> (\<forall>c \<in> set cs. c \<noteq> [] \<and> slash \<notin> set c)"

lemma length_pushComp: "length (foldl (pushComp r) acc cs) \<le> length acc + length cs"
proof (induction cs rule: rev_induct)
  case (snoc c cs)
  have "length (pushComp r a c) \<le> Suc (length a)" for a by (auto simp: pushComp_def)
  then show ?case using snoc by (auto intro: order_trans)
qed simp

lemma comps_butlast:
  assumes "comps r (cs @ [c])" "c \<noteq> ''..''"
  shows "comps r cs"
proof -
  have "pushComp r (foldl (pushComp r) [] cs) c = cs @ [c]" using assms(1) by (simp add: comps_def)
  moreover have "foldl (pushComp r) [] cs \<noteq> cs @ [c]"
    using length_pushComp[of r "[]" cs] by (metis add_0 length_append_singleton list.size(3) not_less_eq_eq order_refl)
  ultimately have "foldl (pushComp r) [] cs = cs" using assms(2) by (auto simp: pushComp_def split: if_splits)
  then show ?thesis using assms(1) by (simp add: comps_def)
qed

lemma comps_push:
  assumes "comps r cs" "slash \<notin> set c"
  shows "comps r (pushComp r cs c)"
proof (cases "c = ''..'' \<and> cs \<noteq> [] \<and> last cs \<noteq> ''..''")
  case True
  then have "comps r (butlast cs)" using assms(1) comps_butlast[of r "butlast cs" "last cs"] by simp
  then show ?thesis using True by (simp add: pushComp_def)
next
  case False
  then have "pushComp r cs c = cs \<or> c \<noteq> [] \<and> pushComp r cs c = cs @ [c]" by (auto simp: pushComp_def)
  moreover have "c \<noteq> [] \<Longrightarrow> pushComp r cs c = cs @ [c] \<Longrightarrow> comps r (cs @ [c])" using assms by (auto simp: comps_def)
  ultimately show ?thesis using assms(1) by fastforce
qed

lemma comps_resolve: "comps (fst (resolve p)) (snd (resolve p))"
proof -
  have "comps r (foldl (pushComp r) acc cs)" if "\<forall>c \<in> set cs. slash \<notin> set c" "comps r acc" for r acc cs
    using that by (induction cs arbitrary: acc) (auto intro: comps_push)
  from this[of "splitOn slash p" _ "[]"] show ?thesis
    using splitOn_sep by (auto simp: resolve_def Let_def comps_def)
qed

lemma resolve_render:
  assumes "comps r cs"
  shows "resolve (render (r, cs)) = (r, cs)"
proof (cases cs)
  case Nil
  then show ?thesis by (cases r) (simp_all add: render_def resolve_def hasPrefix_def pushComp_def slash_def)
next
  case (Cons c ds)
  let ?j = "joinOn slash cs"
  have c: "c \<noteq> []" "slash \<notin> set c" and sep: "\<forall>x \<in> set cs. slash \<notin> set x" and fold: "foldl (pushComp r) [] cs = cs"
    using assms Cons by (auto simp: comps_def)
  have j: "?j \<noteq> []" "\<not> hasPrefix ?j [slash]" "splitOn slash ?j = cs"
    using c sep Cons splitOn_joinOn[OF _ sep] by (cases ds; cases c; auto simp: hasPrefix_def)+
  have "splitOn slash (slash # ?j) = [] # cs" using splitOn_append[of slash "[]" ?j] j(3) by simp
  then show ?thesis
    using j fold by (cases r) (simp_all add: render_def resolve_def Let_def hasPrefix_def pushComp_def)
qed

lemma resolve_pathJoin:
  assumes "plainName n" and "d \<noteq> []"
  shows "resolve (pathJoin d n) = (fst (resolve d), snd (resolve d) @ [n])"
proof -
  have "comps (fst (resolve (d @ slash # n))) (snd (resolve (d @ slash # n)))" by (rule comps_resolve)
  then show ?thesis
    using assms by (simp add: pathJoin_def pathClean_def resolve_name resolve_render)
qed

lemma pathJoin_not_Nil: "plainName n \<Longrightarrow> pathJoin d n \<noteq> []"
  by (auto simp: pathJoin_def pathClean_def render_def Let_def plainName_def)

text \<open>A file of that name in two directories below one.\<close>

lemma pathJoin_below:
  assumes "plainName m" "plainName n" "plainName f" "d \<noteq> []"
    and "pathJoin (pathJoin d m) f = pathJoin (pathJoin d n) f"
  shows "m = n"
proof -
  have "resolve (pathJoin (pathJoin d x) f) = (fst (resolve d), snd (resolve d) @ [x, f])" if "plainName x" for x
    using that assms(3,4) pathJoin_not_Nil by (simp add: resolve_pathJoin)
  then show ?thesis using assms(1,2,5) by (metis append_same_eq list.inject same_append_eq snd_conv)
qed

end
