(* ===== verification/Raft_Persist.thy ===== *)
theory Raft_Persist
  imports Raft_Durable Go_Marshal Go_Os Go_Strings
begin

text \<open>
  Durable state on disk (\<open>raft/persist.go\<close>): the JSON format of \<open>DurableState\<close>, and \<open>FileStorage\<close>,
  which writes a temporary file, syncs it and renames it over \<open>state.json\<close>.  The file operations are
  those of \<open>Go_Os\<close>.  The text of an I/O error is not modelled beyond what the code adds to it.
\<close>

subsection \<open>The JSON format\<close>

definition jChange :: "MembershipChange \<Rightarrow> json" where
  "jChange ch = JObj ([(''type'', JStr (chType ch)), (''id'', JStr (chID ch))] @
     omit (chAddr ch = []) ''addr'' (JStr (chAddr ch)) @ omit (chHTTP ch = []) ''http'' (JStr (chHTTP ch)) @
     omit (map_len (chPeers ch) = 0) ''peers'' (jMap (chPeers ch)) @
     omit (map_len (chHTTPAddrs ch) = 0) ''http_addrs'' (jMap (chHTTPAddrs ch)))"

definition jEntry :: "LogEntry \<Rightarrow> json" where
  "jEntry e = JObj ([(''Term'', jInt (eTerm e)), (''Index'', jInt (eIndex e))] @
     omit (eCommand e = []) ''Command'' (jBytes (eCommand e)) @
     (case eChange e of None \<Rightarrow> [] | Some ch \<Rightarrow> [(''Change'', jChange ch)]))"

definition jDurable :: "DurableState \<Rightarrow> json" where
  "jDurable ds = JObj ([(''current_term'', jInt (dsCurrentTerm ds)), (''voted_for'', JStr (dsVotedFor ds)),
     (''log'', if dsLog ds = [] then JNull else JArr (map jEntry (dsLog ds)))] @
     omit (dsSnapshot ds = []) ''snapshot'' (jBytes (dsSnapshot ds)) @
     omit (map_len (dsSnapshotPeers ds) = 0) ''snapshot_peers'' (jMap (dsSnapshotPeers ds)) @
     omit (map_len (dsSnapshotHTTP ds) = 0) ''snapshot_http'' (jMap (dsSnapshotHTTP ds)))"

definition zeroChange :: MembershipChange where
  "zeroChange = \<lparr>chType = [], chID = [], chAddr = [], chHTTP = [], chPeers = fmempty, chHTTPAddrs = fmempty\<rparr>"

definition emptyEntry :: LogEntry where
  "emptyEntry = \<lparr>eTerm = 0, eIndex = 0, eCommand = [], eChange = None\<rparr>"

definition zeroDurable :: DurableState where
  "zeroDurable = \<lparr>dsCurrentTerm = 0, dsVotedFor = [], dsLog = [], dsSnapshot = [],
     dsSnapshotPeers = fmempty, dsSnapshotHTTP = fmempty\<rparr>"

definition changeFields :: "MembershipChange fields" where
  "changeFields = [(''type'', at chType (\<lambda>v x. x\<lparr>chType := v\<rparr>) decStr),
     (''id'', at chID (\<lambda>v x. x\<lparr>chID := v\<rparr>) decStr), (''addr'', at chAddr (\<lambda>v x. x\<lparr>chAddr := v\<rparr>) decStr),
     (''http'', at chHTTP (\<lambda>v x. x\<lparr>chHTTP := v\<rparr>) decStr),
     (''peers'', at chPeers (\<lambda>v x. x\<lparr>chPeers := v\<rparr>) decMap),
     (''http_addrs'', at chHTTPAddrs (\<lambda>v x. x\<lparr>chHTTPAddrs := v\<rparr>) decMap)]"

text \<open>A pointer is set to nil by null and allocated by any other value.\<close>

fun decChangePtr :: "MembershipChange option decoder" where
  "decChangePtr cur JNull = Some None"
| "decChangePtr cur v =
     map_option Some (decStruct changeFields (case cur of None \<Rightarrow> zeroChange | Some ch \<Rightarrow> ch) v)"

definition entryFields :: "LogEntry fields" where
  "entryFields = [(''Term'', at eTerm (\<lambda>v x. x\<lparr>eTerm := v\<rparr>) decInt),
     (''Index'', at eIndex (\<lambda>v x. x\<lparr>eIndex := v\<rparr>) decInt),
     (''Command'', at eCommand (\<lambda>v x. x\<lparr>eCommand := v\<rparr>) decBytes),
     (''Change'', at eChange (\<lambda>v x. x\<lparr>eChange := v\<rparr>) decChangePtr)]"

definition durableFields :: "DurableState fields" where
  "durableFields = [(''current_term'', at dsCurrentTerm (\<lambda>v x. x\<lparr>dsCurrentTerm := v\<rparr>) decInt),
     (''voted_for'', at dsVotedFor (\<lambda>v x. x\<lparr>dsVotedFor := v\<rparr>) decStr),
     (''log'', at dsLog (\<lambda>v x. x\<lparr>dsLog := v\<rparr>) (decSlice emptyEntry (decStruct entryFields))),
     (''snapshot'', at dsSnapshot (\<lambda>v x. x\<lparr>dsSnapshot := v\<rparr>) decBytes),
     (''snapshot_peers'', at dsSnapshotPeers (\<lambda>v x. x\<lparr>dsSnapshotPeers := v\<rparr>) decMap),
     (''snapshot_http'', at dsSnapshotHTTP (\<lambda>v x. x\<lparr>dsSnapshotHTTP := v\<rparr>) decMap)]"

subsection \<open>FileStorage\<close>

definition storagePath :: "string \<Rightarrow> string" where
  "storagePath dir = pathJoin dir ''state.json''"

text \<open>The common tail of the failure branches: the error, after \<open>os.Remove(tmp)\<close>.\<close>

definition giveUp :: "'d OS \<Rightarrow> string \<Rightarrow> string \<Rightarrow> 'd \<Rightarrow> raft_error option \<times> 'd" where
  "giveUp os tmp e d = (Some (ErrMsg e), snd (osRemove os tmp d))"

definition FileStorage_Save :: "'d OS \<Rightarrow> string \<Rightarrow> DurableState \<Rightarrow> 'd \<Rightarrow> raft_error option \<times> 'd" where
  "FileStorage_Save os dir st d =
     (case osMkdirAll os dir d of
        (Some e, d1) \<Rightarrow> (Some (ErrMsg e), d1)
      | (None, d1) \<Rightarrow>
        let body = emit (jDurable st); tmp = storagePath dir @ ''.tmp'' in
        case osOpenFile os tmp d1 of
          (Some e, d2) \<Rightarrow> (Some (ErrMsg e), d2)
        | (None, d2) \<Rightarrow>
          case osWrite os tmp body d2 of
            (Some e, d3) \<Rightarrow> giveUp os tmp e (snd (osClose os tmp d3))
          | (None, d3) \<Rightarrow>
            case osSync os tmp d3 of
              (Some e, d4) \<Rightarrow> giveUp os tmp e (snd (osClose os tmp d4))
            | (None, d4) \<Rightarrow>
              case osClose os tmp d4 of
                (Some e, d5) \<Rightarrow> giveUp os tmp e d5
              | (None, d5) \<Rightarrow>
                case osRename os tmp (storagePath dir) d5 of
                  (Some e, d6) \<Rightarrow> giveUp os tmp e d6
                | (None, d6) \<Rightarrow> (None, d6))"

definition FileStorage_Load :: "'d OS \<Rightarrow> string \<Rightarrow> 'd \<Rightarrow> raft_error + DurableState" where
  "FileStorage_Load os dir d =
     (case osReadFile os (storagePath dir) d of
        Inl NotExist \<Rightarrow> Inr zeroDurable
      | Inl (ReadError e) \<Rightarrow> Inl (ErrMsg e)
      | Inr body \<Rightarrow>
        (case unmarshal (decStruct durableFields) zeroDurable body of
           None \<Rightarrow> Inl (ErrMsg ''corrupt raft state'')
         | Some st \<Rightarrow> Inr st))"

definition NewFileStorage :: "'d OS \<Rightarrow> string \<Rightarrow> 'd Storage" where
  "NewFileStorage os dir = \<lparr>Save = FileStorage_Save os dir, Load = FileStorage_Load os dir\<rparr>"

subsection \<open>The format can be read back\<close>

lemma map_len_0 [simp]: "map_len m = 0 \<longleftrightarrow> m = fmempty"
proof
  assume "map_len m = 0"
  then have "\<not> map_has m k" for k using set_map_keys[of m] by (simp add: map_len_def)
  then show "m = fmempty" by (intro fmap_ext) (simp add: map_has_def)
qed (simp add: map_len_def)

lemma fold_names:
  "foldName ''type'' = ''TYPE''" "foldName ''id'' = ''ID''" "foldName ''addr'' = ''ADDR''"
  "foldName ''http'' = ''HTTP''" "foldName ''peers'' = ''PEERS''" "foldName ''http_addrs'' = ''HTTP_ADDRS''"
  "foldName ''Term'' = ''TERM''" "foldName ''Index'' = ''INDEX''" "foldName ''Command'' = ''COMMAND''"
  "foldName ''Change'' = ''CHANGE''" "foldName ''current_term'' = ''CURRENT_TERM''"
  "foldName ''voted_for'' = ''VOTED_FOR''" "foldName ''log'' = ''LOG''" "foldName ''snapshot'' = ''SNAPSHOT''"
  "foldName ''snapshot_peers'' = ''SNAPSHOT_PEERS''" "foldName ''snapshot_http'' = ''SNAPSHOT_HTTP''"
  by code_simp+

lemmas decode = fieldFor_def at_def omit_def fold_names

lemma decode_change: "decStruct changeFields zeroChange (jChange ch) = Some ch"
  by (cases ch) (simp add: jChange_def zeroChange_def changeFields_def decode)

lemma decode_entry: "decStruct entryFields emptyEntry (jEntry e) = Some e"
proof (cases e)
  case (fields t i c ch)
  have "decChangePtr None (jChange x) = Some (Some x)" for x
    using decode_change[of x] by (simp add: jChange_def)
  then show ?thesis
    using fields by (simp add: jEntry_def emptyEntry_def entryFields_def decode split: option.split)
qed

lemma decode_durable: "decStruct durableFields zeroDurable (jDurable ds) = Some ds"
  by (cases ds) (simp add: jDurable_def zeroDurable_def durableFields_def decode decAll_map decode_entry)

text \<open>The values written are well formed and nest at most five deep.\<close>

lemma json_change [simp]:
  "goodJson (jChange ch)" "validJson (jChange ch) \<longleftrightarrow> valid_change ch" "fits (Suc (Suc d)) (jChange ch)"
  by (auto simp: jChange_def omit_def valid_change_def)

lemma json_entry [simp]:
  "goodJson (jEntry e)" "validJson (jEntry e) \<longleftrightarrow> valid_entry e" "fits (Suc (Suc (Suc d))) (jEntry e)"
  by (auto simp: jEntry_def omit_def valid_entry_def split: option.split)

lemma json_durable [simp]:
  "goodJson (jDurable ds)" "validJson (jDurable ds) \<longleftrightarrow> valid_durable ds" "fits (Suc (Suc (Suc (Suc (Suc d))))) (jDurable ds)"
  by (auto simp: jDurable_def omit_def valid_durable_def)

lemma unmarshal_durable:
  assumes "valid_durable ds"
  shows "unmarshal (decStruct durableFields) zeroDurable (emit (jDurable ds)) = Some ds"
proof -
  have "(5 :: nat) \<le> maxNesting" by (simp add: maxNesting_def)
  then show ?thesis
    using unmarshal_emit[of "jDurable ds" 5 "decStruct durableFields" zeroDurable] assms
      json_durable(3)[of 0 ds] decode_durable[of ds] by (simp add: eval_nat_numeral)
qed

subsection \<open>Save is atomic\<close>

lemma tmp_path [simp]: "storagePath dir @ ''.tmp'' \<noteq> storagePath dir" "storagePath dir \<noteq> storagePath dir @ ''.tmp''"
  by simp_all

definition stateFile :: "DurableState \<Rightarrow> FileData" where
  "stateFile st = \<lparr>content = emit (jDurable st), synced = True\<rparr>"

context file_os
begin

text \<open>
  A save that returns nil has put the new state, synced, in place of the old; a save that returns an
  error has left \<open>state.json\<close> alone.  No other file but the temporary one is touched.
\<close>

lemma step_other:
  assumes "q \<noteq> p"
  shows "osMkdirAll os x d = (r, d') \<Longrightarrow> fmlookup (fs d') q = fmlookup (fs d) q"
    and "osOpenFile os p d = (r, d') \<Longrightarrow> fmlookup (fs d') q = fmlookup (fs d) q"
    and "osWrite os p b d = (r, d') \<Longrightarrow> fmlookup (fs d') q = fmlookup (fs d) q"
    and "osSync os p d = (r, d') \<Longrightarrow> fmlookup (fs d') q = fmlookup (fs d) q"
    and "osClose os x d = (r, d') \<Longrightarrow> fmlookup (fs d') q = fmlookup (fs d) q"
    and "osRename os p x d = (Some e, d') \<Longrightarrow> fmlookup (fs d') q = fmlookup (fs d) q"
    and "giveUp os p y d = (w, d') \<Longrightarrow> fmlookup (fs d') q = fmlookup (fs d) q"
    and "fmlookup (fs (snd (osClose os x d))) q = fmlookup (fs d) q"
  using other(1,3,4)[OF assms, of d] other(2)[OF assms, of b d] mkdir[of x d] close[of x d] rename_err[of p x d]
  by (auto simp: giveUp_def dest: arg_cong[of _ _ snd])

lemma save_error:
  assumes "FileStorage_Save os dir st d = (Some e, d')" and "q \<noteq> storagePath dir @ ''.tmp''"
  shows "fmlookup (fs d') q = fmlookup (fs d) q"
  using assms(1) unfolding FileStorage_Save_def Let_def
  by (auto split: prod.splits option.splits simp: step_other(8)[OF assms(2)] dest!: step_other(1-7)[OF assms(2)])

lemma save_nil:
  assumes "FileStorage_Save os dir st d = (None, d')"
  shows "fmlookup (fs d') (storagePath dir) = Some (stateFile st)"
    and "q \<noteq> storagePath dir \<Longrightarrow> q \<noteq> storagePath dir @ ''.tmp'' \<Longrightarrow> fmlookup (fs d') q = fmlookup (fs d) q"
proof -
  let ?tmp = "storagePath dir @ ''.tmp''" and ?p = "storagePath dir" and ?b = "emit (jDurable st)"
  obtain d1 d2 d3 d4 d5 where c: "osMkdirAll os dir d = (None, d1)" "osOpenFile os ?tmp d1 = (None, d2)"
    "osWrite os ?tmp ?b d2 = (None, d3)" "osSync os ?tmp d3 = (None, d4)" "osClose os ?tmp d4 = (None, d5)"
    "osRename os ?tmp ?p d5 = (None, d')"
    using assms by (auto simp: FileStorage_Save_def Let_def giveUp_def split: prod.splits option.splits)
  have "fs d1 = fs d" "fs d5 = fs d4" using mkdir[of dir d] close[of ?tmp d4] c(1,5) by simp_all
  then have "fs d' = renameFile ?tmp ?p (syncFile ?tmp (appendFile ?tmp ?b (truncateFile ?tmp (fs d))))"
    using open_ok[OF c(2)] write_ok[OF c(3)] sync_ok[OF c(4)] rename_ok[OF c(6)] by simp
  then show "fmlookup (fs d') ?p = Some (stateFile st)"
    and "q \<noteq> ?p \<Longrightarrow> q \<noteq> ?tmp \<Longrightarrow> fmlookup (fs d') q = fmlookup (fs d) q"
    by (simp_all add: renameFile_def syncFile_def appendFile_def truncateFile_def stateFile_def)
qed

text \<open>
  After a save under any outcome of the calls, with or without a power loss behind it, the state
  that is read is the one before or the new one, and it is the new one if the save returned nil.
\<close>

lemma save_load:
  assumes "FileStorage_Save os dir st d = (r, d')" and "valid_durable st"
    and "\<And>f. fmlookup (fs d) (storagePath dir) = Some f \<Longrightarrow> synced f"
  shows "FileStorage_Load diskOS dir (powerLoss k (fs d')) =
     (if r = None then Inr st else FileStorage_Load diskOS dir (fs d))"
proof -
  let ?p = "storagePath dir"
  have lk: "fmlookup (powerLoss k (fs d')) ?p = (if r = None then Some (stateFile st) else fmlookup (fs d) ?p)"
    using save_nil(1)[of dir st d d'] save_error[of dir st d _ d' ?p] assms(1,3)
    by (cases r; cases "fmlookup (fs d) ?p") (auto simp: powerLoss_def stateFile_def)
  then show ?thesis
    using unmarshal_durable[OF assms(2)]
    by (simp add: FileStorage_Load_def diskOS_def readFile_def stateFile_def split: option.split)
qed

end

subsection \<open>The storage contract\<close>

lemma fileStorage_ok:
  assumes "dir \<noteq> []"
  shows "storage_ok (NewFileStorage diskOS dir)"
proof -
  have "fst (FileStorage_Save diskOS dir ds d) = None" for ds d
    using assms by (simp add: FileStorage_Save_def diskOS_def ok_def mkdirOf_def Let_def)
  then have s: "FileStorage_Save diskOS dir ds d = (None, snd (FileStorage_Save diskOS dir ds d))" for ds d
    by (metis prod.collapse)
  have "FileStorage_Load diskOS dir (snd (FileStorage_Save diskOS dir ds d)) = Inr ds" if "valid_durable ds" for ds d
    using disk_os.save_nil(1)[OF s[of ds d]] unmarshal_durable[OF that]
    by (simp add: FileStorage_Load_def diskOS_def readFile_def stateFile_def)
  then show ?thesis by (simp add: storage_ok_def NewFileStorage_def)
qed

subsection \<open>Properties\<close>

text \<open>
  C28: The state file can be read back.  Decoding what \<open>json.Marshal\<close> writes for a durable state gives
  that state, when its strings are well-formed UTF-8.
\<close>

theorem durable_roundtrip:
  assumes "valid_durable ds"
  shows "unmarshal (decStruct durableFields) zeroDurable (emit (jDurable ds)) = Some ds"
  using unmarshal_durable[OF assms] .


text \<open>
  C29: Nodes below one data directory have different state files, and the temporary file of one is
  not the state file of another, when their ids are single path components.
\<close>

theorem state_files_distinct:
  assumes "plainName m" "plainName n" "root \<noteq> []" "m \<noteq> n"
  shows "storagePath (pathJoin root m) \<noteq> storagePath (pathJoin root n) \<and>
     storagePath (pathJoin root m) @ ''.tmp'' \<noteq> storagePath (pathJoin root n)"
proof -
  have name: "plainName ''state.json''" "plainName ''state.json.tmp''" by (simp_all add: plainName_def slash_def)
  have p: "resolve (pathJoin (pathJoin root x) f) = (fst (resolve root), snd (resolve root) @ [x, f])"
    if "plainName x" "plainName f" for x f
    using that assms(3) pathJoin_not_Nil by (simp add: resolve_pathJoin)
  obtain pre where pre: "\<forall>f. plainName f \<longrightarrow> pathJoin (pathJoin root m) f = pre @ f"
    using pathJoin_name[OF name(1) pathJoin_not_Nil[OF assms(1)]] by blast
  then have "storagePath (pathJoin root m) @ ''.tmp'' = pathJoin (pathJoin root m) ''state.json.tmp''"
    using name by (simp add: storagePath_def)
  then show ?thesis
    using pathJoin_below[OF assms(1,2) name(1) assms(3)] p[OF assms(1) name(2)] p[OF assms(2) name(1)] assms(4)
    by (auto simp: storagePath_def)
qed

subsection \<open>Witnesses\<close>

definition sampleState :: DurableState where
  "sampleState = \<lparr>dsCurrentTerm = 3, dsVotedFor = ''n2'',
     dsLog = [\<lparr>eTerm = 0, eIndex = 0, eCommand = [], eChange = None\<rparr>,
              \<lparr>eTerm = 3, eIndex = 1, eCommand = ''x'', eChange = None\<rparr>],
     dsSnapshot = [], dsSnapshotPeers = fmempty, dsSnapshotHTTP = fmempty\<rparr>"

lemma sampleState_valid: "valid_durable sampleState"
  unfolding sampleState_def valid_durable_def valid_entry_def by code_simp

theorem durable_roundtrip_witness:
  "unmarshal (decStruct durableFields) zeroDurable (emit (jDurable sampleState)) = Some sampleState"
  using durable_roundtrip[OF sampleState_valid] .


theorem state_files_distinct_witness:
  "storagePath (pathJoin ''data'' ''n1'') \<noteq> storagePath (pathJoin ''data'' ''n2'')"
  using state_files_distinct[of "''n1''" "''n2''" "''data''"] by (simp add: plainName_def slash_def)

end
