(* ===== verification/Raft_Rules.thy ===== *)
theory Raft_Rules
  imports Raft_Persist
begin

text \<open>
  The rules of a single handler: when a vote is granted, which index a leader commits, where the
  election deadline falls, what a proposal leaves behind.
\<close>

subsection \<open>A sample node\<close>

text \<open>A node with default timeouts and members \<open>ids\<close> on an empty disk.\<close>

definition sampleNode :: "string list \<Rightarrow> (unit, disk_files) RaftNode" where
  "sampleNode ids =
     NewNode ((DefaultConfig ''n1'' (fmap_of_list (map (\<lambda>i. (i, ''host'')) ids)))
       \<lparr>cfgStorage := Some (NewFileStorage diskOS ''d'')\<rparr>) fmempty ()"

lemma load_fresh: "Load (NewFileStorage diskOS dir) fmempty = Inr zeroDurable" "\<not> hasDurable zeroDurable"
  by (simp_all add: NewFileStorage_def FileStorage_Load_def diskOS_def readFile_def zeroDurable_def hasDurable_def map_len_def)

lemma sampleNode_simps [simp]:
  "nid (sampleNode ids) = ''n1''" "state (sampleNode ids) = Follower" "joining (sampleNode ids) = False"
  "rlog (sampleNode ids) = [\<lparr>eTerm = 0, eIndex = 0, eCommand = [], eChange = None\<rparr>]"
  "commitIndex (sampleNode ids) = 0" "lastApplied (sampleNode ids) = 0" "currentTerm (sampleNode ids) = 0"
  "electionDeadline (sampleNode ids) = 0" "transport (sampleNode ids) = None"
  "storage (sampleNode ids) = Some (NewFileStorage diskOS ''d'')" "snapshotter (sampleNode ids) = None"
  "snapshotThreshold (sampleNode ids) = 32" "stopped (sampleNode ids) = False" "votedFor (sampleNode ids) = []"
  "peerHTTP (sampleNode ids) = fmempty" "baseHTTP (sampleNode ids) = fmempty"
  "basePeers (sampleNode ids) = fmap_of_list (map (\<lambda>i. (i, ''host'')) ids)"
  "peerAddrs (sampleNode ids) = fmap_of_list (map (\<lambda>i. (i, ''host'')) ids)"
  "peerIDs (sampleNode ids) = map_keys (fmap_of_list (map (\<lambda>i. (i, ''host'')) ids))"
  "matchIndex (sampleNode ids) = fmempty" "nextIndex (sampleNode ids) = fmempty"
  by (simp_all add: sampleNode_def NewNode_def DefaultConfig_def clampConfig_def freshNode_def
      cloneStringMap_def Millisecond_def Let_def load_fresh)

lemma sampleNode_textual: "list_all valid_utf8 ids \<Longrightarrow> textual (sampleNode ids)"
proof -
  assume ids: "list_all valid_utf8 ids"
  have v: "valid_utf8 ''host''" "valid_utf8 ''n1''" "valid_utf8 []" by code_simp+
  have "k \<in> set ids \<and> v = ''host''" if "fmlookup (fmap_of_list (map (\<lambda>i. (i, ''host'')) ids)) k = Some v" for k v
    using that by (auto simp: fmlookup_of_list dest!: map_of_SomeD)
  then have "valid_map (fmap_of_list (map (\<lambda>i. (i, ''host'')) ids))"
    unfolding valid_map_iff using ids v(1) unfolding list_all_iff by metis
  then show ?thesis using v by (intro textualI) (simp_all add: valid_none)
qed

subsection \<open>Elections\<close>

text \<open>
  C21: a vote is granted exactly when the request is not from an older term, the candidate's log is
  at least as up to date as the voter's (by last term, then by last index), and the voter has not
  voted for another candidate in that term.
\<close>

theorem HandleRequestVote_grant_iff:
  "rvrVoteGranted (fst (HandleRequestVote e req n)) \<longleftrightarrow>
     currentTerm n \<le> rvTerm req \<and>
     (currentTerm n < rvTerm req \<or> votedFor n = '''' \<or> votedFor n = rvCandidateID req) \<and>
     (lastLogTermLocked n < rvLastLogTerm req \<or>
      lastLogTermLocked n = rvLastLogTerm req \<and> lastLogIndexLocked n \<le> rvLastLogIndex req)"
  by (auto simp: HandleRequestVote_def isLogUpToDateLocked_def Let_def becomeFollowerLocked_def
      persistLocked_def lastLogTermLocked_def lastLogIndexLocked_def)

text \<open>
  C15: A granted vote is on disk before it is answered.  When the storage works and the names are
  well formed, the state file holds the candidate and the term of the request at the moment the
  response is returned.
\<close>

theorem granted_vote_on_disk:
  assumes "storage n = Some st" "storage_ok st" "textual n" "rlog n \<noteq> []" "valid_utf8 (rvCandidateID req)"
    and "HandleRequestVote e req n = (resp, m)" "rvrVoteGranted resp"
  shows "\<exists>ds. Load st (disk m) = Inr ds \<and> dsVotedFor ds = rvCandidateID req \<and>
     dsCurrentTerm ds = rvTerm req \<and> dsLog ds = rlog n"
proof -
  define n1 where "n1 = (if rvTerm req > currentTerm n then becomeFollowerLocked (rvTerm req) '''' n else n)"
  define n2 where "n2 = resetElectionTimerLocked e (n1\<lparr>votedFor := rvCandidateID req\<rparr>)"
  have t: "currentTerm n \<le> rvTerm req" using assms(6,7) by (auto simp: HandleRequestVote_def split: if_splits)
  have m: "m = persistLocked n2"
    using assms(6,7) unfolding HandleRequestVote_def Let_def n1_def[symmetric] n2_def[symmetric] by (auto split: if_splits)
  have "storage n2 = Some st" "durableOf n2 = (durableOf n)\<lparr>dsCurrentTerm := rvTerm req, dsVotedFor := rvCandidateID req\<rparr>"
    using t assms(1) by (simp_all add: n2_def n1_def durableOf_def)
  note n2 = this
  have "valid_durable (durableOf n2)" "dsLog (durableOf n2) \<noteq> []"
    using assms(3-5) unfolding n2(2) by (simp_all add: textual_def valid_durable_def durableOf_def)
  then have "Load st (snd (Save st (durableOf n2) (disk n2))) = Inr (durableOf n2)"
    using assms(2) unfolding storage_ok_def by blast
  moreover have "disk m = snd (Save st (durableOf n2) (disk n2))" using n2(1) by (simp add: m persistLocked_def)
  ultimately show ?thesis by (simp add: n2(2)) (simp add: durableOf_def)
qed

theorem granted_vote_on_disk_witness:
  "\<exists>ds. Load (NewFileStorage diskOS ''d'') (disk (snd (HandleRequestVote \<lparr>now = 0, rnd = 0\<rparr>
      \<lparr>rvTerm = 1, rvCandidateID = ''n2'', rvLastLogIndex = 0, rvLastLogTerm = 0\<rparr> (sampleNode [''n1'', ''n2''])))) = Inr ds \<and>
      dsVotedFor ds = ''n2'' \<and> dsCurrentTerm ds = 1"
proof -
  let ?req = "\<lparr>rvTerm = 1, rvCandidateID = ''n2'', rvLastLogIndex = 0, rvLastLogTerm = 0\<rparr>" and ?n = "sampleNode [''n1'', ''n2'']"
  have v: "valid_utf8 ''n1''" "valid_utf8 ''n2''" by code_simp+
  have "rvrVoteGranted (fst (HandleRequestVote \<lparr>now = 0, rnd = 0\<rparr> ?req ?n))"
    by (simp add: HandleRequestVote_def isLogUpToDateLocked_def lastLogTermLocked_def lastLogIndexLocked_def Let_def)
  then show ?thesis
    using granted_vote_on_disk[OF _ fileStorage_ok[of "''d''"] sampleNode_textual[of "[''n1'', ''n2'']"] _ _
        prod.collapse[symmetric], of ?req "\<lparr>now = 0, rnd = 0\<rparr>"] v by auto
qed

lemma rebuild_timeouts [simp]:
  "electionTimeoutMin (rebuildMembershipLocked n) = electionTimeoutMin n"
  "electionTimeoutMax (rebuildMembershipLocked n) = electionTimeoutMax n"
  "heartbeatInterval (rebuildMembershipLocked n) = heartbeatInterval n"
  "electionTimeoutMin (restoreSnapshotLocked n) = electionTimeoutMin n"
  "electionTimeoutMax (restoreSnapshotLocked n) = electionTimeoutMax n"
  "heartbeatInterval (restoreSnapshotLocked n) = heartbeatInterval n"
  by (simp_all add: rebuildMembershipLocked_def rebuildPeerIDsLocked_def restoreSnapshotLocked_def Let_def
      split: prod.split option.split)

lemma recover_timeouts [simp]:
  "electionTimeoutMin (recoverNode ds n) = electionTimeoutMin n"
  "electionTimeoutMax (recoverNode ds n) = electionTimeoutMax n"
  "heartbeatInterval (recoverNode ds n) = heartbeatInterval n"
  by (simp_all add: recoverNode_def Let_def)


subsection \<open>Committing\<close>

text \<open>An index a leader may commit by counting replicas (the rule of section 5.4.2 of the Raft paper).\<close>

definition committable :: "('w, 'd) RaftNode \<Rightarrow> int \<Rightarrow> bool" where
  "committable n k \<longleftrightarrow> termAtLocked n k = Some (currentTerm n) \<and> majority n \<le> matchCount n k"

lemma advanceLoop_result:
  "(advanceLoop idx n = n \<and> (\<forall>k. commitIndex n < k \<and> k \<le> idx \<longrightarrow> \<not> committable n k)) \<or>
   (\<exists>k. commitIndex n < k \<and> k \<le> idx \<and> committable n k \<and> advanceLoop idx n = n\<lparr>commitIndex := k\<rparr> \<and>
      (\<forall>j. k < j \<and> j \<le> idx \<longrightarrow> \<not> committable n j))"
proof (induction "nat (idx - commitIndex n)" arbitrary: idx)
  case 0
  then show ?case by (subst (1 2) advanceLoop.simps) auto
next
  case (Suc d)
  then have idx: "commitIndex n < idx" by simp
  show ?case
  proof (cases "committable n idx")
    case True
    have "advanceLoop idx n = n\<lparr>commitIndex := idx\<rparr>"
      using idx True by (subst advanceLoop.simps) (simp add: committable_def)
    moreover have "\<forall>j. idx < j \<and> j \<le> idx \<longrightarrow> \<not> committable n j" by (meson not_less)
    ultimately show ?thesis using True idx order_refl[of idx] by blast
  next
    case False
    then have eq: "advanceLoop idx n = advanceLoop (idx - 1) n"
      using idx by (subst advanceLoop.simps) (auto simp: committable_def)
    have ext: "\<forall>j. k < j \<and> j \<le> idx \<longrightarrow> \<not> committable n j"
      if "\<forall>j. k < j \<and> j \<le> idx - 1 \<longrightarrow> \<not> committable n j" for k
    proof (intro allI impI)
      fix j assume "k < j \<and> j \<le> idx"
      then show "\<not> committable n j" using spec[OF that, of j] False by (cases "j = idx") auto
    qed
    have "d = nat (idx - 1 - commitIndex n)" using Suc(2) by simp
    from Suc(1)[OF this] show ?thesis
    proof (elim disjE exE conjE)
      assume "advanceLoop (idx - 1) n = n" and "\<forall>k. commitIndex n < k \<and> k \<le> idx - 1 \<longrightarrow> \<not> committable n k"
      then show ?thesis using ext unfolding eq by blast
    next
      fix k assume k: "commitIndex n < k" "k \<le> idx - 1" "committable n k"
        "advanceLoop (idx - 1) n = n\<lparr>commitIndex := k\<rparr>" "\<forall>j. k < j \<and> j \<le> idx - 1 \<longrightarrow> \<not> committable n j"
      moreover have "k \<le> idx" using k(2) by simp
      ultimately show ?thesis using ext[OF k(5)] unfolding eq by blast
    qed
  qed
qed

text \<open>
  C20: What a leader commits.  \<open>advanceCommitLocked\<close> moves the commit index to the largest index above
  it whose entry is of the current term and is stored on a majority, leaves it where it is when
  there is none, and changes nothing else.
\<close>

theorem advanceCommit_largest:
  "advanceCommitLocked n = n\<lparr>commitIndex := Max (insert (commitIndex n)
     {k. commitIndex n < k \<and> k \<le> lastLogIndexLocked n \<and> committable n k})\<rparr>"
proof -
  let ?S = "{k. commitIndex n < k \<and> k \<le> lastLogIndexLocked n \<and> committable n k}"
  have fin: "finite ?S" by (rule finite_subset[of _ "{commitIndex n..lastLogIndexLocked n}"]) auto
  from advanceLoop_result[of "lastLogIndexLocked n" n] show ?thesis
  proof (elim disjE exE conjE)
    assume eq: "advanceLoop (lastLogIndexLocked n) n = n"
      and none: "\<forall>k. commitIndex n < k \<and> k \<le> lastLogIndexLocked n \<longrightarrow> \<not> committable n k"
    have "?S = {}" using none by blast
    then have "Max (insert (commitIndex n) ?S) = commitIndex n" by (simp only: Max_singleton)
    then show ?thesis unfolding advanceCommitLocked_def eq by (cases n) (simp only: RaftNode.simps)
  next
    fix k assume k: "commitIndex n < k" "k \<le> lastLogIndexLocked n" "committable n k"
      and eq: "advanceLoop (lastLogIndexLocked n) n = n\<lparr>commitIndex := k\<rparr>"
      and max: "\<forall>j. k < j \<and> j \<le> lastLogIndexLocked n \<longrightarrow> \<not> committable n j"
    have "Max (insert (commitIndex n) ?S) = k"
    proof (rule Max_eqI)
      show "j \<le> k" if "j \<in> insert (commitIndex n) ?S" for j
        using that k(1) spec[OF max, of j] by (cases "k < j") auto
    qed (use fin k in simp_all)
    then show ?thesis by (simp only: advanceCommitLocked_def eq)
  qed
qed

subsection \<open>Applying\<close>

lemma entryAt_applyEntry [simp]: "entryAtLocked (applyEntry x k n) i = entryAtLocked n i"
  by (rule entryAtLocked_cong) (simp add: applyEntry_def)

lemma applyLoop_reaches:
  assumes "\<And>k. lastApplied n < k \<Longrightarrow> k \<le> commitIndex n \<Longrightarrow> entryAtLocked n k \<noteq> None"
  shows "lastApplied (applyLoop n) = max (lastApplied n) (commitIndex n)"
  using assms
proof (induction n rule: applyLoop.induct)
  case (1 n)
  show ?case
  proof (cases "lastApplied n < commitIndex n")
    case True
    then obtain e where e: "entryAtLocked n (lastApplied n + 1) = Some e" using "1.prems"[of "lastApplied n + 1"] by auto
    let ?m = "applyEntry e (lastApplied n + 1) n"
    have m: "lastApplied ?m = lastApplied n + 1" "commitIndex ?m = commitIndex n" by (simp_all add: applyEntry_def)
    have "lastApplied (applyLoop ?m) = max (lastApplied ?m) (commitIndex ?m)"
      using "1.prems" m by (intro "1.IH"[OF True refl e]) simp
    moreover have "applyLoop n = applyLoop ?m" using True e by (subst applyLoop.simps) simp
    ultimately show ?thesis using True m by simp
  qed (subst applyLoop.simps, simp)
qed

lemma lastApplied_compact [simp]: "lastApplied (maybeCompactLocked n) = lastApplied n"
  by (simp add: maybeCompactLocked_def compactLocked_def Let_def split: option.split sum.split)


subsection \<open>A cluster of one\<close>

lemma advance_solo:
  assumes "peerIDs n = [nid n]" "log_ok (rlog n)" "lastLogTermLocked n = currentTerm n"
    "commitIndex n < lastLogIndexLocked n" "map_get 0 (matchIndex n) (nid n) = lastLogIndexLocked n"
  shows "advanceCommitLocked n = n\<lparr>commitIndex := lastLogIndexLocked n\<rparr>"
proof -
  have "termAtLocked n (lastLogIndexLocked n) = Some (currentTerm n)"
    using entryAtLocked_last[OF assms(2)] assms(3) by (simp add: termAtLocked_def lastLogTermLocked_def)
  moreover have "majority n \<le> matchCount n (lastLogIndexLocked n)"
    using assms(1,5) by (simp add: majority_def matchCount_def)
  ultimately show ?thesis
    using assms(4) unfolding advanceCommitLocked_def by (subst advanceLoop.simps) simp
qed

lemma apply_short:
  assumes "commitIndex n - lastIncludedIndexLocked n < snapshotThreshold n" "lastApplied n \<le> commitIndex n"
  shows "applyCommittedLocked n = applyLoop n"
proof -
  have le: "lastApplied (applyLoop n) \<le> commitIndex n"
    using assms(2)
  proof (induction n rule: applyLoop.induct)
    case (1 n)
    then show ?case by (subst applyLoop.simps) (auto simp: Let_def applyEntry_def split: option.split)
  qed
  have "lastIncludedIndexLocked (applyLoop n) = lastIncludedIndexLocked n" by (simp add: lastIncludedIndexLocked_def)
  then show ?thesis using le assms(1) by (simp add: applyCommittedLocked_def maybeCompactLocked_def Let_def)
qed

text \<open>The end of a handler of a lone leader that has just appended an entry of its term.\<close>

lemma commit_solo:
  assumes "peerIDs n = [nid n]" "log_ok (rlog n)" "lastLogTermLocked n = currentTerm n"
    "lastIncludedIndexLocked n \<le> lastApplied n" "lastApplied n \<le> commitIndex n" "commitIndex n < lastLogIndexLocked n"
    "map_get 0 (matchIndex n) (nid n) = lastLogIndexLocked n"
  defines "m \<equiv> broadcastAppendEntriesLocked (applyCommittedLocked (advanceCommitLocked n))"
  shows "commitIndex m = lastLogIndexLocked n" "lastApplied m = lastLogIndexLocked n"
    "state m = state n" "currentTerm m = currentTerm n"
    "lastLogIndexLocked n - lastIncludedIndexLocked n < snapshotThreshold n \<Longrightarrow>
       rlog m = rlog n \<and> peerIDs m = peerIDs n \<and> snapshotThreshold m = snapshotThreshold n"
proof -
  let ?m = "n\<lparr>commitIndex := lastLogIndexLocked n\<rparr>"
  have adv: "advanceCommitLocked n = ?m" by (rule advance_solo[OF assms(1-3,6,7)])
  have i: "lastIncludedIndexLocked ?m = lastIncludedIndexLocked n" "lastLogIndexLocked ?m = lastLogIndexLocked n"
    by (simp_all add: lastIncludedIndexLocked_def lastLogIndexLocked_def)
  have "entryAtLocked ?m k \<noteq> None" if "lastApplied ?m < k" "k \<le> commitIndex ?m" for k
    using entryAtLocked_defined[of ?m k] assms(2,4) that i by auto
  from applyLoop_reaches[OF this] show "lastApplied m = lastLogIndexLocked n"
    using assms(5,6) by (simp add: m_def adv applyCommittedLocked_def)
  show "commitIndex m = lastLogIndexLocked n" "state m = state n" "currentTerm m = currentTerm n"
    by (simp_all add: m_def adv)
  show "rlog m = rlog n \<and> peerIDs m = peerIDs n \<and> snapshotThreshold m = snapshotThreshold n"
    if "lastLogIndexLocked n - lastIncludedIndexLocked n < snapshotThreshold n"
    using apply_short[of ?m] that assms(5,6) i by (simp add: m_def adv)
qed

lemma snoc_indices:
  assumes "log_ok (rlog n)" "eIndex x = lastLogIndexLocked n + 1" "lastLogTermLocked n \<le> eTerm x" "rlog m = rlog n @ [x]"
  shows "log_ok (rlog m)" "lastLogIndexLocked m = lastLogIndexLocked n + 1" "lastLogTermLocked m = eTerm x"
    "lastIncludedIndexLocked m = lastIncludedIndexLocked n"
proof -
  show "log_ok (rlog m)" unfolding assms(4)
    by (rule log_ok_snoc[OF assms(1)]) (use assms(2,3) in \<open>simp_all add: lastLogTermLocked_def lastLogIndexLocked_def\<close>)
  show "lastLogIndexLocked m = lastLogIndexLocked n + 1" "lastLogTermLocked m = eTerm x"
      "lastIncludedIndexLocked m = lastIncludedIndexLocked n"
    using assms(1,2,4)
    by (auto simp: lastLogIndexLocked_def lastLogTermLocked_def lastIncludedIndexLocked_def hd_append log_ok_def)
qed

lemma becomeLeader_solo:
  assumes "peerIDs n = [nid n]" "log_ok (rlog n)" "lastLogTermLocked n \<le> currentTerm n"
    "lastIncludedIndexLocked n \<le> lastApplied n" "lastApplied n \<le> commitIndex n" "commitIndex n \<le> lastLogIndexLocked n"
  shows "state (becomeLeaderLocked n) = Leader" "currentTerm (becomeLeaderLocked n) = currentTerm n"
    "commitIndex (becomeLeaderLocked n) = lastLogIndexLocked n + 1"
    "lastApplied (becomeLeaderLocked n) = lastLogIndexLocked n + 1"
    "lastLogIndexLocked n + 1 - lastIncludedIndexLocked n < snapshotThreshold n \<Longrightarrow>
       rlog (becomeLeaderLocked n) = rlog n @ [noopEntry n] \<and> peerIDs (becomeLeaderLocked n) = [nid n] \<and>
       snapshotThreshold (becomeLeaderLocked n) = snapshotThreshold n"
proof -
  define n1 where "n1 = n\<lparr>state := Leader, leaderID := nid n,
     nextIndex := fmempty, matchIndex := fmempty, replicating := fmempty\<rparr>"
  define n2 where "n2 = trackFresh (lastLogIndexLocked n1) (nid n1) n1"
  define n3 where "n3 = persistLocked (n2\<lparr>rlog := rlog n2 @ [noopEntry n1],
     matchIndex := fmupd (nid n2) (eIndex (noopEntry n1)) (matchIndex n2),
     nextIndex := fmupd (nid n2) (eIndex (noopEntry n1) + 1) (nextIndex n2), nextHeartbeat := 0\<rparr>)"
  have eq: "becomeLeaderLocked n = broadcastAppendEntriesLocked (applyCommittedLocked (advanceCommitLocked n3))"
  proof -
    have "fold (trackFresh (lastLogIndexLocked n1)) (peerIDs n1) n1 = n2" using assms(1) by (simp add: n2_def n1_def)
    then show ?thesis unfolding becomeLeaderLocked_def Let_def n1_def[symmetric] n3_def by simp
  qed
  have n1: "lastLogIndexLocked n1 = lastLogIndexLocked n" "noopEntry n1 = noopEntry n"
    by (simp_all add: n1_def lastLogIndexLocked_def noopEntry_def)
  have n3: "nid n3 = nid n" "peerIDs n3 = peerIDs n" "rlog n3 = rlog n @ [noopEntry n]" "state n3 = Leader"
    "currentTerm n3 = currentTerm n" "commitIndex n3 = commitIndex n" "lastApplied n3 = lastApplied n"
    "map_get 0 (matchIndex n3) (nid n3) = lastLogIndexLocked n + 1" "snapshotThreshold n3 = snapshotThreshold n"
    using n1 by (simp_all add: n3_def n2_def n1_def trackFresh_def noopEntry_def)
  note l = snoc_indices[OF assms(2) _ _ n3(3), unfolded noopEntry_def, simplified, OF assms(3)]
  note c = commit_solo[of n3, folded eq]
  show "state (becomeLeaderLocked n) = Leader" "currentTerm (becomeLeaderLocked n) = currentTerm n"
    "commitIndex (becomeLeaderLocked n) = lastLogIndexLocked n + 1"
    "lastApplied (becomeLeaderLocked n) = lastLogIndexLocked n + 1"
    "lastLogIndexLocked n + 1 - lastIncludedIndexLocked n < snapshotThreshold n \<Longrightarrow>
       rlog (becomeLeaderLocked n) = rlog n @ [noopEntry n] \<and> peerIDs (becomeLeaderLocked n) = [nid n] \<and>
       snapshotThreshold (becomeLeaderLocked n) = snapshotThreshold n"
    using c assms n3 l by simp_all
qed

lemma solo_propose:
  assumes "peerIDs n = [nid n]" "log_ok (rlog n)" "lastLogTermLocked n \<le> currentTerm n"
    "lastIncludedIndexLocked n \<le> lastApplied n" "lastApplied n \<le> commitIndex n" "commitIndex n \<le> lastLogIndexLocked n"
    and "Propose cmd n = ((index, term, None), m)"
  shows "commitIndex m = index" "lastApplied m = index" "index = lastLogIndexLocked n + 1" "term = currentTerm n"
    "index - lastIncludedIndexLocked n < snapshotThreshold n \<Longrightarrow>
       rlog m = rlog n @ [\<lparr>eTerm = term, eIndex = index, eCommand = cmd, eChange = None\<rparr>] \<and> peerIDs m = peerIDs n" "state m = Leader" "currentTerm m = term"
proof -
  let ?x = "\<lparr>eTerm = currentTerm n, eIndex = lastLogIndexLocked n + 1, eCommand = cmd, eChange = None\<rparr>"
  define n1 where "n1 = recordMatch (nid n) (lastLogIndexLocked n + 1) (persistLocked (appendOwn ?x n))"
  have p: "state n = Leader" "index = lastLogIndexLocked n + 1" "term = currentTerm n"
    "m = broadcastAppendEntriesLocked (applyCommittedLocked (advanceCommitLocked n1))"
    using assms(7) by (auto simp: Propose_def Let_def n1_def appendOwn_def split: if_splits)
  have n1: "nid n1 = nid n" "peerIDs n1 = peerIDs n" "rlog n1 = rlog n @ [?x]" "state n1 = state n"
    "currentTerm n1 = currentTerm n" "commitIndex n1 = commitIndex n" "lastApplied n1 = lastApplied n"
    "map_get 0 (matchIndex n1) (nid n1) = lastLogIndexLocked n + 1" "snapshotThreshold n1 = snapshotThreshold n"
    by (simp_all add: n1_def recordMatch_def appendOwn_def)
  note l = snoc_indices[OF assms(2) _ _ n1(3), simplified, OF assms(3)]
  note c = commit_solo[of n1, folded p(4)]
  show "commitIndex m = index" "lastApplied m = index" "index = lastLogIndexLocked n + 1" "term = currentTerm n"
    "index - lastIncludedIndexLocked n < snapshotThreshold n \<Longrightarrow>
       rlog m = rlog n @ [\<lparr>eTerm = term, eIndex = index, eCommand = cmd, eChange = None\<rparr>] \<and> peerIDs m = peerIDs n" "state m = Leader" "currentTerm m = term"
    using c assms(1-6) n1 l p(1-3) by simp_all
qed

text \<open>
  A lone leader commits at once.  When \<open>Propose\<close> of the only voter accepts a command, the entry is
  committed and applied when the call returns.
\<close>

theorem solo_propose_commits:
  assumes "peerIDs n = [nid n]" "log_ok (rlog n)" "lastLogTermLocked n \<le> currentTerm n"
    "lastIncludedIndexLocked n \<le> lastApplied n" "lastApplied n \<le> commitIndex n" "commitIndex n \<le> lastLogIndexLocked n"
    and "Propose cmd n = ((index, term, None), m)"
  shows "commitIndex m = index \<and> lastApplied m = index \<and> index = lastLogIndexLocked n + 1 \<and> term = currentTerm n"
  using solo_propose(1-4)[OF assms] by simp

lemma solo_tick:
  assumes "peerIDs n = [nid n]" "isVoterLocked n" "\<not> joining n" "state n \<noteq> Leader" "electionDeadline n \<le> now e"
    and "log_ok (rlog n)" "lastLogTermLocked n \<le> currentTerm n" "lastIncludedIndexLocked n \<le> lastApplied n"
    and "lastApplied n \<le> commitIndex n" "commitIndex n \<le> lastLogIndexLocked n"
  shows "state (tick e n) = Leader" "currentTerm (tick e n) = currentTerm n + 1"
    "commitIndex (tick e n) = lastLogIndexLocked n + 1" "lastApplied (tick e n) = lastLogIndexLocked n + 1"
    "lastLogIndexLocked n + 1 - lastIncludedIndexLocked n < snapshotThreshold n \<Longrightarrow> peerIDs (tick e n) = [nid n] \<and>
       rlog (tick e n) = rlog n @ [\<lparr>eTerm = currentTerm n + 1, eIndex = lastLogIndexLocked n + 1, eCommand = [], eChange = None\<rparr>]"
proof -
  define n1 where "n1 = persistLocked (resetElectionTimerLocked e
     (n\<lparr>state := Candidate, currentTerm := currentTerm n + 1, votedFor := nid n,
        leaderID := [], votesReceived := fmupd (nid n) True fmempty\<rparr>))"
  have n1: "peerIDs n1 = [nid n1]" "rlog n1 = rlog n" "currentTerm n1 = currentTerm n + 1"
    "lastApplied n1 = lastApplied n" "commitIndex n1 = commitIndex n" "map_len (votesReceived n1) = 1"
    "snapshotThreshold n1 = snapshotThreshold n" "nid n1 = nid n"
    using assms(1) by (simp_all add: n1_def map_len_def)
  have l: "lastLogIndexLocked n1 = lastLogIndexLocked n" "lastLogTermLocked n1 = lastLogTermLocked n"
    "lastIncludedIndexLocked n1 = lastIncludedIndexLocked n"
    using n1(2) by (simp_all add: lastLogIndexLocked_def lastLogTermLocked_def lastIncludedIndexLocked_def)
  have "startElectionLocked e n = becomeLeaderLocked n1"
    using assms(2,3) n1(1,6) unfolding startElectionLocked_def n1_def[symmetric]
    by (simp add: Let_def majority_def n1_def[symmetric])
  then have tick: "tick e n = applyCommittedLocked (becomeLeaderLocked n1)"
    using assms(2-5) by (cases "state n") (simp_all add: tick_def)
  let ?m = "becomeLeaderLocked n1"
  note b = becomeLeader_solo[of n1, unfolded l n1(2-5,7)]
  have loop: "applyLoop ?m = ?m" using b(3,4) assms(6-10) n1(1) by (subst applyLoop.simps) simp
  then show "state (tick e n) = Leader" "currentTerm (tick e n) = currentTerm n + 1"
    "commitIndex (tick e n) = lastLogIndexLocked n + 1" "lastApplied (tick e n) = lastLogIndexLocked n + 1"
    using b assms(6-10) n1(1) by (simp_all add: tick applyCommittedLocked_def)
  assume s: "lastLogIndexLocked n + 1 - lastIncludedIndexLocked n < snapshotThreshold n"
  have r: "rlog ?m = rlog n @ [noopEntry n1]" "peerIDs ?m = [nid n]" "snapshotThreshold ?m = snapshotThreshold n"
    using b(5)[OF _ _ _ _ _ _ s] assms(6-10) n1(1,8) by simp_all
  have "applyCommittedLocked ?m = ?m"
    using s b(3,4) assms(6-10) n1(1,7) r(1,3) log_ok_def[of "rlog n"]
    by (subst apply_short) (simp_all add: loop lastIncludedIndexLocked_def hd_append)
  then show "peerIDs (tick e n) = [nid n] \<and> rlog (tick e n) = rlog n @
      [\<lparr>eTerm = currentTerm n + 1, eIndex = lastLogIndexLocked n + 1, eCommand = [], eChange = None\<rparr>]"
    using r l(1) n1(3) by (simp add: tick noopEntry_def)
qed

text \<open>
  C22: A cluster of one node makes progress.  When its election timer has run out, one tick makes the
  node leader of a new term, with an entry of that term appended, committed and applied.
\<close>

theorem solo_elected_on_tick:
  assumes "peerIDs n = [nid n]" "isVoterLocked n" "\<not> joining n" "state n \<noteq> Leader" "electionDeadline n \<le> now e"
    and "log_ok (rlog n)" "lastLogTermLocked n \<le> currentTerm n" "lastIncludedIndexLocked n \<le> lastApplied n"
    and "lastApplied n \<le> commitIndex n" "commitIndex n \<le> lastLogIndexLocked n"
  shows "state (tick e n) = Leader \<and> currentTerm (tick e n) = currentTerm n + 1 \<and>
     commitIndex (tick e n) = lastLogIndexLocked n + 1 \<and> lastApplied (tick e n) = lastLogIndexLocked n + 1"
  using solo_tick(1-4)[OF assms] by simp

theorem solo_elected_on_tick_witness:
  "state (tick \<lparr>now = 1, rnd = 0\<rparr> (sampleNode [''n1''])) = Leader \<and>
   commitIndex (tick \<lparr>now = 1, rnd = 0\<rparr> (sampleNode [''n1''])) = 1"
  using solo_elected_on_tick[of "sampleNode [''n1'']" "\<lparr>now = 1, rnd = 0\<rparr>"]
  by (simp add: isVoterLocked_def log_ok_def lastLogIndexLocked_def lastLogTermLocked_def lastIncludedIndexLocked_def)


theorem solo_propose_commits_witness:
  "lastApplied (snd (Propose ''x'' ((sampleNode [''n1''])\<lparr>state := Leader, currentTerm := 1\<rparr>))) = 1"
proof -
  let ?n = "(sampleNode [''n1''])\<lparr>state := Leader, currentTerm := 1\<rparr>"
  have l: "lastLogIndexLocked ?n = 0" "lastLogTermLocked ?n = 0" "lastIncludedIndexLocked ?n = 0"
    by (simp_all add: lastLogIndexLocked_def lastLogTermLocked_def lastIncludedIndexLocked_def)
  have "fst (Propose ''x'' ?n) = (1, 1, None)" by (simp add: Propose_def Let_def l)
  then have "Propose ''x'' ?n = ((1, 1, None), snd (Propose ''x'' ?n))" by (metis prod.collapse)
  then show ?thesis using solo_propose_commits[of ?n "''x''" 1 1] by (simp add: l log_ok_def)
qed

end
