(* ===== verification/Kv_Store.thy ===== *)
theory Kv_Store
  imports Raft_Persist
begin

text \<open>
  The key-value store (\<open>kv/store.go\<close>): a map from keys to values with a JSON snapshot.
\<close>

subsection \<open>Operations\<close>

record Store =
  data :: addrmap

definition NewStore :: Store where
  "NewStore = \<lparr>data = fmempty\<rparr>"

definition Store_Put :: "string \<Rightarrow> string \<Rightarrow> Store \<Rightarrow> Store" where
  "Store_Put key v s = s\<lparr>data := fmupd key v (data s)\<rparr>"

definition Store_Get :: "string \<Rightarrow> Store \<Rightarrow> string \<times> bool" where
  "Store_Get key s = (map_get [] (data s) key, map_has (data s) key)"

definition Store_Len :: "Store \<Rightarrow> int" where
  "Store_Len s = map_len (data s)"

text \<open>The loops of \<open>Clone\<close> and \<open>Replace\<close>, which copy a map entry by entry into an empty one.\<close>

definition copyMap :: "addrmap \<Rightarrow> addrmap" where
  "copyMap m = fold (\<lambda>k out. fmupd k (map_get [] m k) out) (map_keys m) fmempty"

definition Clone :: "Store \<Rightarrow> addrmap" where
  "Clone s = copyMap (data s)"

definition Replace :: "addrmap \<Rightarrow> Store \<Rightarrow> Store" where
  "Replace m s = s\<lparr>data := copyMap m\<rparr>"

definition Store_Snapshot :: "Store \<Rightarrow> raft_error + bytes" where
  "Store_Snapshot s = Inr (emit (jMap (Clone s)))"

definition Store_Restore :: "bytes \<Rightarrow> Store \<Rightarrow> raft_error option \<times> Store" where
  "Store_Restore d s =
     (if d = [] then (None, Replace fmempty s)
      else case unmarshal decMap fmempty d of
        None \<Rightarrow> (Some (ErrMsg ''json: invalid snapshot''), s)
      | Some m \<Rightarrow> (None, Replace m s))"

subsection \<open>Facts\<close>

lemma copyMap_id [simp]: "copyMap m = m"
proof -
  have "fmlookup (fold (\<lambda>k out. fmupd k (map_get [] m k) out) ks out) x =
      (if x \<in> set ks then Some (map_get [] m x) else fmlookup out x)" for ks out x
    by (induction ks arbitrary: out) auto
  then show ?thesis
    unfolding copyMap_def by (intro fmap_ext) (simp add: map_has_def map_get_def split: option.split)
qed

lemma emit_map_not_Nil [simp]: "emit (jMap m) \<noteq> []"
  by (simp add: emit_def jMap_def)

lemma unmarshal_map:
  assumes "valid_map m"
  shows "unmarshal decMap fmempty (emit (jMap m)) = Some m"
  using assms unmarshal_emit[of "jMap m" 1 decMap fmempty] by (simp add: maxNesting_def)

lemma restore_snapshot:
  assumes "valid_map (data s)" and "Store_Snapshot s = Inr d"
  shows "d \<noteq> [] \<and> fst (Store_Restore d s') = None \<and> data (snd (Store_Restore d s')) = data s"
  using assms by (auto simp: Store_Snapshot_def Store_Restore_def Clone_def Replace_def unmarshal_map)

text \<open>What is decoded is well formed.\<close>

lemma valid_decStr: "validJson v \<Longrightarrow> valid_utf8 cur \<Longrightarrow> decStr cur v = Some s \<Longrightarrow> valid_utf8 s"
  by (induction cur v rule: decStr.induct) auto

subsection \<open>Properties\<close>

text \<open>
  C27: A snapshot of a store with well-formed contents restores exactly these contents, into any
  store.
\<close>

theorem store_snapshot_roundtrip:
  assumes "valid_map (data s)"
  shows "\<exists>d. Store_Snapshot s = Inr d \<and> Store_Restore d s' = (None, s)"
  using assms by (cases s; cases s') (simp add: Store_Snapshot_def Store_Restore_def Clone_def Replace_def unmarshal_map)

theorem store_snapshot_roundtrip_witness:
  "\<exists>d. Store_Snapshot (Store_Put ''k'' ''v'' NewStore) = Inr d \<and>
     Store_Restore d NewStore = (None, Store_Put ''k'' ''v'' NewStore)"
proof -
  have "valid_utf8 ''k''" "valid_utf8 ''v''" by code_simp+
  then show ?thesis
    using store_snapshot_roundtrip[of "Store_Put ''k'' ''v'' NewStore" NewStore]
    by (simp add: Store_Put_def NewStore_def valid_map_upd)
qed

end
