(* ===== verification/Kv_Server.thy ===== *)
theory Kv_Server
  imports Kv_Store Raft_System
begin

text \<open>
  The client-facing server (\<open>kv/client_api.go\<close>) and its gRPC face (\<open>kv/grpc.go\<close>).  A server is a Raft
  node whose world holds the store and the redirect table, together with the timeout.

  A client call releases the node's mutex between its steps, so what it does is determined by the
  node at each of its critical sections; those are the fields of the run records.  A result of
  \<open>None\<close> means that the call has not returned yet.
\<close>

subsection \<open>Commands\<close>

record Command =
  cmdOp :: string
  cmdKey :: string
  cmdValue :: string

definition opPut :: string where "opPut = ''Put''"

definition jCommand :: "Command \<Rightarrow> json" where
  "jCommand c = JObj [(''op'', JStr (cmdOp c)), (''key'', JStr (cmdKey c)), (''value'', JStr (cmdValue c))]"

definition commandFields :: "Command fields" where
  "commandFields = [(''op'', at cmdOp (\<lambda>v x. x\<lparr>cmdOp := v\<rparr>) decStr),
     (''key'', at cmdKey (\<lambda>v x. x\<lparr>cmdKey := v\<rparr>) decStr),
     (''value'', at cmdValue (\<lambda>v x. x\<lparr>cmdValue := v\<rparr>) decStr)]"

definition zeroCommand :: Command where
  "zeroCommand = \<lparr>cmdOp = [], cmdKey = [], cmdValue = []\<rparr>"

subsection \<open>The world of a node\<close>

record KvWorld =
  store :: Store
  httpAddrs :: addrmap

definition SetHTTPAddrs :: "addrmap \<Rightarrow> KvWorld \<Rightarrow> KvWorld" where
  "SetHTTPAddrs m w = w\<lparr>httpAddrs := m\<rparr>"

definition onApply :: "ApplyMsg \<Rightarrow> KvWorld \<Rightarrow> KvWorld" where
  "onApply msg w =
     (if amCommand msg = [] then w
      else case unmarshal (decStruct commandFields) zeroCommand (amCommand msg) of
        None \<Rightarrow> w
      | Some cmd \<Rightarrow> if cmdOp cmd = opPut then w\<lparr>store := Store_Put (cmdKey cmd) (cmdValue cmd) (store w)\<rparr> else w)"

definition storeSnapshotter :: "KvWorld Snapshotter" where
  "storeSnapshotter = \<lparr>Snapshot = \<lambda>w. Store_Snapshot (store w),
     Restore = \<lambda>d w. (let (e, s) = Store_Restore d (store w) in (e, w\<lparr>store := s\<rparr>))\<rparr>"

subsection \<open>Errors\<close>

definition raft_Error :: "raft_error \<Rightarrow> string" where
  "raft_Error e = (case e of
     ErrNotLeader \<Rightarrow> ''not leader'' | ErrTimeout \<Rightarrow> ''timeout'' | ErrStaleLeader \<Rightarrow> ''stale leader''
   | ErrStopped \<Rightarrow> ''node stopped'' | ErrUnreachable \<Rightarrow> ''peer unreachable''
   | ErrAlreadyMember \<Rightarrow> ''already a member'' | ErrNotMember \<Rightarrow> ''not a member''
   | ErrConfigInProgress \<Rightarrow> ''uncommitted membership change'' | ErrLastMember \<Rightarrow> ''cannot remove the last member''
   | ErrRemoveLeader \<Rightarrow> ''cannot remove the leader; pick a follower'' | ErrMsg s \<Rightarrow> s)"

record NotLeaderError =
  nlLeaderID :: string
  nlLeaderAddr :: string
  nlLeaderHTTP :: string

definition NotLeaderError_Error :: "NotLeaderError \<Rightarrow> string" where
  "NotLeaderError_Error e =
     (if nlLeaderID e = [] then ''not leader (unknown leader)''
      else if nlLeaderHTTP e \<noteq> [] then ''not leader; try '' @ nlLeaderID e @ '' ('' @ nlLeaderHTTP e @ '')''
      else if nlLeaderAddr e \<noteq> [] then ''not leader; try '' @ nlLeaderID e @ '' ('' @ nlLeaderAddr e @ '')''
      else ''not leader; try '' @ nlLeaderID e)"

datatype kv_error = RaftErr raft_error | NotLeader NotLeaderError

definition kv_Error :: "kv_error \<Rightarrow> string" where
  "kv_Error e = (case e of RaftErr r \<Rightarrow> raft_Error r | NotLeader nl \<Rightarrow> NotLeaderError_Error nl)"

text \<open>\<open>errors.Is\<close>: a \<open>NotLeaderError\<close> unwraps to \<open>ErrNotLeader\<close>.\<close>

definition errorIs :: "kv_error \<Rightarrow> raft_error \<Rightarrow> bool" where
  "errorIs e r = (case e of RaftErr x \<Rightarrow> x = r | NotLeader nl \<Rightarrow> r = ErrNotLeader)"

subsection \<open>The server\<close>

definition Second :: int where
  "Second = 1000 * Millisecond"

record 'd Server =
  raft :: "(KvWorld, 'd) RaftNode"
  timeout :: int

definition NewServer :: "(KvWorld, 'd) RaftNode \<Rightarrow> 'd Server" where
  "NewServer n = \<lparr>raft = SetSnapshotter storeSnapshotter (SetApply onApply n), timeout = 3 * Second\<rparr>"

definition SetTimeout :: "int \<Rightarrow> 'd Server \<Rightarrow> 'd Server" where
  "SetTimeout t s = s\<lparr>timeout := t\<rparr>"

definition httpAddr :: "(KvWorld, 'd) RaftNode \<Rightarrow> string \<Rightarrow> string" where
  "httpAddr n i = (if i = [] then [] else map_get [] (httpAddrs (world n)) i)"

definition OwnHTTP :: "(KvWorld, 'd) RaftNode \<Rightarrow> string" where
  "OwnHTTP n = httpAddr n (nid n)"

text \<open>\<open>notLeader\<close> reads the leader's id in one critical section and its address in the next.\<close>

definition notLeader :: "(KvWorld, 'd) RaftNode \<Rightarrow> (KvWorld, 'd) RaftNode \<Rightarrow> kv_error" where
  "notLeader n1 n2 = NotLeader \<lparr>nlLeaderID = leaderID n1, nlLeaderAddr = LeaderAddr n2,
     nlLeaderHTTP = httpAddr n2 (leaderID n1)\<rparr>"

record 'd put_run =
  prCheck :: "(KvWorld, 'd) RaftNode"
  prPropose :: "(KvWorld, 'd) RaftNode"
  prWait :: "(KvWorld, 'd) wait_event list"
  prLead1 :: "(KvWorld, 'd) RaftNode"
  prLead2 :: "(KvWorld, 'd) RaftNode"

definition wrapError :: "raft_error \<Rightarrow> (KvWorld, 'd) RaftNode \<Rightarrow> (KvWorld, 'd) RaftNode \<Rightarrow> kv_error" where
  "wrapError err n1 n2 = (if err = ErrNotLeader then notLeader n1 n2 else RaftErr err)"

text \<open>\<open>Put\<close>: its result, and the node as the call to \<open>Propose\<close> leaves it.\<close>

definition Put ::
  "string \<Rightarrow> string \<Rightarrow> 'd put_run \<Rightarrow> kv_error option option \<times> (KvWorld, 'd) RaftNode" where
  "Put key v r =
     (if key = [] then (Some (Some (RaftErr (ErrMsg ''empty key''))), prPropose r)
      else if \<not> IsLeader (prCheck r) then (Some (Some (notLeader (prLead1 r) (prLead2 r))), prPropose r)
      else
        let body = emit (jCommand \<lparr>cmdOp = opPut, cmdKey = key, cmdValue = v\<rparr>) in
        case Propose body (prPropose r) of
          ((idx, t, Some err), n) \<Rightarrow> (Some (Some (wrapError err (prLead1 r) (prLead2 r))), n)
        | ((idx, t, None), n) \<Rightarrow>
          (case WaitApplied idx (prWait r) of
             None \<Rightarrow> (None, n)
           | Some (Some err) \<Rightarrow> (Some (Some (wrapError err (prLead1 r) (prLead2 r))), n)
           | Some None \<Rightarrow> (Some None, n)))"

text \<open>\<open>Get\<close> reads the store after \<open>ReadIndex\<close> has returned.\<close>

record 'd get_run =
  grRead :: "(KvWorld, 'd) read_run"
  grStore :: "(KvWorld, 'd) RaftNode"
  grLead1 :: "(KvWorld, 'd) RaftNode"
  grLead2 :: "(KvWorld, 'd) RaftNode"

definition Get :: "string \<Rightarrow> 'd get_run \<Rightarrow> (kv_error + string \<times> bool) option" where
  "Get key r =
     (case ReadIndex (grRead r) of
        None \<Rightarrow> None
      | Some (Inl err) \<Rightarrow> Some (Inl (wrapError err (grLead1 r) (grLead2 r)))
      | Some (Inr idx) \<Rightarrow> Some (Inr (Store_Get key (store (world (grStore r))))))"

text \<open>\<open>Status\<close> on a node that does not change while its accessors are called one after the other.\<close>

record Status =
  stID :: string
  stState :: string
  stTerm :: int
  stLeaderID :: string
  stLeaderAddr :: string
  stLeaderHTTP :: string
  stVotedFor :: string
  stCommitIndex :: int
  stLastApplied :: int
  stLastLogIndex :: int
  stSnapshotIndex :: int
  stLogLen :: int
  stKVSize :: int
  stPeers :: "string list"

definition Server_Status :: "(KvWorld, 'd) RaftNode \<Rightarrow> Status" where
  "Server_Status n =
     \<lparr>stID = nid n, stState = State_String (state n), stTerm = currentTerm n, stLeaderID = leaderID n,
      stLeaderAddr = LeaderAddr n, stLeaderHTTP = httpAddr n (leaderID n), stVotedFor = votedFor n,
      stCommitIndex = commitIndex n, stLastApplied = lastApplied n, stLastLogIndex = lastLogIndexLocked n,
      stSnapshotIndex = SnapshotIndex n, stLogLen = LogLen n, stKVSize = Store_Len (store (world n)),
      stPeers = peerIDs n\<rparr>"

subsection \<open>The gRPC face\<close>

record GetResponse =
  gOk :: bool
  gValue :: string
  gFound :: bool
  gError :: string
  gLeaderId :: string
  gLeaderAddr :: string

record PutResponse =
  pOk :: bool
  pError :: string
  pLeaderId :: string
  pLeaderAddr :: string

definition redirectGet :: "kv_error \<Rightarrow> GetResponse" where
  "redirectGet e =
     (let resp = \<lparr>gOk = False, gValue = [], gFound = False, gError = kv_Error e, gLeaderId = [], gLeaderAddr = []\<rparr> in
      case e of
        NotLeader nl \<Rightarrow> resp\<lparr>gLeaderId := nlLeaderID nl, gLeaderAddr := nlLeaderAddr nl\<rparr>
      | RaftErr err \<Rightarrow> resp)"

definition kvGRPC_Get :: "string \<Rightarrow> 'd get_run \<Rightarrow> GetResponse option" where
  "kvGRPC_Get key r =
     (case Get key r of
        None \<Rightarrow> None
      | Some (Inl err) \<Rightarrow> Some (redirectGet err)
      | Some (Inr (v, found)) \<Rightarrow>
        Some \<lparr>gOk = True, gValue = v, gFound = found, gError = [], gLeaderId = [], gLeaderAddr = []\<rparr>)"

definition kvGRPC_Put :: "string \<Rightarrow> string \<Rightarrow> 'd put_run \<Rightarrow> PutResponse option \<times> (KvWorld, 'd) RaftNode" where
  "kvGRPC_Put key v r =
     (case Put key v r of
        (None, n) \<Rightarrow> (None, n)
      | (Some (Some err), n) \<Rightarrow>
        (let resp = \<lparr>pOk = False, pError = kv_Error err, pLeaderId = [], pLeaderAddr = []\<rparr> in
         (Some (case err of
            NotLeader nl \<Rightarrow> resp\<lparr>pLeaderId := nlLeaderID nl, pLeaderAddr := nlLeaderAddr nl\<rparr>
          | RaftErr e \<Rightarrow> resp), n))
      | (Some None, n) \<Rightarrow> (Some \<lparr>pOk = True, pError = [], pLeaderId = [], pLeaderAddr = []\<rparr>, n))"

record StatusResponse =
  srId :: string
  srState :: string
  srTerm :: int
  srLeaderId :: string
  srLeaderAddr :: string
  srVotedFor :: string
  srCommitIndex :: int
  srLastApplied :: int
  srLastLogIndex :: int
  srSnapshotIndex :: int
  srLogLen :: int
  srKvSize :: int
  srPeers :: "string list"

definition kvGRPC_Status :: "(KvWorld, 'd) RaftNode \<Rightarrow> StatusResponse" where
  "kvGRPC_Status n = (let st = Server_Status n in
     \<lparr>srId = stID st, srState = stState st, srTerm = stTerm st, srLeaderId = stLeaderID st,
      srLeaderAddr = stLeaderAddr st, srVotedFor = stVotedFor st, srCommitIndex = stCommitIndex st,
      srLastApplied = stLastApplied st, srLastLogIndex = stLastLogIndex st,
      srSnapshotIndex = stSnapshotIndex st, srLogLen = stLogLen st, srKvSize = stKVSize st,
      srPeers = stPeers st\<rparr>)"

subsection \<open>Commands can be read back\<close>

lemma decFields_inv:
  assumes "\<And>k f x v y. (k, f) \<in> set fs \<Longrightarrow> P x \<Longrightarrow> validJson v \<Longrightarrow> f x v = Some y \<Longrightarrow> P y"
    and "\<forall>kv \<in> set kvs. validJson (snd kv)" and "P x" and "decFields fs kvs x = Some y"
  shows "P y"
  using assms(2-4)
proof (induction kvs arbitrary: x)
  case (Cons kv kvs)
  have field: "P z" if "fieldFor fs k = Some f" "f x' v = Some z" "P x'" "validJson v" for k f x' v z
    using that assms(1) by (auto simp: fieldFor_def find_Some_iff) (metis nth_mem prod.collapse)
  obtain k v where kv: "kv = (k, v)" by force
  show ?case
  proof (cases "fieldFor fs k")
    case (Some f)
    then obtain z where "f x v = Some z" "decFields fs kvs z = Some y"
      using Cons.prems(3) kv by (auto split: option.splits)
    then show ?thesis using Cons.IH[of z] Cons.prems(1,2) field[OF Some] kv by simp
  qed (use Cons kv in simp)
qed simp


lemma command_names: "foldName ''op'' = ''OP''" "foldName ''key'' = ''KEY''" "foldName ''value'' = ''VALUE''"
  by code_simp+

lemma decode_command: "decStruct commandFields zeroCommand (jCommand c) = Some c"
  by (cases c) (simp add: jCommand_def zeroCommand_def commandFields_def fieldFor_def at_def command_names)

lemma unmarshal_command:
  assumes "valid_utf8 (cmdOp c)" "valid_utf8 (cmdKey c)" "valid_utf8 (cmdValue c)"
  shows "unmarshal (decStruct commandFields) zeroCommand (emit (jCommand c)) = Some c"
  using assms unmarshal_emit[of "jCommand c" 1 "decStruct commandFields" zeroCommand] valid_ascii
  by (simp add: decode_command) (simp add: jCommand_def maxNesting_def)

subsection \<open>The replicated machine\<close>

text \<open>The state of the machine is the contents of the store.\<close>

definition kvState :: "KvWorld \<Rightarrow> addrmap" where
  "kvState w = data (store w)"

definition kvStep :: "ApplyMsg \<Rightarrow> addrmap \<Rightarrow> addrmap" where
  "kvStep msg m = kvState (onApply msg \<lparr>store = \<lparr>data = m\<rparr>, httpAddrs = fmempty\<rparr>)"

definition validCommand :: "Command \<Rightarrow> bool" where
  "validCommand c \<longleftrightarrow> valid_utf8 (cmdKey c) \<and> valid_utf8 (cmdValue c)"

lemma decoded_valid:
  assumes "unmarshal (decStruct commandFields) zeroCommand b = Some c"
  shows "validCommand c"
proof -
  from assms obtain j where j: "parse b = Some j" "decStruct commandFields zeroCommand j = Some c"
    by (auto simp: unmarshal_def split: option.splits)
  have zero: "validCommand zeroCommand" using valid_ascii[of "[]"] by (simp add: validCommand_def zeroCommand_def)
  have field: "validCommand y" if "(k, f) \<in> set commandFields" "validCommand x" "validJson v" "f x v = Some y" for k f x v y
    using that by (auto simp: commandFields_def at_def validCommand_def) (use valid_decStr in blast)+
  show ?thesis
  proof (cases j)
    case (JObj kvs)
    then show ?thesis
      using j parse_valid[OF j(1)] zero decFields_inv[of commandFields validCommand kvs zeroCommand c] field by auto
  qed (use j(2) zero in auto)
qed

interpretation kv: replicated_machine kvState kvStep valid_map onApply storeSnapshotter
  "\<lambda>peers https. SetHTTPAddrs https" "SetHTTPAddrs h"
proof
  show "kvState (onApply m w) = kvStep m (kvState w)" for m w
    by (simp add: kvStep_def kvState_def onApply_def Store_Put_def split: option.split)
  show "valid_map (kvStep m s)" if "valid_map s" for m s
    using that decoded_valid
    by (auto simp: validCommand_def kvStep_def kvState_def onApply_def Store_Put_def valid_map_upd split: option.split)
  show "Snapshot storeSnapshotter w = Inr d \<Longrightarrow> d \<noteq> []" for w d
    by (auto simp: storeSnapshotter_def Store_Snapshot_def)
  show "fst (Restore storeSnapshotter d w') = None \<and> kvState (snd (Restore storeSnapshotter d w')) = kvState w"
    if "valid_map (kvState w)" "Snapshot storeSnapshotter w = Inr d" for w d w'
    using restore_snapshot[of "store w" d "store w'"] that
    by (auto simp: storeSnapshotter_def kvState_def split: prod.split)
qed (simp_all add: kvState_def SetHTTPAddrs_def)

subsection \<open>What the operations do\<close>

lemma onApply_put:
  assumes "valid_utf8 k" "valid_utf8 v"
  shows "onApply \<lparr>amIndex = i, amCommand = emit (jCommand \<lparr>cmdOp = opPut, cmdKey = k, cmdValue = v\<rparr>)\<rparr> w =
    w\<lparr>store := Store_Put k v (store w)\<rparr>"
proof -
  have "valid_utf8 opPut" unfolding opPut_def by code_simp
  then have "unmarshal (decStruct commandFields) zeroCommand (emit (jCommand \<lparr>cmdOp = opPut, cmdKey = k, cmdValue = v\<rparr>)) =
      Some \<lparr>cmdOp = opPut, cmdKey = k, cmdValue = v\<rparr>"
    using unmarshal_command[of "\<lparr>cmdOp = opPut, cmdKey = k, cmdValue = v\<rparr>"] assms by simp
  then show ?thesis by (simp add: onApply_def) (simp add: jCommand_def emit_def)
qed

lemma WaitApplied_nil:
  "WaitApplied idx evs = Some None \<Longrightarrow> \<exists>n. WaitTick n \<in> set evs \<and> idx \<le> lastApplied n"
proof (induction evs)
  case (Cons ev evs)
  then show ?case by (cases ev) (auto simp: Let_def split: if_splits)
qed simp

lemma waitCurrentTerm_nil:
  "waitCurrentTermCommitted evs = Some None \<Longrightarrow> \<exists>n ev. (n, ev) \<in> set evs \<and> committedCurrentTermLocked n"
  by (induction evs rule: waitCurrentTermCommitted.induct)
    (auto simp: waitCurrentTermIter_def split: if_splits select_event.splits)

lemma confirmLeadership_nil:
  assumes "confirmLeadership t n evs = Some None"
  shows "state n = Leader" "currentTerm n = t"
    "majority n \<le> 1 + int (length (filter (\<lambda>ev. ev = ConfResult True) evs))"
proof -
  show "state n = Leader" "currentTerm n = t"
    using assms by (auto simp: confirmLeadership_def Let_def split: if_splits)
  show "majority n \<le> 1 + int (length (filter (\<lambda>ev. ev = ConfResult True) evs))"
  proof (cases "majority n \<le> 1")
    case False
    then have "confirmLoop (majority n) 1 (int (length (filter (\<lambda>p. p \<noteq> nid n) (peerIDs n)))) evs = Some None"
      using assms by (auto simp: confirmLeadership_def Let_def split: if_splits)
    then obtain k where "majority n \<le> 1 + int (length (filter (\<lambda>ev. ev = ConfResult True) (take k evs)))"
      using confirmLoop_acks by blast
    moreover have "length (filter P (take k evs)) \<le> length (filter P evs)" for P
      by (metis append_take_drop_id filter_append length_append le_add1)
    ultimately show ?thesis by (meson add_left_mono of_nat_le_iff order_trans)
  qed linarith
qed

lemma ReadIndex_done:
  assumes "ReadIndex r = Some (Inr k)"
  shows "waitCurrentTermCommitted (rrWait r) = Some None" "state (rrNode r) = Leader" "k = commitIndex (rrNode r)"
    "confirmLeadership (currentTerm (rrNode r)) (rrConfNode r) (rrConf r) = Some None"
    "WaitApplied (commitIndex (rrNode r)) (rrApplied r) = Some None" "state (rrEnd r) = Leader"
  using assms by (auto simp: ReadIndex_def Let_def split: option.splits if_splits)

lemma Propose_cases:
  obtains (stopped) "stopped n" "Propose c n = ((0, 0, Some ErrStopped), n)"
  | (follower) "\<not> stopped n" "state n \<noteq> Leader" "Propose c n = ((0, currentTerm n, Some ErrNotLeader), n)"
  | (leader) m where "\<not> stopped n" "state n = Leader"
      "Propose c n = ((lastLogIndexLocked n + 1, currentTerm n, None), m)"
  by (cases "stopped n"; cases "state n = Leader") (auto simp: Propose_def Let_def)

subsection \<open>Properties\<close>

text \<open>
  A committed put takes effect.  Applying the command that \<open>Put\<close> proposes for well-formed \<open>k\<close> and
  \<open>v\<close> makes \<open>Get\<close> of \<open>k\<close> yield \<open>v\<close> and leaves every other key alone.
\<close>

theorem put_takes_effect:
  assumes "valid_utf8 k" "valid_utf8 v"
  shows "Store_Get x (store (onApply \<lparr>amIndex = i,
       amCommand = emit (jCommand \<lparr>cmdOp = opPut, cmdKey = k, cmdValue = v\<rparr>)\<rparr> w)) =
     (if x = k then (v, True) else Store_Get x (store w))"
  by (simp add: onApply_put[OF assms] Store_Get_def Store_Put_def)

theorem put_takes_effect_witness:
  "Store_Get ''a'' (store (onApply \<lparr>amIndex = 1,
     amCommand = emit (jCommand \<lparr>cmdOp = opPut, cmdKey = ''a'', cmdValue = ''b''\<rparr>)\<rparr>
     \<lparr>store = NewStore, httpAddrs = fmempty\<rparr>)) = (''b'', True)"
proof -
  have "valid_utf8 ''a''" "valid_utf8 ''b''" by code_simp+
  then show ?thesis using put_takes_effect[of "''a''" "''b''" "''a''"] by simp
qed


text \<open>
  A rejected put has no effect.  With an empty key, on a node that is not leader or on a
  stopped node \<open>Put\<close> returns an error at once and the node is as before.
\<close>

theorem put_rejected:
  assumes "key = [] \<or> state (prCheck r) \<noteq> Leader \<or> stopped (prPropose r) \<or> state (prPropose r) \<noteq> Leader"
  shows "\<exists>err. Put key v r = (Some (Some err), prPropose r)"
  using assms by (cases rule: Propose_cases[of "prPropose r" "emit (jCommand \<lparr>cmdOp = opPut, cmdKey = key, cmdValue = v\<rparr>)"])
    (auto simp: Put_def IsLeader_def Let_def)

text \<open>
  C25: When \<open>Get\<close> returns a value.  The node was leader when the read index was taken, an entry of its
  term was committed, it was still leader of that term when it asked for confirmation, at least a
  majority (the node itself included) confirmed, a node at or past the read index was seen, the node
  was leader at the end, and the value is that of the store.
\<close>

theorem get_confirmed:
  assumes "Get key r = Some (Inr x)"
  shows "x = Store_Get key (store (world (grStore r))) \<and>
     (\<exists>n ev. (n, ev) \<in> set (rrWait (grRead r)) \<and> committedCurrentTermLocked n) \<and>
     state (rrNode (grRead r)) = Leader \<and> state (rrConfNode (grRead r)) = Leader \<and>
     currentTerm (rrConfNode (grRead r)) = currentTerm (rrNode (grRead r)) \<and>
     majority (rrConfNode (grRead r)) \<le>
       1 + int (length (filter (\<lambda>ev. ev = ConfResult True) (rrConf (grRead r)))) \<and>
     (\<exists>n. WaitTick n \<in> set (rrApplied (grRead r)) \<and> commitIndex (rrNode (grRead r)) \<le> lastApplied n) \<and>
     state (rrEnd (grRead r)) = Leader"
proof -
  from assms obtain k where k: "ReadIndex (grRead r) = Some (Inr k)"
    and x: "x = Store_Get key (store (world (grStore r)))"
    by (auto simp: Get_def split: option.splits sum.splits)
  note d = ReadIndex_done[OF k]
  show ?thesis
    using x d(2,6) waitCurrentTerm_nil[OF d(1)] confirmLeadership_nil[OF d(4)] WaitApplied_nil[OF d(5)] by blast
qed

end
