(* ===== verification/Raft_Faults.thy ===== *)
theory Raft_Faults
  imports Raft_Node
begin

text \<open>
  The fault injector and the transports inside a process (\<open>raft/faults.go\<close>, \<open>raft/rpc.go\<close>): which RPCs
  are let through, the filter in front of another transport, the memory network of the tests and
  the stub transport.  A nil injector is \<open>None\<close>.

  The second half gives the injector a specification, a set of isolated nodes and a set of cut
  links, and shows that every operation implements it.
\<close>

subsection \<open>The fault injector\<close>

record Faults =
  isolated :: "bool gomap"
  blocked :: "bool gomap gomap"

definition NewFaults :: Faults where
  "NewFaults = \<lparr>isolated = fmempty, blocked = fmempty\<rparr>"

definition Allow :: "Faults option \<Rightarrow> string \<Rightarrow> string \<Rightarrow> bool" where
  "Allow fo from dest = (case fo of
     None \<Rightarrow> True
   | Some f \<Rightarrow>
     if map_get False (isolated f) from \<or> map_get False (isolated f) dest then False
     else if map_has (blocked f) from \<and> map_get False (map_get fmempty (blocked f) from) dest then False
     else True)"

definition Isolate :: "string \<Rightarrow> Faults option \<Rightarrow> Faults option" where
  "Isolate i fo = map_option (\<lambda>f. f\<lparr>isolated := fmupd i True (isolated f)\<rparr>) fo"

definition Heal :: "string \<Rightarrow> Faults option \<Rightarrow> Faults option" where
  "Heal i fo = map_option (\<lambda>f. f\<lparr>isolated := fmdrop i (isolated f)\<rparr>) fo"

definition block :: "string \<Rightarrow> string \<Rightarrow> Faults \<Rightarrow> Faults" where
  "block a b f = f\<lparr>blocked := fmupd a (fmupd b True (map_get fmempty (blocked f) a)) (blocked f)\<rparr>"

definition unblock :: "string \<Rightarrow> string \<Rightarrow> Faults \<Rightarrow> Faults" where
  "unblock a b f =
     (if map_has (blocked f) a then f\<lparr>blocked := fmupd a (fmdrop b (map_get fmempty (blocked f) a)) (blocked f)\<rparr> else f)"

definition Disconnect :: "string \<Rightarrow> string \<Rightarrow> Faults option \<Rightarrow> Faults option" where
  "Disconnect a b fo = map_option (\<lambda>f. block b a (block a b f)) fo"

definition Reconnect :: "string \<Rightarrow> string \<Rightarrow> Faults option \<Rightarrow> Faults option" where
  "Reconnect a b fo = map_option (\<lambda>f. unblock b a (unblock a b f)) fo"

definition HealAll :: "Faults option \<Rightarrow> Faults option" where
  "HealAll fo = map_option (\<lambda>f. f\<lparr>isolated := fmempty, blocked := fmempty\<rparr>) fo"

definition Isolated :: "string \<Rightarrow> Faults option \<Rightarrow> bool" where
  "Isolated i fo = (case fo of None \<Rightarrow> False | Some f \<Rightarrow> map_get False (isolated f) i)"

subsection \<open>Transports\<close>

text \<open>
  A send acts on the network \<open>'n\<close> behind the transport and yields the response or an error.  The
  three RPCs of the interface \<open>Transport\<close> have the same shape.
\<close>

type_synonym ('req, 'resp, 'n) send = "string \<Rightarrow> 'req \<Rightarrow> 'n \<Rightarrow> (raft_error + 'resp) \<times> 'n"

record 'n Sender =
  SendRequestVote :: "(RequestVoteRequest, RequestVoteResponse, 'n) send"
  SendAppendEntries :: "(AppendEntriesRequest, AppendEntriesResponse, 'n) send"
  SendInstallSnapshot :: "(InstallSnapshotRequest, InstallSnapshotResponse, 'n) send"

definition filterSend :: "string \<Rightarrow> Faults option \<Rightarrow> ('req, 'resp, 'n) send \<Rightarrow> ('req, 'resp, 'n) send" where
  "filterSend from faults inner dest req net =
     (if faults \<noteq> None \<and> \<not> Allow faults from dest then (Inl ErrUnreachable, net) else inner dest req net)"

definition NewFilterTransport :: "string \<Rightarrow> 'n Sender \<Rightarrow> Faults option \<Rightarrow> 'n Sender" where
  "NewFilterTransport from inner faults =
     \<lparr>SendRequestVote = filterSend from faults (SendRequestVote inner),
      SendAppendEntries = filterSend from faults (SendAppendEntries inner),
      SendInstallSnapshot = filterSend from faults (SendInstallSnapshot inner)\<rparr>"

subsection \<open>The memory network\<close>

record ('w, 'd) MemoryNetwork =
  mnodes :: "('w, 'd) RaftNode gomap"
  mfaults :: Faults

definition NewMemoryNetwork :: "('w, 'd) MemoryNetwork" where
  "NewMemoryNetwork = \<lparr>mnodes = fmempty, mfaults = NewFaults\<rparr>"

definition MemoryNetwork_Add :: "('w, 'd) RaftNode \<Rightarrow> ('w, 'd) MemoryNetwork \<Rightarrow> ('w, 'd) MemoryNetwork" where
  "MemoryNetwork_Add n net =
     net\<lparr>mnodes := fmupd (nid n) (SetTransport (MemoryTransport (nid n)) n) (mnodes net)\<rparr>"

definition MemoryNetwork_Isolate :: "string \<Rightarrow> ('w, 'd) MemoryNetwork \<Rightarrow> ('w, 'd) MemoryNetwork" where
  "MemoryNetwork_Isolate i net = net\<lparr>mfaults := the (Isolate i (Some (mfaults net)))\<rparr>"

definition MemoryNetwork_Heal :: "string \<Rightarrow> ('w, 'd) MemoryNetwork \<Rightarrow> ('w, 'd) MemoryNetwork" where
  "MemoryNetwork_Heal i net = net\<lparr>mfaults := the (Heal i (Some (mfaults net)))\<rparr>"

definition MemoryNetwork_Disconnect :: "string \<Rightarrow> string \<Rightarrow> ('w, 'd) MemoryNetwork \<Rightarrow> ('w, 'd) MemoryNetwork" where
  "MemoryNetwork_Disconnect a b net = net\<lparr>mfaults := the (Disconnect a b (Some (mfaults net)))\<rparr>"

definition reachable :: "string \<Rightarrow> string \<Rightarrow> ('w, 'd) MemoryNetwork \<Rightarrow> bool" where
  "reachable from dest net = Allow (Some (mfaults net)) from dest"

definition memorySend ::
  "(Env \<Rightarrow> 'req \<Rightarrow> ('w, 'd) RaftNode \<Rightarrow> 'resp \<times> ('w, 'd) RaftNode) \<Rightarrow> string \<Rightarrow> Env \<Rightarrow>
   ('req, 'resp, ('w, 'd) MemoryNetwork) send" where
  "memorySend handler from e dest req net =
     (case fmlookup (mnodes net) dest of
        None \<Rightarrow> (Inl ErrUnreachable, net)
      | Some peer \<Rightarrow>
        if \<not> reachable from dest net then (Inl ErrUnreachable, net)
        else let (resp, peer') = handler e req peer in (Inr resp, net\<lparr>mnodes := fmupd dest peer' (mnodes net)\<rparr>))"

definition memoryTransport :: "string \<Rightarrow> Env \<Rightarrow> ('w, 'd) MemoryNetwork Sender" where
  "memoryTransport from e =
     \<lparr>SendRequestVote = memorySend HandleRequestVote from e,
      SendAppendEntries = memorySend HandleAppendEntries from e,
      SendInstallSnapshot = memorySend HandleInstallSnapshot from e\<rparr>"

subsection \<open>The stub transport\<close>

record 'n stubTransport =
  requestVote :: "(RequestVoteRequest, RequestVoteResponse, 'n) send option"
  appendEntries :: "(AppendEntriesRequest, AppendEntriesResponse, 'n) send option"
  installSnapshot_fn :: "(InstallSnapshotRequest, InstallSnapshotResponse, 'n) send option"

definition stubSend :: "('req, 'resp, 'n) send option \<Rightarrow> ('req, 'resp, 'n) send" where
  "stubSend fo dest req net = (case fo of None \<Rightarrow> (Inl ErrUnreachable, net) | Some f \<Rightarrow> f dest req net)"

definition stubSender :: "'n stubTransport \<Rightarrow> 'n Sender" where
  "stubSender s = \<lparr>SendRequestVote = stubSend (requestVote s),
     SendAppendEntries = stubSend (appendEntries s), SendInstallSnapshot = stubSend (installSnapshot_fn s)\<rparr>"

subsection \<open>Specification of the injector\<close>

record cut_net =
  out :: "string set"
  cuts :: "(string \<times> string) set"

datatype fault_op =
    OpIsolate string | OpHeal string | OpDisconnect string string | OpReconnect string string | OpHealAll

fun faultOp :: "fault_op \<Rightarrow> Faults option \<Rightarrow> Faults option" where
  "faultOp (OpIsolate i) = Isolate i"
| "faultOp (OpHeal i) = Heal i"
| "faultOp (OpDisconnect a b) = Disconnect a b"
| "faultOp (OpReconnect a b) = Reconnect a b"
| "faultOp OpHealAll = HealAll"

fun specOp :: "fault_op \<Rightarrow> cut_net \<Rightarrow> cut_net" where
  "specOp (OpIsolate i) s = s\<lparr>out := insert i (out s)\<rparr>"
| "specOp (OpHeal i) s = s\<lparr>out := out s - {i}\<rparr>"
| "specOp (OpDisconnect a b) s = s\<lparr>cuts := cuts s \<union> {(a, b), (b, a)}\<rparr>"
| "specOp (OpReconnect a b) s = s\<lparr>cuts := cuts s - {(a, b), (b, a)}\<rparr>"
| "specOp OpHealAll s = \<lparr>out = {}, cuts = {}\<rparr>"

definition specAllow :: "cut_net \<Rightarrow> string \<Rightarrow> string \<Rightarrow> bool" where
  "specAllow s a b \<longleftrightarrow> a \<notin> out s \<and> b \<notin> out s \<and> (a, b) \<notin> cuts s"

definition absFaults :: "Faults \<Rightarrow> cut_net" where
  "absFaults f = \<lparr>out = {i. map_get False (isolated f) i},
     cuts = {(a, b). map_get False (map_get fmempty (blocked f) a) b}\<rparr>"

lemma map_get_drop [simp]: "map_get z (fmdrop k m) x = (if x = k then z else map_get z m x)"
  by (auto simp: map_get_def)

lemma allow_abs: "Allow (Some f) a b = specAllow (absFaults f) a b"
  by (auto simp: Allow_def specAllow_def absFaults_def map_has_def map_get_def split: option.splits)

lemma get_block: "map_get False (map_get fmempty (blocked (block a b f)) x) y \<longleftrightarrow>
    x = a \<and> y = b \<or> map_get False (map_get fmempty (blocked f) x) y"
  by (auto simp: block_def)

lemma get_unblock: "map_get False (map_get fmempty (blocked (unblock a b f)) x) y \<longleftrightarrow>
    \<not> (x = a \<and> y = b) \<and> map_get False (map_get fmempty (blocked f) x) y"
  by (auto simp: unblock_def map_has_def map_get_def split: option.splits)

lemma isolated_block [simp]: "isolated (block a b f) = isolated f" "isolated (unblock a b f) = isolated f"
  by (simp_all add: block_def unblock_def)

lemma faultOp_abs: "\<exists>f'. faultOp op (Some f) = Some f' \<and> absFaults f' = specOp op (absFaults f)"
  by (cases op) (auto simp: Isolate_def Heal_def Disconnect_def Reconnect_def HealAll_def absFaults_def get_block get_unblock split: if_splits)

lemma faultOps_abs:
  "\<exists>f'. fold faultOp ops (Some f) = Some f' \<and> absFaults f' = fold specOp ops (absFaults f)"
proof (induction ops arbitrary: f)
  case (Cons op ops)
  obtain g where g: "faultOp op (Some f) = Some g" "absFaults g = specOp op (absFaults f)" using faultOp_abs by blast
  show ?case using Cons[of g] g by simp
qed simp

lemma absFaults_new: "absFaults NewFaults = \<lparr>out = {}, cuts = {}\<rparr>"
  by (simp add: absFaults_def NewFaults_def)

subsection \<open>Properties\<close>

text \<open>
  C35: The injector implements its specification.  After any sequence of \<open>Isolate\<close>, \<open>Heal\<close>,
  \<open>Disconnect\<close>, \<open>Reconnect\<close> and \<open>HealAll\<close> on a new injector an RPC is let through exactly when neither
  end is in the set of isolated nodes and the link is not in the set of cut links that the
  corresponding set operations give.
\<close>

theorem faults_implement_spec:
  "Allow (fold faultOp ops (Some NewFaults)) a b = specAllow (fold specOp ops \<lparr>out = {}, cuts = {}\<rparr>) a b"
proof -
  obtain f where "fold faultOp ops (Some NewFaults) = Some f" "absFaults f = fold specOp ops (absFaults NewFaults)"
    using faultOps_abs by blast
  then show ?thesis by (simp add: allow_abs absFaults_new)
qed

text \<open>
  Links fail in both directions.  Whatever was injected, RPCs from one node to another are let
  through exactly when RPCs in the other direction are.
\<close>

theorem allow_symmetric:
  "Allow (fold faultOp ops (Some NewFaults)) a b = Allow (fold faultOp ops (Some NewFaults)) b a"
proof -
  have step: "sym (cuts s) \<Longrightarrow> sym (cuts (specOp op s))" for op s by (cases op) (auto simp: sym_def)
  have "sym (cuts s) \<Longrightarrow> sym (cuts (fold specOp ops s))" for s
    by (induction ops arbitrary: s) (simp_all add: step)
  from this[of "\<lparr>out = {}, cuts = {}\<rparr>"] have "sym (cuts (fold specOp ops \<lparr>out = {}, cuts = {}\<rparr>))" by (simp add: sym_def)
  then have "specAllow (fold specOp ops \<lparr>out = {}, cuts = {}\<rparr>) a b = specAllow (fold specOp ops \<lparr>out = {}, cuts = {}\<rparr>) b a"
    by (auto simp: specAllow_def sym_def)
  moreover obtain f where "fold faultOp ops (Some NewFaults) = Some f" "absFaults f = fold specOp ops (absFaults NewFaults)"
    using faultOps_abs by blast
  ultimately show ?thesis by (simp add: allow_abs absFaults_new)
qed

text \<open>
  An isolated node is cut off.  In the memory network an RPC to or from an isolated node, and to
  a node the network does not know, fails as unreachable and changes no node.
\<close>

theorem isolated_unreachable:
  assumes "map_get False (isolated (mfaults net)) from \<or> map_get False (isolated (mfaults net)) dest \<or>
      \<not> map_has (mnodes net) dest"
  shows "SendRequestVote (memoryTransport from e) dest vreq net = (Inl ErrUnreachable, net) \<and>
     SendAppendEntries (memoryTransport from e) dest areq net = (Inl ErrUnreachable, net) \<and>
     SendInstallSnapshot (memoryTransport from e) dest sreq net = (Inl ErrUnreachable, net)"
  using assms by (auto simp: memoryTransport_def memorySend_def reachable_def Allow_def map_has_def split: option.split)

theorem isolated_unreachable_witness:
  "SendRequestVote (memoryTransport ''n1'' \<lparr>now = 0, rnd = 0\<rparr>) ''n2'' \<lparr>rvTerm = 1, rvCandidateID = ''n1'', rvLastLogIndex = 0, rvLastLogTerm = 0\<rparr>
     (MemoryNetwork_Isolate ''n2'' (NewMemoryNetwork :: (unit, unit) MemoryNetwork)) =
   (Inl ErrUnreachable, MemoryNetwork_Isolate ''n2'' NewMemoryNetwork)"
  using isolated_unreachable[of "MemoryNetwork_Isolate ''n2'' (NewMemoryNetwork :: (unit, unit) MemoryNetwork)" "''n1''" "''n2''"]
  by (simp add: MemoryNetwork_Isolate_def Isolate_def)

end
