(* ===== verification/Raft_Grpc.thy ===== *)
theory Raft_Grpc
  imports Raft_Node
begin

text \<open>
  Raft over gRPC (\<open>raft/grpc.go\<close>): the conversions between the messages of the package and those of
  the protocol buffers (the generated package \<open>proto\<close>), the client side with its cache of
  connections, and the server side.  The gRPC library is a parameter: \<open>dial\<close> tells whether
  \<open>grpc.NewClient\<close> accepts an address, \<open>call\<close> is the RPC itself.  A Go \<open>int\<close> has 64 bits, so the
  conversions to and from \<open>int64\<close> keep the value.
\<close>

subsection \<open>Protocol buffer messages\<close>

record pbRequestVoteRequest =
  pvTerm :: int
  pvCandidateId :: string
  pvLastLogIndex :: int
  pvLastLogTerm :: int

record pbRequestVoteResponse =
  pvrTerm :: int
  pvrVoteGranted :: bool

record pbLogEntry =
  peTerm :: int
  peIndex :: int
  peCommand :: bytes
  peChangeType :: string
  peChangeId :: string
  peChangeAddr :: string
  peChangeHttp :: string
  peChangePeers :: addrmap
  peChangeHttpAddrs :: addrmap

record pbAppendEntriesRequest =
  paTerm :: int
  paLeaderId :: string
  paPrevLogIndex :: int
  paPrevLogTerm :: int
  paEntries :: "pbLogEntry list"
  paLeaderCommit :: int

record pbAppendEntriesResponse =
  parTerm :: int
  parSuccess :: bool

record pbInstallSnapshotRequest =
  psTerm :: int
  psLeaderId :: string
  psLastIncludedIndex :: int
  psLastIncludedTerm :: int
  psData :: bytes
  psPeers :: addrmap
  psHttpAddrs :: addrmap

record pbInstallSnapshotResponse =
  psrTerm :: int

subsection \<open>Conversions\<close>

definition voteReqToProto :: "RequestVoteRequest \<Rightarrow> pbRequestVoteRequest" where
  "voteReqToProto r = \<lparr>pvTerm = rvTerm r, pvCandidateId = rvCandidateID r,
     pvLastLogIndex = rvLastLogIndex r, pvLastLogTerm = rvLastLogTerm r\<rparr>"

definition voteReqFromProto :: "pbRequestVoteRequest \<Rightarrow> RequestVoteRequest" where
  "voteReqFromProto r = \<lparr>rvTerm = pvTerm r, rvCandidateID = pvCandidateId r,
     rvLastLogIndex = pvLastLogIndex r, rvLastLogTerm = pvLastLogTerm r\<rparr>"

definition voteRespToProto :: "RequestVoteResponse \<Rightarrow> pbRequestVoteResponse" where
  "voteRespToProto r = \<lparr>pvrTerm = rvrTerm r, pvrVoteGranted = rvrVoteGranted r\<rparr>"

definition voteRespFromProto :: "pbRequestVoteResponse \<Rightarrow> RequestVoteResponse" where
  "voteRespFromProto r = \<lparr>rvrTerm = pvrTerm r, rvrVoteGranted = pvrVoteGranted r\<rparr>"

definition entryToProto :: "LogEntry \<Rightarrow> pbLogEntry" where
  "entryToProto e =
     (let p = \<lparr>peTerm = eTerm e, peIndex = eIndex e, peCommand = eCommand e, peChangeType = [], peChangeId = [],
               peChangeAddr = [], peChangeHttp = [], peChangePeers = fmempty, peChangeHttpAddrs = fmempty\<rparr>
      in case eChange e of
           None \<Rightarrow> p
         | Some ch \<Rightarrow> p\<lparr>peChangeType := chType ch, peChangeId := chID ch, peChangeAddr := chAddr ch,
             peChangeHttp := chHTTP ch, peChangePeers := chPeers ch, peChangeHttpAddrs := chHTTPAddrs ch\<rparr>)"

definition entryFromProto :: "pbLogEntry \<Rightarrow> LogEntry" where
  "entryFromProto p = \<lparr>eTerm = peTerm p, eIndex = peIndex p, eCommand = peCommand p,
     eChange =
       (if peChangeType p \<noteq> [] \<or> map_len (peChangePeers p) > 0
        then Some \<lparr>chType = peChangeType p, chID = peChangeId p, chAddr = peChangeAddr p, chHTTP = peChangeHttp p,
          chPeers = cloneStringMap (peChangePeers p), chHTTPAddrs = cloneStringMap (peChangeHttpAddrs p)\<rparr>
        else None)\<rparr>"

definition appendReqToProto :: "AppendEntriesRequest \<Rightarrow> pbAppendEntriesRequest" where
  "appendReqToProto r = \<lparr>paTerm = aeTerm r, paLeaderId = aeLeaderID r, paPrevLogIndex = aePrevLogIndex r,
     paPrevLogTerm = aePrevLogTerm r, paEntries = map entryToProto (aeEntries r), paLeaderCommit = aeLeaderCommit r\<rparr>"

definition appendReqFromProto :: "pbAppendEntriesRequest \<Rightarrow> AppendEntriesRequest" where
  "appendReqFromProto r = \<lparr>aeTerm = paTerm r, aeLeaderID = paLeaderId r, aePrevLogIndex = paPrevLogIndex r,
     aePrevLogTerm = paPrevLogTerm r, aeEntries = map entryFromProto (paEntries r), aeLeaderCommit = paLeaderCommit r\<rparr>"

definition appendRespToProto :: "AppendEntriesResponse \<Rightarrow> pbAppendEntriesResponse" where
  "appendRespToProto r = \<lparr>parTerm = aerTerm r, parSuccess = aerSuccess r\<rparr>"

definition appendRespFromProto :: "pbAppendEntriesResponse \<Rightarrow> AppendEntriesResponse" where
  "appendRespFromProto r = \<lparr>aerTerm = parTerm r, aerSuccess = parSuccess r\<rparr>"

definition installReqToProto :: "InstallSnapshotRequest \<Rightarrow> pbInstallSnapshotRequest" where
  "installReqToProto r = \<lparr>psTerm = isTerm r, psLeaderId = isLeaderID r, psLastIncludedIndex = isLastIncludedIndex r,
     psLastIncludedTerm = isLastIncludedTerm r, psData = isData r, psPeers = isPeers r, psHttpAddrs = isHTTP r\<rparr>"

definition installReqFromProto :: "pbInstallSnapshotRequest \<Rightarrow> InstallSnapshotRequest" where
  "installReqFromProto r = \<lparr>isTerm = psTerm r, isLeaderID = psLeaderId r, isLastIncludedIndex = psLastIncludedIndex r,
     isLastIncludedTerm = psLastIncludedTerm r, isData = psData r, isPeers = cloneStringMap (psPeers r),
     isHTTP = cloneStringMap (psHttpAddrs r)\<rparr>"

definition installRespToProto :: "InstallSnapshotResponse \<Rightarrow> pbInstallSnapshotResponse" where
  "installRespToProto r = \<lparr>psrTerm = isrTerm r\<rparr>"

definition installRespFromProto :: "pbInstallSnapshotResponse \<Rightarrow> InstallSnapshotResponse" where
  "installRespFromProto r = \<lparr>isrTerm = psrTerm r\<rparr>"

subsection \<open>The client side\<close>

definition NewGRPCTransport :: "addrmap \<Rightarrow> GRPCTransport" where
  "NewGRPCTransport m = \<lparr>addrs = cloneStringMap m, conns = fmempty\<rparr>"

definition GRPC_Close :: "GRPCTransport \<Rightarrow> GRPCTransport" where
  "GRPC_Close t = fold (\<lambda>i u. u\<lparr>conns := fmdrop i (conns u)\<rparr>) (map_keys (conns t)) t"

text \<open>\<open>client\<close>: the address of the connection to use, from the cache or newly dialled.\<close>

definition GRPC_client :: "(string \<Rightarrow> bool) \<Rightarrow> string \<Rightarrow> GRPCTransport \<Rightarrow> (raft_error + string) \<times> GRPCTransport" where
  "GRPC_client dial dest t =
     (case fmlookup (conns t) dest of
        Some addr \<Rightarrow> (Inr addr, t)
      | None \<Rightarrow>
        (case fmlookup (addrs t) dest of
           None \<Rightarrow> (Inl ErrUnreachable, t)
         | Some addr \<Rightarrow>
           if addr = [] then (Inl ErrUnreachable, t)
           else if \<not> dial addr then (Inl (ErrMsg ''grpc: invalid target''), t)
           else (Inr addr, t\<lparr>conns := fmupd dest addr (conns t)\<rparr>)))"

definition GRPC_send ::
  "(string \<Rightarrow> bool) \<Rightarrow> (string \<Rightarrow> 'p \<Rightarrow> raft_error + 'q) \<Rightarrow> ('req \<Rightarrow> 'p) \<Rightarrow> ('q \<Rightarrow> 'resp) \<Rightarrow>
   string \<Rightarrow> 'req \<Rightarrow> GRPCTransport \<Rightarrow> (raft_error + 'resp) \<times> GRPCTransport" where
  "GRPC_send dial call enc dec dest req t =
     (case GRPC_client dial dest t of
        (Inl err, t') \<Rightarrow> (Inl err, t')
      | (Inr addr, t') \<Rightarrow>
        (case call addr (enc req) of Inl err \<Rightarrow> (Inl err, t') | Inr resp \<Rightarrow> (Inr (dec resp), t')))"

definition GRPC_SendRequestVote ::
  "(string \<Rightarrow> bool) \<Rightarrow> (string \<Rightarrow> pbRequestVoteRequest \<Rightarrow> raft_error + pbRequestVoteResponse) \<Rightarrow>
   string \<Rightarrow> RequestVoteRequest \<Rightarrow> GRPCTransport \<Rightarrow> (raft_error + RequestVoteResponse) \<times> GRPCTransport" where
  "GRPC_SendRequestVote dial call = GRPC_send dial call voteReqToProto voteRespFromProto"

definition GRPC_SendAppendEntries ::
  "(string \<Rightarrow> bool) \<Rightarrow> (string \<Rightarrow> pbAppendEntriesRequest \<Rightarrow> raft_error + pbAppendEntriesResponse) \<Rightarrow>
   string \<Rightarrow> AppendEntriesRequest \<Rightarrow> GRPCTransport \<Rightarrow> (raft_error + AppendEntriesResponse) \<times> GRPCTransport" where
  "GRPC_SendAppendEntries dial call = GRPC_send dial call appendReqToProto appendRespFromProto"

definition GRPC_SendInstallSnapshot ::
  "(string \<Rightarrow> bool) \<Rightarrow> (string \<Rightarrow> pbInstallSnapshotRequest \<Rightarrow> raft_error + pbInstallSnapshotResponse) \<Rightarrow>
   string \<Rightarrow> InstallSnapshotRequest \<Rightarrow> GRPCTransport \<Rightarrow> (raft_error + InstallSnapshotResponse) \<times> GRPCTransport" where
  "GRPC_SendInstallSnapshot dial call = GRPC_send dial call installReqToProto installRespFromProto"

subsection \<open>The server side\<close>

definition raftGRPC_RequestVote ::
  "Env \<Rightarrow> pbRequestVoteRequest \<Rightarrow> ('w, 'd) RaftNode \<Rightarrow> pbRequestVoteResponse \<times> ('w, 'd) RaftNode" where
  "raftGRPC_RequestVote e req n = (let (resp, n') = HandleRequestVote e (voteReqFromProto req) n in (voteRespToProto resp, n'))"

definition raftGRPC_AppendEntries ::
  "Env \<Rightarrow> pbAppendEntriesRequest \<Rightarrow> ('w, 'd) RaftNode \<Rightarrow> pbAppendEntriesResponse \<times> ('w, 'd) RaftNode" where
  "raftGRPC_AppendEntries e req n =
     (let (resp, n') = HandleAppendEntries e (appendReqFromProto req) n in (appendRespToProto resp, n'))"

definition raftGRPC_InstallSnapshot ::
  "Env \<Rightarrow> pbInstallSnapshotRequest \<Rightarrow> ('w, 'd) RaftNode \<Rightarrow> pbInstallSnapshotResponse \<times> ('w, 'd) RaftNode" where
  "raftGRPC_InstallSnapshot e req n =
     (let (resp, n') = HandleInstallSnapshot e (installReqFromProto req) n in (installRespToProto resp, n'))"

subsection \<open>Facts about the client\<close>

text \<open>An entry survives the wire: a change needs a type or a list of members to be recognised.\<close>

definition carried :: "LogEntry \<Rightarrow> bool" where
  "carried e = (case eChange e of None \<Rightarrow> True | Some ch \<Rightarrow> chType ch \<noteq> [] \<or> map_len (chPeers ch) > 0)"

lemma entry_roundtrip: "entryFromProto (entryToProto e) = e \<longleftrightarrow> carried e"
  by (cases e; cases "eChange e")
    (auto simp: entryFromProto_def entryToProto_def carried_def cloneStringMap_def map_len_def)

lemma map_id_iff: "map f xs = xs \<longleftrightarrow> list_all (\<lambda>x. f x = x) xs"
  by (induction xs) auto

lemma append_roundtrip: "appendReqFromProto (appendReqToProto r) = r \<longleftrightarrow> list_all carried (aeEntries r)"
  by (cases r) (simp add: appendReqFromProto_def appendReqToProto_def map_id_iff entry_roundtrip)

text \<open>The operations of a transport, as they may follow each other.\<close>

inductive grpc_reach :: "GRPCTransport \<Rightarrow> bool" where
  grpc_new: "grpc_reach (NewGRPCTransport m)"
| grpc_set: "grpc_reach t \<Longrightarrow> grpc_reach (GRPC_SetPeerAddr i a t)"
| grpc_client: "grpc_reach t \<Longrightarrow> grpc_reach (snd (GRPC_client dial i t))"
| grpc_close: "grpc_reach t \<Longrightarrow> grpc_reach (GRPC_Close t)"

definition fresh_conns :: "GRPCTransport \<Rightarrow> bool" where
  "fresh_conns t \<longleftrightarrow> (\<forall>i a. fmlookup (conns t) i = Some a \<longrightarrow> fmlookup (addrs t) i = Some a)"

lemma close_conns: "conns (GRPC_Close t) = fmempty" "addrs (GRPC_Close t) = addrs t"
proof -
  have "fmlookup (conns (fold (\<lambda>i u. u\<lparr>conns := fmdrop i (conns u)\<rparr>) ks u)) x =
      (if x \<in> set ks then None else fmlookup (conns u) x) \<and>
    addrs (fold (\<lambda>i u. u\<lparr>conns := fmdrop i (conns u)\<rparr>) ks u) = addrs u" for ks x and u :: GRPCTransport
    by (induction ks arbitrary: u) auto
  from this[of "map_keys (conns t)"] show "conns (GRPC_Close t) = fmempty" "addrs (GRPC_Close t) = addrs t"
    by (auto simp: GRPC_Close_def map_has_def intro!: fmap_ext)
qed

lemma reach_fresh: "grpc_reach t \<Longrightarrow> fresh_conns t"
  by (induction rule: grpc_reach.induct)
    (auto simp: fresh_conns_def NewGRPCTransport_def GRPC_SetPeerAddr_def GRPC_client_def close_conns map_get_def
      split: option.splits)

lemma client_address:
  assumes "fresh_conns t" and "GRPC_client dial d t = (Inr a, t')"
  shows "fmlookup (addrs t) d = Some a"
  using assms by (auto simp: fresh_conns_def GRPC_client_def split: option.splits if_splits)

subsection \<open>Properties\<close>

text \<open>
  C36: Nothing is lost on the wire.  Converting a request or a response to its protocol buffer
  message and back gives it back; for AppendEntries exactly when every membership change in it has
  a type or a list of members.
\<close>

theorem proto_roundtrip:
  "voteReqFromProto (voteReqToProto vq) = vq \<and> voteRespFromProto (voteRespToProto vr) = vr \<and>
   (appendReqFromProto (appendReqToProto aq) = aq \<longleftrightarrow> list_all carried (aeEntries aq)) \<and>
   appendRespFromProto (appendRespToProto ar) = ar \<and>
   installReqFromProto (installReqToProto iq) = iq \<and> installRespFromProto (installRespToProto ir) = ir"
  by (simp add: append_roundtrip voteReqFromProto_def voteReqToProto_def voteRespFromProto_def voteRespToProto_def
      appendRespFromProto_def appendRespToProto_def installReqFromProto_def installReqToProto_def
      installRespFromProto_def installRespToProto_def cloneStringMap_def)

text \<open>
  C37: A gRPC call is a call of the handler.  When the library delivers the message to the server at
  the address of the peer and its answer back, \<open>SendAppendEntries\<close> returns what \<open>HandleAppendEntries\<close>
  of that node returns for the request.
\<close>

theorem grpc_append_is_handler:
  assumes "grpc_reach t" "fmlookup (addrs t) dest = Some addr" "addr \<noteq> []" "dial addr"
    and "\<forall>p. call addr p = Inr (fst (raftGRPC_AppendEntries e p n))" and "list_all carried (aeEntries req)"
  shows "fst (GRPC_SendAppendEntries dial call dest req t) = Inr (fst (HandleAppendEntries e req n))"
proof -
  have "fmlookup (conns t) dest = None \<or> fmlookup (conns t) dest = Some addr"
    using reach_fresh[OF assms(1)] assms(2) by (cases "fmlookup (conns t) dest") (auto simp: fresh_conns_def)
  then have "fst (GRPC_client dial dest t) = Inr addr" using assms(2-4) by (auto simp: GRPC_client_def)
  moreover have "appendReqFromProto (appendReqToProto req) = req" using assms(6) by (simp add: append_roundtrip)
  then have "call addr (appendReqToProto req) = Inr (appendRespToProto (fst (HandleAppendEntries e req n)))"
    using assms(5) by (simp add: raftGRPC_AppendEntries_def split_beta)
  ultimately show ?thesis
    by (simp add: GRPC_SendAppendEntries_def GRPC_send_def appendRespFromProto_def appendRespToProto_def
        split_beta split: sum.split)
qed

text \<open>
  Calls follow membership.  However the transport was used before, after \<open>SetPeerAddr\<close> has set an
  address for a peer the connection used for that peer is one to this address.
\<close>

theorem client_follows_address:
  assumes "grpc_reach t" and "GRPC_client dial i (GRPC_SetPeerAddr i a t) = (Inr addr, t')"
  shows "addr = a"
  using client_address[OF reach_fresh[OF grpc_set[OF assms(1)]] assms(2)] assms(2)
  by (auto simp: GRPC_SetPeerAddr_def map_get_def split: if_splits option.splits)

subsection \<open>Witnesses\<close>

theorem grpc_append_is_handler_witness:
  "fst (GRPC_SendAppendEntries (\<lambda>a. True)
     (\<lambda>a p. Inr (fst (raftGRPC_AppendEntries \<lparr>now = 0, rnd = 0\<rparr> p (NewNode (DefaultConfig ''n2'' fmempty) () ()))))
     ''n2'' \<lparr>aeTerm = 1, aeLeaderID = ''n1'', aePrevLogIndex = 0, aePrevLogTerm = 0, aeEntries = [], aeLeaderCommit = 0\<rparr>
     (NewGRPCTransport (fmupd ''n2'' ''host:1'' fmempty))) =
   Inr (fst (HandleAppendEntries \<lparr>now = 0, rnd = 0\<rparr>
     \<lparr>aeTerm = 1, aeLeaderID = ''n1'', aePrevLogIndex = 0, aePrevLogTerm = 0, aeEntries = [], aeLeaderCommit = 0\<rparr>
     (NewNode (DefaultConfig ''n2'' fmempty) () ())))"
  by (rule grpc_append_is_handler[OF grpc_new[of "fmupd ''n2'' ''host:1'' fmempty"], where addr = "''host:1''"])
    (simp_all add: NewGRPCTransport_def cloneStringMap_def)

theorem client_follows_address_witness:
  "fst (GRPC_client (\<lambda>a. True) ''n2'' (GRPC_SetPeerAddr ''n2'' ''new:1''
     (snd (GRPC_client (\<lambda>a. True) ''n2'' (NewGRPCTransport (fmupd ''n2'' ''old:1'' fmempty)))))) = Inr ''new:1''"
proof -
  let ?t = "snd (GRPC_client (\<lambda>a. True) ''n2'' (NewGRPCTransport (fmupd ''n2'' ''old:1'' fmempty)))"
  obtain addr t' where c: "GRPC_client (\<lambda>a. True) ''n2'' (GRPC_SetPeerAddr ''n2'' ''new:1'' ?t) = (Inr addr, t')"
    by (simp add: GRPC_client_def NewGRPCTransport_def cloneStringMap_def GRPC_SetPeerAddr_def map_get_def)
  then show ?thesis using client_follows_address[OF grpc_client[OF grpc_new] c] by simp
qed

end
