(* ===== verification/Cluster.thy ===== *)
theory Cluster
  imports Kv_Server Raft_Faults Raft_Grpc
begin

text \<open>
  The in-process cluster (\<open>cluster/cluster.go\<close>): its configuration, the start of a member, crash and
  restart, the chaos operations, the status views, and the addition and removal of members.

  A member is its Raft node, whose world is the key-value server.  \<open>clDisks\<close> holds what is on disk
  for every id, running or not.  The gRPC and HTTP servers are reduced to whether the attempts to
  listen succeed, and their errors leave out the wrapped cause.  Between its steps an operation lets the rest of the system run: \<open>background g\<close>
  applies an arbitrary \<open>g\<close> to the nodes of the running members.
\<close>

subsection \<open>Configuration\<close>

record ClusterConfig =
  IDs :: "string list"
  RaftAddrs :: addrmap
  HTTPAddrs :: addrmap
  DataDir :: string

definition DevConfig :: ClusterConfig where
  "DevConfig = \<lparr>IDs = [''n1'', ''n2'', ''n3''],
     RaftAddrs = fmupd ''n3'' ''127.0.0.1:19103'' (fmupd ''n2'' ''127.0.0.1:19102''
       (fmupd ''n1'' ''127.0.0.1:19101'' fmempty)),
     HTTPAddrs = fmupd ''n3'' ''127.0.0.1:18103'' (fmupd ''n2'' ''127.0.0.1:18102''
       (fmupd ''n1'' ''127.0.0.1:18101'' fmempty)),
     DataDir = ''data''\<rparr>"

definition cloneAddrs :: "addrmap \<Rightarrow> addrmap" where
  "cloneAddrs m = fold (\<lambda>k out. fmupd k (map_get [] m k) out) (map_keys m) fmempty"

subsection \<open>State\<close>

type_synonym kv_node = "(KvWorld, disk_files) RaftNode"

record Member =
  mID :: string
  mNode :: kv_node
  mCrashed :: bool

record Cluster =
  clCfg :: ClusterConfig
  clFaults :: "Faults option"
  clHTTP :: bool
  clMembers :: "Member gomap"
  clDisks :: "disk_files gomap"

text \<open>\<open>New\<close>; the flag tells whether an HTTP handler is given.\<close>

definition Cluster_New :: "ClusterConfig \<Rightarrow> bool \<Rightarrow> Cluster" where
  "Cluster_New cfg h =
     \<lparr>clCfg = cfg, clFaults = Some NewFaults, clHTTP = h, clMembers = fmempty, clDisks = fmempty\<rparr>"

definition running :: "string \<Rightarrow> Cluster \<Rightarrow> bool" where
  "running i c = (case fmlookup (clMembers c) i of None \<Rightarrow> False | Some m \<Rightarrow> \<not> mCrashed m)"

definition background :: "(string \<Rightarrow> kv_node \<Rightarrow> kv_node) \<Rightarrow> Cluster \<Rightarrow> Cluster" where
  "background g c = c\<lparr>clMembers :=
     fmmap_keys (\<lambda>i m. if mCrashed m then m else m\<lparr>mNode := g i (mNode m)\<rparr>) (clMembers c)\<rparr>"

subsection \<open>Starting a member\<close>

text \<open>How \<open>startMemberJoin\<close> builds the node, its server and its transport.\<close>

definition memberBoot :: "ClusterConfig \<Rightarrow> string \<Rightarrow> bool \<Rightarrow> (KvWorld, disk_files) Boot" where
  "memberBoot cfg i join =
     (let raftAddr = map_get [] (RaftAddrs cfg) i;
          haddr = map_get [] (HTTPAddrs cfg) i;
          peerAddrs = (if join then fmupd i raftAddr fmempty else cloneAddrs (RaftAddrs cfg));
          https = (if join then (if haddr \<noteq> [] then fmupd i haddr fmempty else fmempty)
                   else cloneAddrs (HTTPAddrs cfg));
          rCfg = (DefaultConfig i peerAddrs)\<lparr>cfgSnapshotter := Some storeSnapshotter, cfgHTTPAddrs := https,
            cfgJoin := join,
            cfgStorage := (if DataDir cfg \<noteq> [] then Some (NewFileStorage diskOS (pathJoin (DataDir cfg) i)) else None)\<rparr>
      in \<lparr>bCfg = rCfg, bApply = onApply, bSnap = storeSnapshotter,
          bHook = (\<lambda>peers https. SetHTTPAddrs https), bSetup = SetHTTPAddrs (cloneAddrs (HTTPAddrs cfg)),
          bTransport = FilterTransport i (GRPC (NewGRPCTransport (RaftAddrs cfg))),
          bWorld = \<lparr>store = NewStore, httpAddrs = fmempty\<rparr>\<rparr>)"

text \<open>The gRPC listener is tried up to 25 times.\<close>

definition listens :: "bool list \<Rightarrow> bool" where
  "listens attempts = list_ex (\<lambda>ok. ok) (take 25 attempts)"

definition startMemberJoin :: "Env \<Rightarrow> bool list \<Rightarrow> string \<Rightarrow> bool \<Rightarrow> Cluster \<Rightarrow> raft_error option \<times> Cluster" where
  "startMemberJoin e attempts i join c =
     (if running i c then (Some (ErrMsg (i @ '' is already running'')), c)
      else if \<not> clHTTP c then (Some (ErrMsg ''missing HTTP handler''), c)
      else case fmlookup (RaftAddrs (clCfg c)) i of
        None \<Rightarrow> (Some (ErrMsg (''no raft address for '' @ i)), c)
      | Some raftAddr \<Rightarrow>
        if \<not> listens attempts then (Some (ErrMsg (''grpc listen '' @ raftAddr)), c)
        else (None, c\<lparr>clMembers := fmupd i
               \<lparr>mID = i, mNode = boot (memberBoot (clCfg c) i join) e (map_get fmempty (clDisks c) i), mCrashed = False\<rparr>
               (clMembers c)\<rparr>))"

definition startMember :: "Env \<Rightarrow> bool list \<Rightarrow> string \<Rightarrow> Cluster \<Rightarrow> raft_error option \<times> Cluster" where
  "startMember e attempts i c = startMemberJoin e attempts i False c"

subsection \<open>Crash and restart\<close>

text \<open>\<open>Close\<close> of a transport; the fault filter forwards it when the inner transport has one.\<close>

fun transport_Close :: "transport \<Rightarrow> transport" where
  "transport_Close (GRPC t) = GRPC (GRPC_Close t)"
| "transport_Close (FilterTransport from inner) = FilterTransport from (transport_Close inner)"
| "transport_Close t = t"

definition Cluster_Crash :: "string \<Rightarrow> Cluster \<Rightarrow> raft_error option \<times> Cluster" where
  "Cluster_Crash i c =
     (case fmlookup (clMembers c) i of
        None \<Rightarrow> (Some (ErrMsg (''unknown node '' @ i)), c)
      | Some m \<Rightarrow>
        if mCrashed m then (None, c)
        else
          let n = Stop (mNode m); n' = n\<lparr>transport := map_option transport_Close (transport n)\<rparr> in
          (None, c\<lparr>clMembers := fmupd i (m\<lparr>mNode := n', mCrashed := True\<rparr>) (clMembers c),
                   clDisks := fmupd i (disk n') (clDisks c)\<rparr>))"

definition Cluster_Restart :: "Env \<Rightarrow> bool list \<Rightarrow> string \<Rightarrow> Cluster \<Rightarrow> raft_error option \<times> Cluster" where
  "Cluster_Restart e attempts i c =
     (case fmlookup (clMembers c) i of
        None \<Rightarrow> (Some (ErrMsg (''unknown node '' @ i)), c)
      | Some m \<Rightarrow>
        if \<not> mCrashed m then (Some (ErrMsg (i @ '' is still running; crash it first'')), c)
        else startMember e attempts i (c\<lparr>clFaults := Heal i (clFaults c)\<rparr>))"

text \<open>\<open>Start\<close> and \<open>Stop\<close>; every member has its own clock reading and listen attempts.\<close>

definition Cluster_Stop :: "Cluster \<Rightarrow> Cluster" where
  "Cluster_Stop c =
     (let c' = fold (\<lambda>i c. snd (Cluster_Crash i c)) (IDs (clCfg c)) c in c'\<lparr>clFaults := HealAll (clFaults c')\<rparr>)"

fun startAll :: "(string \<Rightarrow> Env) \<Rightarrow> (string \<Rightarrow> bool list) \<Rightarrow> string list \<Rightarrow> Cluster \<Rightarrow> raft_error option \<times> Cluster" where
  "startAll e attempts [] c = (None, c)"
| "startAll e attempts (i # is) c =
     (case startMember (e i) (attempts i) i c of
        (Some err, c') \<Rightarrow> (Some err, Cluster_Stop c')
      | (None, c') \<Rightarrow> startAll e attempts is c')"

definition Cluster_Start :: "(string \<Rightarrow> Env) \<Rightarrow> (string \<Rightarrow> bool list) \<Rightarrow> Cluster \<Rightarrow> raft_error option \<times> Cluster" where
  "Cluster_Start e attempts c = startAll e attempts (IDs (clCfg c)) c"

subsection \<open>Chaos\<close>

definition mustExist :: "string \<Rightarrow> Cluster \<Rightarrow> raft_error option" where
  "mustExist i c = (if map_has (clMembers c) i then None else Some (ErrMsg (''unknown node '' @ i)))"

definition Cluster_Isolate :: "string \<Rightarrow> Cluster \<Rightarrow> raft_error option \<times> Cluster" where
  "Cluster_Isolate i c = (case mustExist i c of
     Some err \<Rightarrow> (Some err, c) | None \<Rightarrow> (None, c\<lparr>clFaults := Isolate i (clFaults c)\<rparr>))"

definition Cluster_Heal :: "string \<Rightarrow> Cluster \<Rightarrow> raft_error option \<times> Cluster" where
  "Cluster_Heal i c = (case mustExist i c of
     Some err \<Rightarrow> (Some err, c) | None \<Rightarrow> (None, c\<lparr>clFaults := Heal i (clFaults c)\<rparr>))"

definition Cluster_Partition :: "string \<Rightarrow> string \<Rightarrow> Cluster \<Rightarrow> raft_error option \<times> Cluster" where
  "Cluster_Partition a b c = (case mustExist a c of
     Some err \<Rightarrow> (Some err, c)
   | None \<Rightarrow> (case mustExist b c of
       Some err \<Rightarrow> (Some err, c)
     | None \<Rightarrow> (None, c\<lparr>clFaults := Disconnect a b (clFaults c)\<rparr>)))"

definition Cluster_HealAll :: "Cluster \<Rightarrow> Cluster" where
  "Cluster_HealAll c = c\<lparr>clFaults := HealAll (clFaults c)\<rparr>"

subsection \<open>Views\<close>

record View =
  vID :: string
  vState :: string
  vTerm :: int
  vLeaderID :: string
  vLeaderHTTP :: string
  vCommitIndex :: int
  vSnapshotIndex :: int
  vLogLen :: int
  vKVSize :: int
  vPeers :: "string list"
  vHTTP :: string
  vIsolated :: bool
  vCrashed :: bool

definition viewOf :: "Cluster \<Rightarrow> string \<Rightarrow> View" where
  "viewOf c i =
     (let v = \<lparr>vID = i, vState = [], vTerm = 0, vLeaderID = [], vLeaderHTTP = [], vCommitIndex = 0,
               vSnapshotIndex = 0, vLogLen = 0, vKVSize = 0, vPeers = [],
               vHTTP = map_get [] (HTTPAddrs (clCfg c)) i, vIsolated = Isolated i (clFaults c), vCrashed = False\<rparr>;
          down = v\<lparr>vState := ''crashed'', vCrashed := True\<rparr>
      in case fmlookup (clMembers c) i of
           None \<Rightarrow> down
         | Some m \<Rightarrow>
           if mCrashed m then down
           else let st = Server_Status (mNode m) in
             v\<lparr>vState := stState st, vTerm := stTerm st, vLeaderID := stLeaderID st, vLeaderHTTP := stLeaderHTTP st,
               vCommitIndex := stCommitIndex st, vSnapshotIndex := stSnapshotIndex st, vLogLen := stLogLen st,
               vKVSize := stKVSize st, vPeers := stPeers st\<rparr>)"

definition Cluster_Snapshot :: "Cluster \<Rightarrow> View list" where
  "Cluster_Snapshot c = map (viewOf c) (IDs (clCfg c))"

text \<open>\<open>LeaderHTTP\<close> takes two snapshots, of the cluster at two moments.\<close>

definition Cluster_LeaderHTTP :: "Cluster \<Rightarrow> Cluster \<Rightarrow> string" where
  "Cluster_LeaderHTTP c1 c2 =
     (case find (\<lambda>v. vState v = ''leader'' \<and> \<not> vCrashed v \<and> \<not> vIsolated v) (Cluster_Snapshot c1) of
        Some v \<Rightarrow> vHTTP v
      | None \<Rightarrow>
        (case find (\<lambda>v. vState v = ''leader'' \<and> \<not> vCrashed v) (Cluster_Snapshot c2) of
           Some v \<Rightarrow> vHTTP v
         | None \<Rightarrow> []))"

text \<open>\<open>leaderNode\<close>: the id of the node it returns.\<close>

definition leaderNode :: "Cluster \<Rightarrow> string option" where
  "leaderNode c = find (\<lambda>i. case fmlookup (clMembers c) i of
     None \<Rightarrow> False | Some m \<Rightarrow> \<not> mCrashed m \<and> IsLeader (mNode m)) (IDs (clCfg c))"

subsection \<open>Adding and removing members\<close>

text \<open>\<open>strconv.Atoi\<close> on 64 bits, and addition that wraps at 64 bits.\<close>

definition atoi :: "string \<Rightarrow> int option" where
  "atoi s =
     (let body = (if s \<noteq> [] \<and> (hd s = CHR ''-'' \<or> hd s = CHR ''+'') then tl s else s);
          v = (if s \<noteq> [] \<and> hd s = CHR ''-'' then - int (readNat body) else int (readNat body))
      in if body = [] \<or> \<not> list_all isDigit body \<or> v < - (2 ^ 63) \<or> v \<ge> 2 ^ 63 then None else Some v)"

definition wrap64 :: "int \<Rightarrow> int" where
  "wrap64 i = (i + 2 ^ 63) mod 2 ^ 64 - 2 ^ 63"

definition defaultDevAddrs :: "string \<Rightarrow> raft_error + string \<times> string" where
  "defaultDevAddrs i =
     (let err = Inl (ErrMsg (''need raft and http addresses for '' @ i)) in
      if \<not> hasPrefix i ''n'' then err
      else case atoi (drop 1 i) of
        None \<Rightarrow> err
      | Some n \<Rightarrow> if n \<le> 0 then err
          else Inr (''127.0.0.1:'' @ showInt (wrap64 (19100 + n)), ''127.0.0.1:'' @ showInt (wrap64 (18100 + n))))"

definition addAddrs :: "string \<Rightarrow> string \<Rightarrow> string \<Rightarrow> raft_error + string \<times> string" where
  "addAddrs i raftAddr haddr =
     (if raftAddr = [] \<or> haddr = [] then
        (case defaultDevAddrs i of
           Inl err \<Rightarrow> Inl err
         | Inr (r, h) \<Rightarrow> Inr (if raftAddr = [] then r else raftAddr, if haddr = [] then h else haddr))
      else Inr (raftAddr, haddr))"

definition addConfig :: "string \<Rightarrow> string \<Rightarrow> string \<Rightarrow> ClusterConfig \<Rightarrow> ClusterConfig" where
  "addConfig i raftAddr haddr cfg =
     cfg\<lparr>RaftAddrs := fmupd i raftAddr (RaftAddrs cfg), HTTPAddrs := fmupd i haddr (HTTPAddrs cfg),
         IDs := (if i \<in> set (IDs cfg) then IDs cfg else IDs cfg @ [i])\<rparr>"

text \<open>The polling for a leader; each poll is preceded by some background activity.\<close>

fun pollLeader :: "(string \<Rightarrow> kv_node \<Rightarrow> kv_node) list \<Rightarrow> Cluster \<Rightarrow> string option \<times> Cluster" where
  "pollLeader [] c = (None, c)"
| "pollLeader (g # gs) c =
     (let c' = background g c in
      case leaderNode c' of Some l \<Rightarrow> (Some l, c') | None \<Rightarrow> pollLeader gs c')"

record change_run =
  crEnv :: Env
  crListen :: "bool list"
  crPolls :: "(string \<Rightarrow> kv_node \<Rightarrow> kv_node) list"
  crPropose :: "string \<Rightarrow> kv_node \<Rightarrow> kv_node"
  crWait :: "(KvWorld, disk_files) wait_event list"
  crEnd :: "string \<Rightarrow> kv_node \<Rightarrow> kv_node"

text \<open>Run an operation of the leader's node.\<close>

definition onNode :: "string \<Rightarrow> (kv_node \<Rightarrow> 'a \<times> kv_node) \<Rightarrow> Cluster \<Rightarrow> 'a option \<times> Cluster" where
  "onNode i f c =
     (case fmlookup (clMembers c) i of
        None \<Rightarrow> (None, c)
      | Some m \<Rightarrow> let (x, n) = f (mNode m) in (Some x, c\<lparr>clMembers := fmupd i (m\<lparr>mNode := n\<rparr>) (clMembers c)\<rparr>))"

text \<open>
  \<open>Add\<close> and \<open>Remove\<close>.  The result is \<open>None\<close> while the call waits for the change to be applied, and
  otherwise the error, if any.
\<close>

definition Cluster_Add ::
  "string \<Rightarrow> string \<Rightarrow> string \<Rightarrow> change_run \<Rightarrow> Cluster \<Rightarrow> raft_error option option \<times> Cluster" where
  "Cluster_Add i raftAddr0 haddr0 r c =
     (if i = [] then (Some (Some (ErrMsg ''id required'')), c)
      else case addAddrs i raftAddr0 haddr0 of
        Inl err \<Rightarrow> (Some (Some err), c)
      | Inr (raftAddr, haddr) \<Rightarrow>
        if running i c then (Some (Some (ErrMsg (i @ '' is already running''))), c)
        else
          case startMemberJoin (crEnv r) (crListen r) i True (c\<lparr>clCfg := addConfig i raftAddr haddr (clCfg c)\<rparr>) of
            (Some err, c1) \<Rightarrow> (Some (Some err), c1)
          | (None, c1) \<Rightarrow>
            (case pollLeader (crPolls r) c1 of
               (None, c2) \<Rightarrow> (Some (Some (ErrMsg ''no leader to add member'')), snd (Cluster_Crash i c2))
             | (Some l, c2) \<Rightarrow>
               (case onNode l (AddServer i raftAddr haddr) (background (crPropose r) c2) of
                  (Some (Inr idx), c3) \<Rightarrow>
                    (case WaitApplied idx (crWait r) of
                       None \<Rightarrow> (None, c3)
                     | Some (Some err) \<Rightarrow> (Some (Some err), snd (Cluster_Crash i (background (crEnd r) c3)))
                     | Some None \<Rightarrow> (Some None, background (crEnd r) c3))
                | (Some (Inl err), c3) \<Rightarrow> (Some (Some err), snd (Cluster_Crash i c3))
                | (None, c3) \<Rightarrow> (None, c3))))"

definition dropMember :: "string \<Rightarrow> Cluster \<Rightarrow> Cluster" where
  "dropMember i c = c\<lparr>clMembers := fmdrop i (clMembers c),
     clCfg := (clCfg c)\<lparr>RaftAddrs := fmdrop i (RaftAddrs (clCfg c)), HTTPAddrs := fmdrop i (HTTPAddrs (clCfg c)),
       IDs := filter (\<lambda>j. j \<noteq> i) (IDs (clCfg c))\<rparr>\<rparr>"

definition Cluster_Remove :: "string \<Rightarrow> change_run \<Rightarrow> Cluster \<Rightarrow> raft_error option option \<times> Cluster" where
  "Cluster_Remove i r c =
     (case leaderNode c of
        None \<Rightarrow> (Some (Some (ErrMsg ''no leader to remove member'')), c)
      | Some l \<Rightarrow>
        if l = i then (Some (Some ErrRemoveLeader), c)
        else case onNode l (RemoveServer i) (background (crPropose r) c) of
          (Some (Inr idx), c1) \<Rightarrow>
            (case WaitApplied idx (crWait r) of
               None \<Rightarrow> (None, c1)
             | Some (Some err) \<Rightarrow> (Some (Some err), background (crEnd r) c1)
             | Some None \<Rightarrow> (Some None, dropMember i (snd (Cluster_Crash i (background (crEnd r) c1)))))
        | (Some (Inl err), c1) \<Rightarrow> (Some (Some err), c1)
        | (None, c1) \<Rightarrow> (None, c1))"

subsection \<open>Facts\<close>

lemma cloneAddrs_id [simp]: "cloneAddrs m = m"
  using copyMap_id[of m] by (simp only: cloneAddrs_def copyMap_def)

lemma nid_boot [simp]: "nid (boot b e d) = cfgID (bCfg b)"
  by (simp add: boot_def Start_def NewNode_def Let_def freshNode_def split: option.split sum.split)

lemma memberBoot_simps [simp]:
  "cfgID (bCfg (memberBoot cfg i join)) = i"
  "bApply (memberBoot cfg i join) = onApply" "bSnap (memberBoot cfg i join) = storeSnapshotter"
  by (simp_all add: memberBoot_def DefaultConfig_def Let_def)

text \<open>
  Well-formedness: every member belongs to the configuration, has an address and runs the node of
  its id; a crashed member is stopped and its disk is kept.
\<close>

definition cluster_ok :: "Cluster \<Rightarrow> bool" where
  "cluster_ok c \<longleftrightarrow> distinct (IDs (clCfg c)) \<and> (\<forall>i m. fmlookup (clMembers c) i = Some m \<longrightarrow>
     mID m = i \<and> nid (mNode m) = i \<and> i \<in> set (IDs (clCfg c)) \<and> map_has (RaftAddrs (clCfg c)) i \<and>
     (mCrashed m \<longrightarrow> stopped (mNode m) \<and> fmlookup (clDisks c) i = Some (disk (mNode m))))"

definition tame :: "(string \<Rightarrow> kv_node \<Rightarrow> kv_node) \<Rightarrow> bool" where
  "tame g \<longleftrightarrow> (\<forall>i n. nid (g i n) = nid n)"

definition tame_run :: "change_run \<Rightarrow> bool" where
  "tame_run r \<longleftrightarrow> list_all tame (crPolls r) \<and> tame (crPropose r) \<and> tame (crEnd r)"

lemma ok_background: "cluster_ok c \<Longrightarrow> tame g \<Longrightarrow> cluster_ok (background g c)"
  by (auto simp: cluster_ok_def background_def tame_def)

lemma ok_start:
  assumes "cluster_ok c" "i \<in> set (IDs (clCfg c))"
  shows "cluster_ok (snd (startMemberJoin e attempts i join c))"
  using assms by (auto simp: startMemberJoin_def cluster_ok_def map_has_def split: option.split)

lemma ok_crash: "cluster_ok c \<Longrightarrow> cluster_ok (snd (Cluster_Crash i c))"
  by (auto simp: Cluster_Crash_def cluster_ok_def Let_def Stop_def split: option.split)

lemma crash_config [simp]: "clCfg (snd (Cluster_Crash i c)) = clCfg c"
  by (simp add: Cluster_Crash_def Let_def split: option.split)

lemma ok_faults: "cluster_ok (c\<lparr>clFaults := f\<rparr>) = cluster_ok c"
  by (simp add: cluster_ok_def)

lemma ok_restart: "cluster_ok c \<Longrightarrow> cluster_ok (snd (Cluster_Restart e attempts i c))"
  by (auto simp: Cluster_Restart_def startMember_def ok_faults cluster_ok_def[of c] intro!: ok_start split: option.split)

lemma ok_stop: "cluster_ok c \<Longrightarrow> cluster_ok (Cluster_Stop c)"
proof -
  have "cluster_ok (fold (\<lambda>i c. snd (Cluster_Crash i c)) is c)" if "cluster_ok c" for "is" c
    using that by (induction "is" arbitrary: c) (auto intro: ok_crash)
  then show "cluster_ok c \<Longrightarrow> cluster_ok (Cluster_Stop c)" by (simp add: Cluster_Stop_def Let_def ok_faults)
qed

lemma ok_chaos:
  "cluster_ok c \<Longrightarrow> cluster_ok (snd (Cluster_Isolate i c))" "cluster_ok c \<Longrightarrow> cluster_ok (snd (Cluster_Heal i c))"
  "cluster_ok c \<Longrightarrow> cluster_ok (snd (Cluster_Partition a b c))" "cluster_ok c \<Longrightarrow> cluster_ok (Cluster_HealAll c)"
  by (simp_all add: Cluster_Isolate_def Cluster_Heal_def Cluster_Partition_def Cluster_HealAll_def ok_faults split: option.split)

lemma start_config: "clCfg (snd (startMemberJoin e attempts i join c)) = clCfg c"
  by (simp add: startMemberJoin_def split: option.split)

lemma ok_startAll:
  assumes "cluster_ok c" "set is \<subseteq> set (IDs (clCfg c))"
  shows "cluster_ok (snd (startAll e attempts is c))"
  using assms
proof (induction "is" arbitrary: c)
  case (Cons i "is")
  have ok: "cluster_ok (snd (startMember (e i) (attempts i) i c))" and "clCfg (snd (startMember (e i) (attempts i) i c)) = clCfg c"
    using Cons.prems by (simp_all add: startMember_def ok_start start_config)
  then show ?case using Cons ok_stop[OF ok] by (auto split: prod.split option.split)
qed simp

lemma ok_addConfig: "cluster_ok c \<Longrightarrow> cluster_ok (c\<lparr>clCfg := addConfig i r h (clCfg c)\<rparr>)"
  by (auto simp: cluster_ok_def addConfig_def)

lemma ok_onNode:
  assumes "cluster_ok c" and "\<And>n. nid (snd (f n)) = nid n" and "running i c"
  shows "cluster_ok (snd (onNode i f c))"
  using assms by (auto simp: onNode_def cluster_ok_def running_def split: option.split prod.split) (metis snd_conv)+

lemma ok_poll:
  "cluster_ok c \<Longrightarrow> list_all tame gs \<Longrightarrow> pollLeader gs c = (l, c') \<Longrightarrow> cluster_ok c'"
proof (induction gs arbitrary: c)
  case (Cons g gs)
  have "cluster_ok (background g c)" using Cons.prems by (simp add: ok_background)
  then show ?case using Cons by (cases "leaderNode (background g c)") (auto simp: Let_def)
qed simp

lemma leaderNode_running: "leaderNode c = Some l \<Longrightarrow> running l c"
  by (auto simp: leaderNode_def running_def find_Some_iff split: option.splits)

lemma running_background [simp]: "running i (background g c) = running i c"
  by (simp add: running_def background_def split: option.split)

lemma poll_running: "pollLeader gs c = (Some l, c') \<Longrightarrow> running l c'"
proof (induction gs arbitrary: c)
  case (Cons g gs)
  then show ?case by (cases "leaderNode (background g c)") (auto simp: Let_def dest: leaderNode_running)
qed simp

lemma nid_change [simp]: "nid (snd (AddServer i a h n)) = nid n" "nid (snd (RemoveServer i n)) = nid n"
  using evolves_AddServer[of n i a h] evolves_RemoveServer[of n i] by (simp_all add: evolves_def)

lemma ok_dropMember: "cluster_ok c \<Longrightarrow> cluster_ok (dropMember i c)"
  by (auto simp: cluster_ok_def dropMember_def map_has_def split: if_splits)

lemma ok_leader_change:
  assumes "cluster_ok c" "tame g" "running l c" "\<And>n. nid (snd (f n)) = nid n" "onNode l f (background g c) = (x, c')"
  shows "cluster_ok c'"
  using ok_onNode[OF ok_background[OF assms(1,2)], of f l] assms(3-5) by simp

lemma ok_add:
  assumes c: "cluster_ok c" and r: "tame_run r"
  shows "cluster_ok (snd (Cluster_Add i ra ha r c))"
proof -
  have start: "cluster_ok c1" if "startMemberJoin e att i True (c\<lparr>clCfg := addConfig i a h (clCfg c)\<rparr>) = (x, c1)" for a h e att x c1
    using ok_start[OF ok_addConfig[OF c, of i a h], of i e att True] that by (simp add: addConfig_def)
  have change: "cluster_ok c3" if "cluster_ok c1" "pollLeader (crPolls r) c1 = (Some l, c2)"
      "onNode l (AddServer i a h) (background (crPropose r) c2) = (x, c3)" for a h c1 c2 c3 l x
    using ok_leader_change[OF ok_poll[OF that(1) _ that(2)] _ poll_running[OF that(2)] _ that(3)] r by (simp add: tame_run_def)
  show ?thesis
    using c r unfolding Cluster_Add_def
    by (auto simp: tame_run_def split: sum.split prod.split option.split
        intro!: ok_crash ok_background intro: start change ok_poll)
qed

lemma ok_remove:
  assumes c: "cluster_ok c" and r: "tame_run r"
  shows "cluster_ok (snd (Cluster_Remove i r c))"
proof -
  have change: "cluster_ok c1" if "leaderNode c = Some l" "onNode l (RemoveServer i) (background (crPropose r) c) = (x, c1)" for l x c1
    using ok_leader_change[OF c _ leaderNode_running[OF that(1)] _ that(2)] r by (simp add: tame_run_def)
  show ?thesis
    using c r unfolding Cluster_Remove_def
    by (auto simp: tame_run_def split: sum.split prod.split option.split
        intro!: ok_dropMember ok_crash ok_background intro: change)
qed

subsection \<open>Properties\<close>

text \<open>The states a cluster can get into: any operations, in any order, with the nodes running in between.\<close>

inductive cl_reach :: "ClusterConfig \<Rightarrow> Cluster \<Rightarrow> bool" for cfg where
  cl_new: "cl_reach cfg (Cluster_New cfg h)"
| cl_start: "cl_reach cfg c \<Longrightarrow> cl_reach cfg (snd (Cluster_Start e attempts c))"
| cl_stop: "cl_reach cfg c \<Longrightarrow> cl_reach cfg (Cluster_Stop c)"
| cl_crash: "cl_reach cfg c \<Longrightarrow> cl_reach cfg (snd (Cluster_Crash i c))"
| cl_restart: "cl_reach cfg c \<Longrightarrow> cl_reach cfg (snd (Cluster_Restart ev att i c))"
| cl_isolate: "cl_reach cfg c \<Longrightarrow> cl_reach cfg (snd (Cluster_Isolate i c))"
| cl_heal: "cl_reach cfg c \<Longrightarrow> cl_reach cfg (snd (Cluster_Heal i c))"
| cl_partition: "cl_reach cfg c \<Longrightarrow> cl_reach cfg (snd (Cluster_Partition a b c))"
| cl_healAll: "cl_reach cfg c \<Longrightarrow> cl_reach cfg (Cluster_HealAll c)"
| cl_add: "cl_reach cfg c \<Longrightarrow> tame_run r \<Longrightarrow> cl_reach cfg (snd (Cluster_Add i ra ha r c))"
| cl_remove: "cl_reach cfg c \<Longrightarrow> tame_run r \<Longrightarrow> cl_reach cfg (snd (Cluster_Remove i r c))"
| cl_run: "cl_reach cfg c \<Longrightarrow> tame g \<Longrightarrow> cl_reach cfg (background g c)"

lemma ok_new: "distinct (IDs cfg) \<Longrightarrow> cluster_ok (Cluster_New cfg h)"
  by (simp add: cluster_ok_def Cluster_New_def)

text \<open>
  C30: The cluster stays well formed.  After any sequence of operations every member is in the
  configuration with an address, runs the node of its own id, and a crashed member is stopped with
  its disk kept.
\<close>

theorem cluster_invariant:
  assumes "distinct (IDs cfg)" "cl_reach cfg c"
  shows "cluster_ok c"
  using assms(2)
  by (induction rule: cl_reach.induct)
    (auto simp: Cluster_Start_def intro: ok_new[OF assms(1)] ok_startAll ok_stop ok_crash ok_restart ok_chaos ok_add
      ok_remove ok_background)


lemma poll_keeps:
  assumes "pollLeader gs c = (l, c')"
  shows "clCfg c' = clCfg c" "map_has (clMembers c') i = map_has (clMembers c) i"
  using assms
proof (induction gs arbitrary: c)
  case (Cons g gs)
  {
    case 1
    then show ?case using Cons.IH(1)[of "background g c"]
      by (cases "leaderNode (background g c)") (auto simp: Let_def background_def)
  next
    case 2
    then show ?case using Cons.IH(2)[of "background g c"]
      by (cases "leaderNode (background g c)") (auto simp: Let_def background_def map_has_def)
  }
qed simp_all

lemma AddServer_msg: "fst (AddServer i a h n) = Inl (ErrMsg s) \<Longrightarrow> s = ''id and raft address required''"
  by (auto simp: AddServer_def proposeChangeLocked_def newConfig_def ChangeAdd_def Let_def split: if_splits)

lemma WaitApplied_msg: "WaitApplied k evs \<noteq> Some (Some (ErrMsg s))"
proof (induction evs)
  case (Cons ev evs)
  then show ?case by (cases ev) (auto simp: Let_def)
qed simp

text \<open>
  C32: What a failed \<open>Add\<close> leaves behind.  When no leader is found the new node is crashed again, but
  its id and an address for it stay in the configuration of the cluster.
\<close>

theorem failed_add_keeps_config:
  assumes "Cluster_Add i ra ha r c = (Some (Some (ErrMsg ''no leader to add member'')), c')"
  shows "i \<in> set (IDs (clCfg c')) \<and> map_has (RaftAddrs (clCfg c')) i \<and>
     (\<exists>m. fmlookup (clMembers c') i = Some m \<and> mCrashed m)"
proof -
  obtain a h c1 c2 where s: "startMemberJoin (crEnv r) (crListen r) i True (c\<lparr>clCfg := addConfig i a h (clCfg c)\<rparr>) = (None, c1)"
    and p: "pollLeader (crPolls r) c1 = (None, c2)" and c': "c' = snd (Cluster_Crash i c2)"
  proof -
    have run: "i @ '' is already running'' \<noteq> ''no leader to add member''" by (auto dest!: arg_cong[where f = last])
    have addr: "addAddrs i ra ha \<noteq> Inl (ErrMsg ''no leader to add member'')"
      by (simp add: addAddrs_def defaultDevAddrs_def Let_def split: sum.split option.split prod.split)
    have start: "fst (startMemberJoin e att i True x) \<noteq> Some (ErrMsg ''no leader to add member'')" for e att x
      using run by (simp add: startMemberJoin_def split: option.split)
    have change: "fst (onNode l (AddServer i a h) x) \<noteq> Some (Inl (ErrMsg ''no leader to add member''))" for l a h x
      using AddServer_msg[of i a h _ "''no leader to add member''"] by (auto simp: onNode_def split_beta split: option.split)
    obtain a h where ah: "i \<noteq> []" "addAddrs i ra ha = Inr (a, h)" "\<not> running i c"
      using assms addr run by (cases "addAddrs i ra ha") (auto simp: Cluster_Add_def split: if_splits)
    let ?c = "c\<lparr>clCfg := addConfig i a h (clCfg c)\<rparr>"
    obtain x c1 where s: "startMemberJoin (crEnv r) (crListen r) i True ?c = (x, c1)" by force
    have "x = None" using assms ah s start[of "crEnv r" "crListen r" ?c] by (cases x) (auto simp: Cluster_Add_def)
    note s = s[unfolded this]
    obtain y c2 where p: "pollLeader (crPolls r) c1 = (y, c2)" by force
    have "y = None"
    proof (rule ccontr)
      assume "y \<noteq> None"
      then obtain l where l: "y = Some l" by blast
      obtain z c3 where o: "onNode l (AddServer i a h) (background (crPropose r) c2) = (z, c3)" by force
      have "z \<noteq> Some (Inl (ErrMsg ''no leader to add member''))"
        using change[of l a h "background (crPropose r) c2"] o by simp
      moreover have "WaitApplied k (crWait r) \<noteq> Some (Some (ErrMsg ''no leader to add member''))" for k
        by (rule WaitApplied_msg)
      ultimately show False
        using assms by (auto simp: Cluster_Add_def ah s p l o split: option.splits sum.splits)
    qed
    with p s assms show ?thesis by (intro that[OF s, of c2]) (auto simp: Cluster_Add_def ah)
  qed
  have m: "map_has (clMembers c1) i" "clCfg c1 = addConfig i a h (clCfg c)"
    using s by (auto simp: startMemberJoin_def split: option.splits if_splits)
  then show ?thesis
    using poll_keeps[OF p] unfolding c'
    by (auto simp: addConfig_def Cluster_Crash_def Let_def map_has_def split: option.split)
qed

lemma find_in: "find P xs = Some x \<Longrightarrow> x \<in> set xs \<and> P x"
  by (induction xs) (auto split: if_splits)

lemma State_String_leader: "State_String s = ''leader'' \<longleftrightarrow> s = Leader"
  by (cases s) (simp_all add: State_String_def)

lemma viewOf_leader:
  "vState (viewOf c i) = ''leader'' \<and> \<not> vCrashed (viewOf c i) \<longleftrightarrow>
     (\<exists>m. fmlookup (clMembers c) i = Some m \<and> \<not> mCrashed m \<and> state (mNode m) = Leader)"
  "vHTTP (viewOf c i) = map_get [] (HTTPAddrs (clCfg c)) i" "vIsolated (viewOf c i) = Isolated i (clFaults c)"
  by (auto simp: viewOf_def Let_def Server_Status_def State_String_leader split: option.split)

definition leads :: "Cluster \<Rightarrow> string \<Rightarrow> bool" where
  "leads c i \<longleftrightarrow> i \<in> set (IDs (clCfg c)) \<and>
     (\<exists>m. fmlookup (clMembers c) i = Some m \<and> \<not> mCrashed m \<and> state (mNode m) = Leader)"

text \<open>
  C34: The advertised leader.  If \<open>LeaderHTTP\<close> on a quiet cluster yields an address, it is the HTTP
  address of a running member that is leader, and of one that is not isolated if there is such a
  leader.
\<close>

theorem leader_http_correct:
  assumes "Cluster_LeaderHTTP c c \<noteq> []"
  shows "\<exists>i. leads c i \<and> Cluster_LeaderHTTP c c = map_get [] (HTTPAddrs (clCfg c)) i \<and>
     (Isolated i (clFaults c) \<longrightarrow> (\<forall>j. leads c j \<longrightarrow> Isolated j (clFaults c)))"
proof -
  let ?ok = "\<lambda>v. vState v = ''leader'' \<and> \<not> vCrashed v \<and> \<not> vIsolated v"
  let ?any = "\<lambda>v. vState v = ''leader'' \<and> \<not> vCrashed v"
  have lead: "leads c i" if "i \<in> set (IDs (clCfg c))" "?any (viewOf c i)" for i
    using that viewOf_leader(1)[of c i] by (simp add: leads_def)
  show ?thesis
  proof (cases "find ?ok (Cluster_Snapshot c)")
    case (Some v)
    then obtain i where i: "i \<in> set (IDs (clCfg c))" "v = viewOf c i" "?ok v"
      using find_in[OF Some] by (auto simp: Cluster_Snapshot_def)
    then show ?thesis
      using Some lead[of i] viewOf_leader(2,3)[of c i] by (intro exI[of _ i]) (auto simp: Cluster_LeaderHTTP_def)
  next
    case None
    then have iso: "Isolated j (clFaults c)" if "leads c j" for j
      using that viewOf_leader(1,3)[of c j] by (auto simp: Cluster_Snapshot_def find_None_iff leads_def)
    from None assms obtain v where v: "find ?any (Cluster_Snapshot c) = Some v" "Cluster_LeaderHTTP c c = vHTTP v"
      by (auto simp: Cluster_LeaderHTTP_def split: option.splits)
    then obtain i where "i \<in> set (IDs (clCfg c))" "v = viewOf c i" "?any v"
      using find_in[OF v(1)] by (auto simp: Cluster_Snapshot_def)
    then show ?thesis using v(2) lead[of i] viewOf_leader(2)[of c i] iso by (intro exI[of _ i]) auto
  qed
qed

text \<open>
  Default addresses.  The member \<open>nK\<close> of a development cluster gets the ports \<open>19100 + K\<close> and
  \<open>18100 + K\<close>, for every positive \<open>K\<close> for which they are representable.
\<close>

theorem defaultDevAddrs_canonical:
  assumes "0 < k" "k < 2 ^ 63 - 19100"
  shows "defaultDevAddrs (''n'' @ showInt k) =
     Inr (''127.0.0.1:'' @ showInt (19100 + k), ''127.0.0.1:'' @ showInt (18100 + k))"
proof -
  have s: "showInt k = showNat (nat k)" using assms(1) by (simp add: showInt_def)
  obtain x xs where x: "showNat (nat k) = x # xs" by (meson neq_Nil_conv showNat_nonempty)
  have d: "list_all isDigit (x # xs)" using showNat_digits[of "nat k"] by (simp add: x)
  then have "x \<noteq> CHR ''-''" "x \<noteq> CHR ''+''" by (auto simp: isDigit_def)
  moreover have "readNat (x # xs) = nat k" using readNat_showNat[of "nat k"] by (simp add: x)
  ultimately have "atoi (showInt k) = Some k" using d assms by (simp add: atoi_def s x)
  moreover have "wrap64 (19100 + k) = 19100 + k" "wrap64 (18100 + k) = 18100 + k" using assms by (simp_all add: wrap64_def)
  ultimately show ?thesis using assms(1) by (simp add: defaultDevAddrs_def hasPrefix_def)
qed

theorem defaultDevAddrs_canonical_witness:
  "defaultDevAddrs ''n4'' = Inr (''127.0.0.1:19104'', ''127.0.0.1:18104'')"
proof -
  have "showInt 4 = ''4''" "showInt 19104 = ''19104''" "showInt 18104 = ''18104''" by code_simp+
  then show ?thesis using defaultDevAddrs_canonical[of 4] by simp
qed

end
