(* ===== verification/Cluster_Safety.thy ===== *)
theory Cluster_Safety
  imports Raft_Safety Raft_Rules Cluster
begin

text \<open>
  The in-process cluster as an instance of the verified system: a started cluster is an initial
  state, so the safety properties hold for its members, and they say what the clients of the
  key-value store see.
\<close>

subsection \<open>The cluster as a system\<close>

text \<open>
  A configuration is usable when its ids are the keys of the address map, each id is the name of a
  subdirectory of the data directory (so that no two nodes share a state file), all text is valid
  UTF-8, and there is a data directory.
\<close>

definition setup_ok :: "ClusterConfig \<Rightarrow> bool" where
  "setup_ok cfg \<longleftrightarrow> distinct (IDs cfg) \<and> set (IDs cfg) = set (map_keys (RaftAddrs cfg)) \<and>
     list_all plainName (IDs cfg) \<and> valid_map (RaftAddrs cfg) \<and> valid_map (HTTPAddrs cfg) \<and> DataDir cfg \<noteq> ''''"

definition clusterNet :: "ClusterConfig \<Rightarrow> (KvWorld, disk_files, addrmap) Net" where
  "clusterNet cfg = \<lparr>cIds = map_keys (RaftAddrs cfg), cBoot = \<lambda>i. memberBoot cfg i False,
     cSm = kvState, cAp = kvStep, cWf = valid_map, cStart = fmempty\<rparr>"

lemma clusterNet_simps [simp]:
  "cIds (clusterNet cfg) = map_keys (RaftAddrs cfg)" "cBoot (clusterNet cfg) i = memberBoot cfg i False"
  "cSm (clusterNet cfg) = kvState" "cAp (clusterNet cfg) = kvStep" "cWf (clusterNet cfg) = valid_map"
  "cStart (clusterNet cfg) = fmempty"
  by (simp_all add: clusterNet_def)

lemma pathJoin_dir: "d \<noteq> [] \<Longrightarrow> pathJoin d n \<noteq> []"
  by (auto simp: pathJoin_def pathClean_def render_def Let_def)

lemma memberBoot_cfg:
  assumes "DataDir cfg \<noteq> []"
  shows "bCfg (memberBoot cfg i False) = (DefaultConfig i (RaftAddrs cfg))\<lparr>cfgSnapshotter := Some storeSnapshotter,
     cfgHTTPAddrs := HTTPAddrs cfg, cfgJoin := False,
     cfgStorage := Some (NewFileStorage diskOS (pathJoin (DataDir cfg) i))\<rparr>"
  using assms by (simp add: memberBoot_def Let_def)

lemma memberBoot_parts:
  "bSetup (memberBoot cfg i False) = SetHTTPAddrs (HTTPAddrs cfg)"
  "bHook (memberBoot cfg i join) = (\<lambda>peers https. SetHTTPAddrs https)"
  "bWorld (memberBoot cfg i join) = \<lparr>store = NewStore, httpAddrs = fmempty\<rparr>"
  "bTransport (memberBoot cfg i join) = FilterTransport i (GRPC (NewGRPCTransport (RaftAddrs cfg)))"
  by (simp_all add: memberBoot_def Let_def)

lemma clusterNet_ok:
  assumes "setup_ok cfg"
  shows "net_ok (clusterNet cfg)"
proof -
  have "node_ok (clusterNet cfg) i (memberBoot cfg i False)" if i: "i \<in> set (map_keys (RaftAddrs cfg))" for i
  proof -
    have d: "DataDir cfg \<noteq> []" using assms by (simp add: setup_ok_def)
    then have "storage_ok (NewFileStorage diskOS (pathJoin (DataDir cfg) i))" by (intro fileStorage_ok pathJoin_dir)
    moreover have "textual_boot (memberBoot cfg i False)"
      using assms i by (auto simp: memberBoot_cfg[OF d] textual_boot_def setup_ok_def DefaultConfig_def valid_map_def)
    ultimately show ?thesis
      using kv.replicated_machine_axioms[of "HTTPAddrs cfg"] d
      by (simp add: node_ok_def memberBoot_cfg memberBoot_parts kvState_def NewStore_def DefaultConfig_def)
  qed
  then show ?thesis using assms by (auto simp: net_ok_def setup_ok_def valid_map_def list_all_iff plainName_def)
qed

text \<open>The members of a cluster as the state of the system, with no message under way.\<close>

definition clusterSys :: "Cluster \<Rightarrow> (KvWorld, disk_files) Sys" where
  "clusterSys c = \<lparr>nodes = \<lambda>i. mNode (the (fmlookup (clMembers c) i)), msgs = {}\<rparr>"

lemma startMember_fresh:
  assumes "fmlookup (clMembers c) i = None" "clHTTP c" "map_has (RaftAddrs (clCfg c)) i" "listens attempts"
    "clDisks c = fmempty"
  shows "startMember e attempts i c = (None, c\<lparr>clMembers := fmupd i
     \<lparr>mID = i, mNode = boot (memberBoot (clCfg c) i False) e fmempty, mCrashed = False\<rparr> (clMembers c)\<rparr>)"
  using assms by (auto simp: startMember_def startMemberJoin_def running_def map_has_def map_get_def)

lemma startAll_fresh:
  assumes "distinct is" "clHTTP c" "clDisks c = fmempty"
    and "\<forall>i \<in> set is. fmlookup (clMembers c) i = None \<and> map_has (RaftAddrs (clCfg c)) i \<and> listens (attempts i)"
  shows "fst (startAll e attempts is c) = None \<and> fmlookup (clMembers (snd (startAll e attempts is c))) i =
       (if i \<in> set is then Some \<lparr>mID = i, mNode = boot (memberBoot (clCfg c) i False) (e i) fmempty, mCrashed = False\<rparr>
        else fmlookup (clMembers c) i)"
  using assms
proof (induction "is" arbitrary: c)
  case (Cons j "is")
  let ?c = "c\<lparr>clMembers := fmupd j \<lparr>mID = j, mNode = boot (memberBoot (clCfg c) j False) (e j) fmempty, mCrashed = False\<rparr> (clMembers c)\<rparr>"
  have "startAll e attempts (j # is) c = startAll e attempts is ?c"
    using startMember_fresh[of c j "attempts j" "e j"] Cons.prems by simp
  moreover have "\<forall>i \<in> set is. fmlookup (clMembers ?c) i = None \<and> map_has (RaftAddrs (clCfg ?c)) i \<and> listens (attempts i)"
    using Cons.prems by auto
  ultimately show ?case using Cons.IH[of ?c] Cons.prems by auto
qed simp

lemma fresh_init:
  assumes "DataDir cfg \<noteq> []" "msgs s = {}"
    and "\<And>i. i \<in> set (map_keys (RaftAddrs cfg)) \<Longrightarrow> nodes s i = boot (memberBoot cfg i False) (e i) fmempty"
  shows "sys_init (clusterNet cfg) s"
  unfolding sys_init_def using assms load_fresh by (force simp: memberBoot_cfg)



subsection \<open>What the clients see\<close>

text \<open>The put an entry stands for: the key and the value.\<close>

definition putOf :: "LogEntry \<Rightarrow> (string \<times> string) option" where
  "putOf x =
     (if eCommand x = [] then None
      else case unmarshal (decStruct commandFields) zeroCommand (eCommand x) of
        None \<Rightarrow> None
      | Some c \<Rightarrow> if cmdOp c = opPut then Some (cmdKey c, cmdValue c) else None)"

lemma kvStep_putOf:
  "kvStep (msgOf x) m = (case putOf x of None \<Rightarrow> m | Some (k, v) \<Rightarrow> fmupd k v m)"
  by (simp add: kvStep_def kvState_def onApply_def putOf_def msgOf_def Store_Put_def split: option.split)

text \<open>Among the first \<open>n\<close> entries of a history, the last put to a key is the one at \<open>l\<close>.\<close>

definition lastPut :: "LogEntry list \<Rightarrow> nat \<Rightarrow> string \<Rightarrow> nat \<Rightarrow> string \<Rightarrow> bool" where
  "lastPut H n key l v \<longleftrightarrow> 0 < l \<and> l \<le> n \<and> putOf (H ! l) = Some (key, v) \<and>
     (\<forall>m. l < m \<longrightarrow> m \<le> n \<longrightarrow> (\<forall>w. putOf (H ! m) \<noteq> Some (key, w)))"

lemma lastPut_Suc:
  "lastPut H (Suc n) key l v \<longleftrightarrow>
     l = Suc n \<and> putOf (H ! Suc n) = Some (key, v) \<or>
     lastPut H n key l v \<and> (\<forall>w. putOf (H ! Suc n) \<noteq> Some (key, w))"
  by (cases "l = Suc n") (auto simp: lastPut_def le_Suc_eq dest: spec[of _ "Suc n"])

lemma replay_lookup:
  "n < length H \<Longrightarrow> fmlookup (replay (clusterNet cfg) H n) key = Some v \<longleftrightarrow> (\<exists>l. lastPut H n key l v)"
proof (induction n)
  case 0
  then show ?case by (simp add: replay_def lastPut_def)
next
  case (Suc n)
  then have "replay (clusterNet cfg) H (Suc n) = kvStep (msgOf (H ! Suc n)) (replay (clusterNet cfg) H n)"
    by (simp add: replay_Suc)
  then show ?case using Suc by (auto simp: kvStep_putOf lastPut_Suc split: option.split)
qed

lemma putOf_between:
  assumes "putOf (H ! k) = Some (key, v)" "0 < k" "k \<le> n"
  shows "\<exists>l w. k \<le> l \<and> lastPut H n key l w"
  using assms(3)
proof (induction n)
  case (Suc n)
  show ?case
  proof (cases "\<exists>w. putOf (H ! Suc n) = Some (key, w)")
    case True
    then show ?thesis using Suc.prems by (auto simp: lastPut_Suc)
  next
    case False
    then have "k \<noteq> Suc n" using assms(1) by auto
    then show ?thesis using Suc False by (auto simp: lastPut_Suc)
  qed
qed (use assms(2) in simp)

lemma store_lastPut:
  assumes "explains (clusterNet cfg) H s" "i \<in> set (map_keys (RaftAddrs cfg))"
  shows "Store_Get key (store (world (nodes s i))) = (v, True) \<longleftrightarrow>
     (\<exists>l. lastPut H (nat (lastApplied (nodes s i))) key l v)"
proof -
  have "data (store (world (nodes s i))) = replay (clusterNet cfg) H (nat (lastApplied (nodes s i)))"
    and "nat (lastApplied (nodes s i)) < length H"
    using assms unfolding explains_def by (auto simp: kvState_def)
  then show ?thesis using replay_lookup[of "nat (lastApplied (nodes s i))" H cfg key v]
    by (auto simp: Store_Get_def map_get_def map_has_def split: option.splits)
qed



text \<open>
  C11: Replicas agree.  Two nodes of a cluster that have applied the same number of entries have the
  same contents in their stores, whatever crashes, restarts, snapshots and elections came before, and
  also when they are looked at in different states of the run.
  The members are fixed and snapshots are
  delivered where they cut no entries, as \<open>Raft_System\<close> says.
\<close>

theorem replicas_agree:
  assumes "setup_ok cfg" "reach (clusterNet cfg) s" "run (clusterNet cfg) s s'"
    and "i \<in> set (IDs cfg)" "j \<in> set (IDs cfg)" "lastApplied (nodes s i) = lastApplied (nodes s' j)"
  shows "store (world (nodes s i)) = store (world (nodes s' j))"
proof -
  obtain H where "explains (clusterNet cfg) H s" "explains (clusterNet cfg) H s'"
    using one_history[OF clusterNet_ok[OF assms(1)] assms(2,3)] by blast
  then have "kvState (world (nodes s i)) = kvState (world (nodes s' j))"
    using assms(1,4-6) unfolding explains_def setup_ok_def by simp
  then show ?thesis by (simp add: kvState_def)
qed

end
