(* ===== verification/Cluster_Runs.thy ===== *)
theory Cluster_Runs
  imports Cluster_Safety
begin

text \<open>
  Concrete runs of clusters: a cluster of one node that is started, elects itself and takes a put, and
  the development cluster of three nodes in which a candidate gets a vote.  The safety properties
  and the properties of the client operations are applied to the states of these runs.
\<close>

subsection \<open>One node\<close>

text \<open>A member started for the first time.\<close>

lemma member_fresh:
  assumes "DataDir cfg \<noteq> []"
  shows "boot (memberBoot cfg i False) e fmempty = resetElectionTimerLocked e (wireUp (memberBoot cfg i False)
     (freshNode (clampConfig (bCfg (memberBoot cfg i False))) fmempty \<lparr>store = NewStore, httpAddrs = fmempty\<rparr>))"
  using boot_eq[of "memberBoot cfg i False", OF _ load_fresh(1)] load_fresh(2) assms by (simp add: memberBoot_cfg memberBoot_parts)

lemma member_fields:
  fixes i e
  assumes "DataDir cfg \<noteq> []"
  defines "n \<equiv> boot (memberBoot cfg i False) e fmempty"
  shows "nid n = i" "peerIDs n = map_keys (RaftAddrs cfg)" "peerAddrs n = RaftAddrs cfg" "state n = Follower" "\<not> joining n"
    "rlog n = [\<lparr>eTerm = 0, eIndex = 0, eCommand = [], eChange = None\<rparr>]" "currentTerm n = 0" "votedFor n = []"
    "commitIndex n = 0" "lastApplied n = 0" "snapshotThreshold n = 32" "\<not> stopped n" "transport n \<noteq> None"
    "electionDeadline n \<le> now e + Second"
  unfolding n_def member_fresh[OF assms(1)] memberBoot_cfg[OF assms(1)]
  by (simp_all add: resetElectionTimerLocked_def wireUp_def SetPeerHook_def SetTransport_def SetSnapshotter_def SetApply_def
      Let_def freshNode_def clampConfig_def DefaultConfig_def cloneStringMap_def restoreSnapshotLocked_def
      notifyPeersLocked_def Second_def Millisecond_def Int63n_def pos_mod_bound[THEN less_imp_le, THEN order_trans])


text \<open>A cluster of one node, its first election and a put.\<close>

definition soloConfig :: ClusterConfig where
  "soloConfig = \<lparr>IDs = [''n1''], RaftAddrs = fmupd ''n1'' ''127.0.0.1:19101'' fmempty,
     HTTPAddrs = fmupd ''n1'' ''127.0.0.1:18101'' fmempty, DataDir = ''data''\<rparr>"

definition soloSet :: bytes where
  "soloSet = emit (jCommand \<lparr>cmdOp = opPut, cmdKey = ''k'', cmdValue = ''v''\<rparr>)"

definition solo0 :: "(KvWorld, disk_files) Sys" where
  "solo0 = clusterSys (snd (Cluster_Start (\<lambda>i. \<lparr>now = 0, rnd = 0\<rparr>) (\<lambda>i. [True]) (Cluster_New soloConfig True)))"

definition solo1 :: "(KvWorld, disk_files) Sys" where
  "solo1 = deliver (clusterNet soloConfig) ''n1'' (EvTick \<lparr>now = 2 * Second, rnd = 0\<rparr>) {} solo0"

definition solo2 :: "(KvWorld, disk_files) Sys" where
  "solo2 = deliver (clusterNet soloConfig) ''n1'' (EvPropose soloSet) {} solo1"

lemma keys_single [simp]: "map_keys (fmupd k v fmempty) = [k]"
  by (simp add: map_keys_def)

lemma soloConfig_simps [simp]:
  "IDs soloConfig = [''n1'']" "map_keys (RaftAddrs soloConfig) = [''n1'']" "DataDir soloConfig = ''data''"
  by (simp_all add: soloConfig_def)

lemma solo_setup: "setup_ok soloConfig"
proof -
  have "valid_utf8 ''n1''" "valid_utf8 ''127.0.0.1:19101''" "valid_utf8 ''127.0.0.1:18101''" by code_simp+
  then show ?thesis by (simp add: setup_ok_def soloConfig_def plainName_def slash_def valid_map_def map_get_def)
qed

lemma solo0_node: "nodes solo0 ''n1'' = boot (memberBoot soloConfig ''n1'' False) \<lparr>now = 0, rnd = 0\<rparr> fmempty"
  by (simp add: solo0_def clusterSys_def Cluster_Start_def Cluster_New_def startMember_def startMemberJoin_def running_def
      listens_def map_get_def soloConfig_def)

lemma solo0_init: "sys_init (clusterNet soloConfig) solo0"
  by (rule fresh_init[where e = "\<lambda>i. \<lparr>now = 0, rnd = 0\<rparr>"]) (simp_all add: solo0_node, simp add: solo0_def clusterSys_def)

lemma becomeLeader_fixed [simp]:
  "nid (becomeLeaderLocked n) = nid n" "stopped (becomeLeaderLocked n) = stopped n"
  "snapshotThreshold (becomeLeaderLocked n) = snapshotThreshold n"
proof -
  have t: "nid (fold (trackFresh k) ps n) = nid n \<and> stopped (fold (trackFresh k) ps n) = stopped n \<and>
     snapshotThreshold (fold (trackFresh k) ps n) = snapshotThreshold n" for k ps and n :: "('a, 'b) RaftNode"
    by (induction ps arbitrary: n) (simp_all add: trackFresh_def)
  show "nid (becomeLeaderLocked n) = nid n" "stopped (becomeLeaderLocked n) = stopped n"
    "snapshotThreshold (becomeLeaderLocked n) = snapshotThreshold n"
    by (simp_all add: becomeLeaderLocked_def Let_def t)
qed

lemma tick_fixed:
  "nid (tick e n) = nid n" "stopped (tick e n) = stopped n" "snapshotThreshold (tick e n) = snapshotThreshold n"
  by (simp_all add: tick_def startElectionLocked_def Let_def split: State.split)

lemma solo1_node:
  defines "n \<equiv> nodes solo1 ''n1''"
  shows "state n = Leader" "currentTerm n = 1" "commitIndex n = 1" "lastApplied n = 1" "peerIDs n = [''n1'']" "nid n = ''n1''"
    "rlog n = [\<lparr>eTerm = 0, eIndex = 0, eCommand = [], eChange = None\<rparr>, \<lparr>eTerm = 1, eIndex = 1, eCommand = [], eChange = None\<rparr>]"
    "\<not> stopped n" "snapshotThreshold n = 32"
proof -
  let ?n = "nodes solo0 ''n1''" and ?e = "\<lparr>now = 2 * Second, rnd = 0\<rparr>"
  note f = member_fields[of soloConfig "''n1''" "\<lparr>now = 0, rnd = 0\<rparr>", folded solo0_node, simplified]
  have n: "n = tick ?e ?n" by (simp add: n_def solo1_def deliver_def handle_def)
  have l: "lastLogIndexLocked ?n = 0" "lastLogTermLocked ?n = 0" "lastIncludedIndexLocked ?n = 0"
    using f by (simp_all add: lastLogIndexLocked_def lastLogTermLocked_def lastIncludedIndexLocked_def)
  have "electionDeadline ?n \<le> now ?e" using f by (simp add: Second_def Millisecond_def)
  moreover have "isVoterLocked ?n" using f by (simp add: isVoterLocked_def soloConfig_def)
  ultimately have t: "state n = Leader" "currentTerm n = 1" "commitIndex n = 1" "lastApplied n = 1" "peerIDs n = [''n1'']"
    "rlog n = [\<lparr>eTerm = 0, eIndex = 0, eCommand = [], eChange = None\<rparr>, \<lparr>eTerm = 1, eIndex = 1, eCommand = [], eChange = None\<rparr>]"
    using f l solo_tick[of ?n ?e] unfolding n by (simp_all add: log_ok_def)
  show "state n = Leader" "currentTerm n = 1" "commitIndex n = 1" "lastApplied n = 1" "peerIDs n = [''n1'']"
    "rlog n = [\<lparr>eTerm = 0, eIndex = 0, eCommand = [], eChange = None\<rparr>, \<lparr>eTerm = 1, eIndex = 1, eCommand = [], eChange = None\<rparr>]"
    by (fact t)+
  show "nid n = ''n1''" "\<not> stopped n" "snapshotThreshold n = 32" using f unfolding n by (simp_all add: tick_fixed)
qed


lemma solo2_node:
  defines "n \<equiv> nodes solo2 ''n1''"
  shows "state n = Leader" "currentTerm n = 1" "commitIndex n = 2" "lastApplied n = 2"
    "rlog n = [\<lparr>eTerm = 0, eIndex = 0, eCommand = [], eChange = None\<rparr>, \<lparr>eTerm = 1, eIndex = 1, eCommand = [], eChange = None\<rparr>,
       \<lparr>eTerm = 1, eIndex = 2, eCommand = soloSet, eChange = None\<rparr>]" "peerIDs n = [''n1'']"
proof -
  let ?n = "nodes solo1 ''n1''"
  note f = solo1_node
  have l: "lastLogIndexLocked ?n = 1" "lastLogTermLocked ?n = 1" "lastIncludedIndexLocked ?n = 0"
    using f by (simp_all add: lastLogIndexLocked_def lastLogTermLocked_def lastIncludedIndexLocked_def)
  have "fst (Propose soloSet ?n) = (2, 1, None)" using f l by (simp add: Propose_def Let_def)
  moreover have "snd (Propose soloSet ?n) = n" by (simp add: n_def solo2_def deliver_def handle_def)
  ultimately have p: "Propose soloSet ?n = ((2, 1, None), n)" by (metis prod.collapse)
  have ok: "peerIDs ?n = [nid ?n]" "log_ok (rlog ?n)" "lastLogTermLocked ?n \<le> currentTerm ?n"
    "lastIncludedIndexLocked ?n \<le> lastApplied ?n" "lastApplied ?n \<le> commitIndex ?n" "commitIndex ?n \<le> lastLogIndexLocked ?n"
    by (simp_all add: f l log_ok_def contiguous_Cons)
  note q = solo_propose[OF ok p]
  show "state n = Leader" "currentTerm n = 1" "commitIndex n = 2" "lastApplied n = 2" by (fact q)+
  show "rlog n = [\<lparr>eTerm = 0, eIndex = 0, eCommand = [], eChange = None\<rparr>, \<lparr>eTerm = 1, eIndex = 1, eCommand = [], eChange = None\<rparr>,
       \<lparr>eTerm = 1, eIndex = 2, eCommand = soloSet, eChange = None\<rparr>]" "peerIDs n = [''n1'']"
    using q(5) by (simp_all add: f(5,7,9) l(3))
qed

lemma solo_run:
  "reach (clusterNet soloConfig) solo1" "reach (clusterNet soloConfig) solo2" "run (clusterNet soloConfig) solo1 solo2"
  "run (clusterNet soloConfig) s s"
proof -
  have s: "sys_step (clusterNet soloConfig) solo0 solo1" "sys_step (clusterNet soloConfig) solo1 solo2"
    unfolding solo1_def solo2_def by (rule sys_step.local_step; simp)+
  show 1: "reach (clusterNet soloConfig) solo1" by (rule reach_step[OF reach_init[OF solo0_init] s(1)])
  show "reach (clusterNet soloConfig) solo2" by (rule reach_step[OF 1 s(2)])
  show "run (clusterNet soloConfig) solo1 solo2" "run (clusterNet soloConfig) s s" using s(2) by simp_all
qed

lemma solo_entries:
  "hasEntry (nodes solo1 ''n1'') 1 \<lparr>eTerm = 1, eIndex = 1, eCommand = [], eChange = None\<rparr>"
  "hasEntry (nodes solo2 ''n1'') 1 \<lparr>eTerm = 1, eIndex = 1, eCommand = [], eChange = None\<rparr>"
  "hasEntry (nodes solo2 ''n1'') 2 \<lparr>eTerm = 1, eIndex = 2, eCommand = soloSet, eChange = None\<rparr>"
  "committedCurrentTermLocked (nodes solo1 ''n1'')" "committedCurrentTermLocked (nodes solo2 ''n1'')"
  using solo1_node solo2_node
  by (simp_all add: hasEntry_def lastIncludedIndexLocked_def entryAtLocked_def sliceIndexLocked_def
      committedCurrentTermLocked_def termAtLocked_def numeral_2_eq_2)

lemma solo_put: "putOf \<lparr>eTerm = 1, eIndex = 2, eCommand = soloSet, eChange = None\<rparr> = Some (''k'', ''v'')"
proof -
  have v: "valid_utf8 opPut" "valid_utf8 ''k''" "valid_utf8 ''v''" by code_simp+
  have "soloSet \<noteq> []" by (simp add: soloSet_def emit_def jCommand_def)
  then show ?thesis
    using unmarshal_command[of "\<lparr>cmdOp = opPut, cmdKey = ''k'', cmdValue = ''v''\<rparr>"] v by (simp add: putOf_def soloSet_def)
qed


lemma solo_quorum: "is_majority [''n1''] {''n1''}"
  by (simp add: is_majority_def)

theorem election_safety_witness:
  "\<exists>!j. j \<in> set (cIds (clusterNet soloConfig)) \<and> state (nodes solo1 j) = Leader \<and> currentTerm (nodes solo1 j) = 1"
proof (rule ex1I)
  show l: "''n1'' \<in> set (cIds (clusterNet soloConfig)) \<and> state (nodes solo1 ''n1'') = Leader \<and> currentTerm (nodes solo1 ''n1'') = 1"
    using solo1_node by simp
  show "j = ''n1''" if "j \<in> set (cIds (clusterNet soloConfig)) \<and> state (nodes solo1 j) = Leader \<and> currentTerm (nodes solo1 j) = 1" for j
    by (rule election_safety[OF clusterNet_ok[OF solo_setup] solo_run(1)]) (use l that in auto)
qed

theorem log_matching_witness:
  "termAtLocked (nodes solo2 ''n1'') 2 = Some 1 \<and>
   hasEntry (nodes solo2 ''n1'') 1 \<lparr>eTerm = 1, eIndex = 1, eCommand = [], eChange = None\<rparr>"
proof -
  have t: "termAtLocked (nodes solo2 ''n1'') 2 = Some 1"
    by (simp add: termAtLocked_def entryAtLocked_def sliceIndexLocked_def lastIncludedIndexLocked_def solo2_node numeral_2_eq_2)
  note m = log_matching[OF clusterNet_ok[OF solo_setup] solo_run(2) _ _ t t solo_entries(2) solo_entries(2)]
  show ?thesis using m t solo_entries(2) by simp
qed

theorem state_machine_safety_witness:
  "\<exists>H. explains (clusterNet soloConfig) H solo1 \<and> explains (clusterNet soloConfig) H solo2"
  by (rule state_machine_safety[OF clusterNet_ok[OF solo_setup] solo_run(1,3)])

theorem leader_has_committed_witness:
  "2 \<le> lastLogIndexLocked (nodes solo2 ''n1'')"
  using leader_has_committed[OF clusterNet_ok[OF solo_setup] solo_run(2) _ _ solo2_node(1) _ solo_entries(3)] solo2_node
  by simp



theorem indices_ordered_witness:
  "lastApplied (nodes solo2 ''n1'') \<le> lastLogIndexLocked (nodes solo2 ''n1'')"
  using indices_ordered[OF clusterNet_ok[OF solo_setup] solo_run(2), of "''n1''"] by simp

theorem nodes_well_formed_witness: "log_ok (rlog (nodes solo2 ''n1''))"
  using nodes_well_formed[OF clusterNet_ok[OF solo_setup] solo_run(2), of "''n1''"] by simp



theorem replicas_agree_witness:
  "store (world (nodes solo2 ''n1'')) = store (world (nodes solo2 ''n1'')) \<and> lastApplied (nodes solo2 ''n1'') = 2"
  using replicas_agree[OF solo_setup solo_run(2,4), of "''n1''" "''n1''"] solo2_node by simp



definition soloPut :: "disk_files put_run" where
  "soloPut = \<lparr>prCheck = nodes solo1 ''n1'', prPropose = nodes solo1 ''n1'', prWait = [], prLead1 = nodes solo1 ''n1'',
     prLead2 = nodes solo1 ''n1''\<rparr>"

definition soloGet :: "disk_files get_run" where
  "soloGet = \<lparr>grRead = \<lparr>rrWait = [(nodes solo2 ''n1'', SelTick)], rrNode = nodes solo2 ''n1'', rrRemain1 = 1,
       rrConfNode = nodes solo2 ''n1'', rrConf = [], rrRemain2 = 1, rrApplied = [WaitTick (nodes solo2 ''n1'')],
       rrEnd = nodes solo2 ''n1''\<rparr>,
     grStore = nodes solo2 ''n1'', grLead1 = nodes solo2 ''n1'', grLead2 = nodes solo2 ''n1''\<rparr>"

theorem put_rejected_witness: "\<exists>err. Put [] ''v'' soloPut = (Some (Some err), nodes solo1 ''n1'')"
  using put_rejected[of "[]" soloPut "''v''"] by (simp add: soloPut_def)

theorem get_confirmed_witness: "majority (nodes solo2 ''n1'') \<le> 1"
proof -
  have "Get ''k'' soloGet = Some (Inr (Store_Get ''k'' (store (world (nodes solo2 ''n1'')))))"
    by (simp add: Get_def ReadIndex_def soloGet_def waitCurrentTermIter_def confirmLeadership_def majority_def
        solo2_node solo_entries(5) Let_def)
  from get_confirmed[OF this] show ?thesis by (simp add: soloGet_def)
qed

definition soloUp :: Cluster where
  "soloUp = (Cluster_New soloConfig True)\<lparr>clMembers := fmupd ''n1''
     \<lparr>mID = ''n1'', mNode = nodes solo1 ''n1'', mCrashed = False\<rparr> fmempty\<rparr>"

definition noLeader :: change_run where
  "noLeader = \<lparr>crEnv = \<lparr>now = 0, rnd = 0\<rparr>, crListen = [True], crPolls = [], crPropose = (\<lambda>i n. n), crWait = [],
     crEnd = (\<lambda>i n. n)\<rparr>"

theorem leader_http_correct_witness: "Cluster_LeaderHTTP soloUp soloUp = ''127.0.0.1:18101'' \<and> leads soloUp ''n1''"
proof -
  have v: "Cluster_LeaderHTTP soloUp soloUp = ''127.0.0.1:18101''"
    by (simp add: Cluster_LeaderHTTP_def Cluster_Snapshot_def viewOf_def soloUp_def Cluster_New_def soloConfig_def Let_def
        Server_Status_def solo1_node State_String_def Isolated_def NewFaults_def map_get_def)
  then obtain i where "leads soloUp i" using leader_http_correct[of soloUp] by auto
  then have "leads soloUp ''n1''" by (auto simp: leads_def soloUp_def Cluster_New_def)
  with v show ?thesis by simp
qed

theorem failed_add_keeps_config_witness:
  "''n2'' \<in> set (IDs (clCfg (snd (Cluster_Add ''n2'' ''a'' ''h'' noLeader (Cluster_New soloConfig True)))))"
proof -
  have "fst (Cluster_Add ''n2'' ''a'' ''h'' noLeader (Cluster_New soloConfig True)) = Some (Some (ErrMsg ''no leader to add member''))"
    by (simp add: Cluster_Add_def addAddrs_def running_def Cluster_New_def startMemberJoin_def addConfig_def noLeader_def listens_def)
  then show ?thesis using failed_add_keeps_config by (metis prod.collapse)
qed


theorem cluster_invariant_witness: "cluster_ok (snd (Cluster_Crash ''n1'' (snd (Cluster_Start (\<lambda>i. \<lparr>now = 0, rnd = 0\<rparr>)
     (\<lambda>i. [True]) (Cluster_New soloConfig True)))))"
  by (rule cluster_invariant[of soloConfig]) (simp_all add: cl_crash cl_start cl_new)


subsection \<open>Three nodes\<close>

text \<open>The development cluster: a candidate gets the vote of a second node.\<close>

definition devReq :: RequestVoteRequest where
  "devReq = \<lparr>rvTerm = 1, rvCandidateID = ''n1'', rvLastLogIndex = 0, rvLastLogTerm = 0\<rparr>"

definition dev0 :: "(KvWorld, disk_files) Sys" where
  "dev0 = \<lparr>nodes = \<lambda>i. boot (memberBoot DevConfig i False) \<lparr>now = 0, rnd = 0\<rparr> fmempty, msgs = {}\<rparr>"

definition dev1 :: "(KvWorld, disk_files) Sys" where
  "dev1 = deliver (clusterNet DevConfig) ''n1'' (EvTick \<lparr>now = 2 * Second, rnd = 0\<rparr>) {} dev0"

definition dev2 :: "(KvWorld, disk_files) Sys" where
  "dev2 = dev1\<lparr>msgs := insert (VoteReq ''n1'' ''n2'' devReq) (msgs dev1)\<rparr>"

definition dev3 :: "(KvWorld, disk_files) Sys" where
  "dev3 = deliver (clusterNet DevConfig) ''n2'' (EvVote \<lparr>now = 2 * Second, rnd = 0\<rparr> devReq)
     {VoteResp ''n2'' ''n1'' devReq \<lparr>rvrTerm = 1, rvrVoteGranted = True\<rparr>} dev2"

lemma dev_setup: "setup_ok DevConfig"
proof -
  have "valid_utf8 ''n1''" "valid_utf8 ''n2''" "valid_utf8 ''n3''" "valid_utf8 ''127.0.0.1:19101''" "valid_utf8 ''127.0.0.1:18101''"
    "valid_utf8 ''127.0.0.1:19102''" "valid_utf8 ''127.0.0.1:18102''" "valid_utf8 ''127.0.0.1:19103''" "valid_utf8 ''127.0.0.1:18103''"
    by code_simp+
  then show ?thesis
    by (auto simp: setup_ok_def DevConfig_def plainName_def slash_def valid_map_def map_get_def map_keys_def)
qed

lemma dev_keys: "DataDir DevConfig = ''data''" "set (map_keys (RaftAddrs DevConfig)) = {''n1'', ''n2'', ''n3''}"
  "map_has (RaftAddrs DevConfig) ''n1''" "map_has (RaftAddrs DevConfig) ''n2''" "length (map_keys (RaftAddrs DevConfig)) = 3"
  by (auto simp: DevConfig_def map_keys_def map_has_def)

lemma dev_goroutine: "goroutine.SendRequestVote ''n2'' devReq \<in> set (goroutines (nodes dev1 ''n1''))"
proof -
  let ?n = "nodes dev0 ''n1''" and ?e = "\<lparr>now = 2 * Second, rnd = 0\<rparr>"
  have n: "?n = boot (memberBoot DevConfig ''n1'' False) \<lparr>now = 0, rnd = 0\<rparr> fmempty" by (simp add: dev0_def)
  note f = member_fields[of DevConfig "''n1''" "\<lparr>now = 0, rnd = 0\<rparr>", folded n, unfolded dev_keys, simplified]
  have v: "isVoterLocked ?n" "electionDeadline ?n \<le> now ?e"
    using f by (simp_all add: isVoterLocked_def dev_keys Second_def Millisecond_def)
  have "goroutine.SendRequestVote ''n2'' devReq \<in> set (goroutines (startElectionLocked ?e ?n))"
    using f v(1) dev_keys
    by (simp add: startElectionLocked_def Let_def majority_def map_len_def voteRequest_def devReq_def
        lastLogIndexLocked_def lastLogTermLocked_def)
  then show ?thesis using f v by (simp add: dev1_def deliver_def handle_def tick_def)
qed

lemma dev_run: "reach (clusterNet DevConfig) dev3"
proof -
  let ?K = "clusterNet DevConfig" and ?n = "nodes dev2 ''n2''"
  have n: "?n = boot (memberBoot DevConfig ''n2'' False) \<lparr>now = 0, rnd = 0\<rparr> fmempty"
    by (simp add: dev2_def dev1_def dev0_def deliver_def)
  note f = member_fields[of DevConfig "''n2''" "\<lparr>now = 0, rnd = 0\<rparr>", folded n, unfolded dev_keys, simplified]
  have "reach ?K dev0" by (rule reach_init[OF fresh_init]) (simp_all add: dev0_def dev_keys)
  moreover have "sys_step ?K dev0 dev1" unfolding dev1_def by (rule sys_step.local_step) (simp_all add: dev_keys)
  moreover have "sys_step ?K dev1 dev2" unfolding dev2_def
    by (rule sys_step.send_vote[OF _ dev_goroutine]) (simp add: dev_keys)
  moreover have "fst (HandleRequestVote \<lparr>now = 2 * Second, rnd = 0\<rparr> devReq ?n) = \<lparr>rvrTerm = 1, rvrVoteGranted = True\<rparr>"
    using f by (simp add: HandleRequestVote_def Let_def devReq_def becomeFollowerLocked_def isLogUpToDateLocked_def
        lastLogTermLocked_def lastLogIndexLocked_def persistLocked_def)
  then have "sys_step ?K dev2 dev3" unfolding dev3_def
    by (intro sys_step.recv_vote[OF _ _ prod_eqI]) (auto simp: dev2_def dev_keys)
  ultimately show ?thesis by (meson reach_step)
qed

theorem one_vote_per_term_witness:
  "\<exists>!c. VoteResp ''n2'' c devReq \<lparr>rvrTerm = 1, rvrVoteGranted = True\<rparr> \<in> msgs dev3"
proof -
  have m: "VoteResp ''n2'' ''n1'' devReq \<lparr>rvrTerm = 1, rvrVoteGranted = True\<rparr> \<in> msgs dev3"
    by (simp add: dev3_def deliver_def)
  show ?thesis
  proof (rule ex1I)
    show "VoteResp ''n2'' ''n1'' devReq \<lparr>rvrTerm = 1, rvrVoteGranted = True\<rparr> \<in> msgs dev3" by (rule m)
    show "c = ''n1''" if "VoteResp ''n2'' c devReq \<lparr>rvrTerm = 1, rvrVoteGranted = True\<rparr> \<in> msgs dev3" for c
      by (rule one_vote_per_term[OF clusterNet_ok[OF dev_setup] dev_run that _ m]) simp_all
  qed
qed

end
