(* ===== verification/Go_Http.thy ===== *)
theory Go_Http
  imports Go_Strings Go_Marshal
begin

text \<open>
  The parts of Go's packages \<open>net/url\<close> and \<open>net/http\<close> the repository relies on: percent encoding of
  paths, parsing of the URL of an outgoing request, and the routing of \<open>http.ServeMux\<close> with methods
  and wildcards.  A request carries its path as it is on the wire, percent encoded.  Addresses are
  a name or number with an optional port; other forms of the authority of a URL (user names,
  brackets, percent escapes) are treated as malformed.
\<close>

subsection \<open>Percent encoding\<close>

fun pathUnescape :: "string \<Rightarrow> string option" where
  "pathUnescape [] = Some []"
| "pathUnescape (c # cs) =
     (if c = CHR ''%'' then
        (case cs of
           a # b # ds \<Rightarrow>
             (case (hexVal a, hexVal b) of
                (Some x, Some y) \<Rightarrow> map_option ((#) (char_of (16 * x + y))) (pathUnescape ds)
              | _ \<Rightarrow> None)
         | _ \<Rightarrow> None)
      else map_option ((#) c) (pathUnescape cs))"

definition alnum :: "char \<Rightarrow> bool" where
  "alnum c \<longleftrightarrow> isDigit c \<or> code (CHR ''A'') \<le> code c \<and> code c \<le> code (CHR ''Z'') \<or>
     code (CHR ''a'') \<le> code c \<and> code c \<le> code (CHR ''z'')"

text \<open>\<open>shouldEscape\<close> in the mode for paths, and \<open>validEncoded\<close>.\<close>

definition shouldEscape :: "char \<Rightarrow> bool" where
  "shouldEscape c \<longleftrightarrow> \<not> (alnum c \<or> c \<in> set ''-_.~$&+,/:;=@'')"

definition validEncoded :: "string \<Rightarrow> bool" where
  "validEncoded s = list_all (\<lambda>c. c \<in> set ''![]%()*'' \<or> c = CHR 0x27 \<or> \<not> shouldEscape c) s"

definition upperHex :: "nat \<Rightarrow> char" where
  "upperHex k = ''0123456789ABCDEF'' ! k"

definition pathEscape :: "string \<Rightarrow> string" where
  "pathEscape s = concat (map (\<lambda>c. if shouldEscape c
     then [CHR ''%'', upperHex (code c div 16), upperHex (code c mod 16)] else [c]) s)"

text \<open>\<open>EscapedPath\<close> of a URL whose path was parsed from \<open>p\<close>.\<close>

definition escapedPath :: "string \<Rightarrow> string" where
  "escapedPath p = (if validEncoded p then p else case pathUnescape p of None \<Rightarrow> p | Some q \<Rightarrow> pathEscape q)"

subsection \<open>URLs of outgoing requests\<close>

definition hostOk :: "string \<Rightarrow> bool" where
  "hostOk a \<longleftrightarrow> list_all (\<lambda>c. alnum c \<or> c \<in> set ''-_.~:'') a \<and> (let (name, port, colon) = cut (CHR '':'') a in list_all isDigit port)"

definition isCTL :: "char \<Rightarrow> bool" where
  "isCTL c \<longleftrightarrow> code c < 32 \<or> code c = 127"

text \<open>The authority, the path as it is sent and the query of \<open>http://\<close> followed by \<open>s\<close>.\<close>

definition parseHTTP :: "string \<Rightarrow> (string \<times> string \<times> string) option" where
  "parseHTTP s =
     (let (u, frag, _) = cut (CHR ''#'') s;
          (r, query, _) = cut (CHR ''?'') u;
          authority = takeWhile (\<lambda>c. c \<noteq> slash) r;
          path = dropWhile (\<lambda>c. c \<noteq> slash) r
      in if list_ex isCTL u \<or> \<not> hostOk authority \<or> pathUnescape path = None \<or> pathUnescape frag = None then None
         else Some (authority, if path = [] then [slash] else escapedPath path, query))"

subsection \<open>Requests and responses\<close>

text \<open>
  Of the headers the model keeps \<open>Content-Type\<close> and \<open>X-Raft-Forwarded\<close>; the empty string stands for a
  header that is not set.  \<open>rqFail\<close> is the error of reading the body, if there is one.
\<close>

record HttpRequest =
  rqMethod :: string
  rqPath :: string
  rqQuery :: string
  rqType :: string
  rqForwarded :: string
  rqBody :: string
  rqFail :: "string option"

record HttpResponse =
  rsStatus :: int
  rsType :: string
  rsBody :: string

datatype reply = Redirected string | Reply HttpResponse

text \<open>\<open>r.URL.Path\<close>.\<close>

definition urlPath :: "HttpRequest \<Rightarrow> string" where
  "urlPath r = (case pathUnescape (rqPath r) of None \<Rightarrow> rqPath r | Some p \<Rightarrow> p)"

definition newline :: string where "newline = [char_of (10 :: nat)]"

definition http_Error :: "string \<Rightarrow> int \<Rightarrow> HttpResponse" where
  "http_Error msg status = \<lparr>rsStatus = status, rsType = ''text/plain; charset=utf-8'', rsBody = msg @ newline\<rparr>"

definition http_NotFound :: HttpResponse where
  "http_NotFound = http_Error ''404 page not found'' 404"

text \<open>A response with a JSON body, as \<open>json.NewEncoder(w).Encode\<close> writes it.\<close>

definition writeJSON :: "int \<Rightarrow> json \<Rightarrow> HttpResponse" where
  "writeJSON status v = \<lparr>rsStatus = status, rsType = ''application/json'', rsBody = emit v @ newline\<rparr>"

subsection \<open>Routing\<close>

datatype seg = Lit string | Var

record pattern =
  ptMethod :: string
  ptSegs :: "seg list"
  ptRest :: bool

text \<open>
  \<open>ptRest\<close> marks a pattern that ends in a slash and so matches every path below it.  The segments of a
  path are compared after unescaping, and a wildcard does not match a single slash, which also stands
  for the empty segment after a trailing slash.
\<close>

definition segments :: "string \<Rightarrow> string list" where
  "segments p = map (\<lambda>s. if s = [] then [slash] else case pathUnescape s of None \<Rightarrow> s | Some t \<Rightarrow> t) (splitOn slash (drop 1 p))"

fun matchSegs :: "seg list \<Rightarrow> bool \<Rightarrow> string list \<Rightarrow> string list option" where
  "matchSegs [] rest ss = (if rest \<or> ss = [] then Some [] else None)"
| "matchSegs (p # ps) rest [] = None"
| "matchSegs (Lit l # ps) rest (s # ss) = (if s = l then matchSegs ps rest ss else None)"
| "matchSegs (Var # ps) rest (s # ss) = (if s \<noteq> [slash] then map_option ((#) s) (matchSegs ps rest ss) else None)"

definition methodOk :: "string \<Rightarrow> string \<Rightarrow> bool" where
  "methodOk pat m \<longleftrightarrow> m = pat \<or> pat = ''GET'' \<and> m = ''HEAD''"

definition cleanPath :: "string \<Rightarrow> string" where
  "cleanPath p0 =
     (let p = (if hasPrefix p0 [slash] then p0 else slash # p0); np = pathClean p in
      if last p = slash \<and> np \<noteq> [slash] then np @ [slash] else np)"

text \<open>
  The table lists its patterns so that a more specific one comes first.  The result of a lookup is the
  handler with the values of the wildcards.
\<close>

type_synonym 'h mux = "(pattern \<times> 'h) list"

datatype 'h route = Go 'h "string list" | GoClean string | NoMethod | NoPath

fun findRoute :: "'h mux \<Rightarrow> string \<Rightarrow> string list \<Rightarrow> ('h \<times> string list) option" where
  "findRoute [] m ss = None"
| "findRoute ((p, h) # ps) m ss =
     (if methodOk (ptMethod p) m then
        (case matchSegs (ptSegs p) (ptRest p) ss of Some vs \<Rightarrow> Some (h, vs) | None \<Rightarrow> findRoute ps m ss)
      else findRoute ps m ss)"

definition route :: "'h mux \<Rightarrow> HttpRequest \<Rightarrow> 'h route" where
  "route ps r =
     (let path = cleanPath (rqPath r); ss = segments path in
      if path \<noteq> rqPath r then GoClean (pathEscape path @ (if rqQuery r = [] then [] else CHR ''?'' # rqQuery r))
      else case findRoute ps (rqMethod r) ss of
        Some (h, vs) \<Rightarrow> Go h vs
      | None \<Rightarrow> if list_ex (\<lambda>(p, h). matchSegs (ptSegs p) (ptRest p) ss \<noteq> None) ps then NoMethod else NoPath)"

subsection \<open>Facts\<close>

lemma upperHex_val: "k < 16 \<Longrightarrow> hexVal (upperHex k) = Some k"
proof -
  have "list_all (\<lambda>k. hexVal (upperHex k) = Some k) [0..<16]" by code_simp
  then show "k < 16 \<Longrightarrow> hexVal (upperHex k) = Some k" by (simp add: list_all_iff del: upt.simps)
qed

lemma unescape_escape: "pathUnescape (pathEscape s) = Some s"
proof (induction s)
  case (Cons c s)
  have c: "code c div 16 < 16" "code c mod 16 < 16" by (simp_all add: less_mult_imp_div_less)
  show ?case
  proof (cases "shouldEscape c")
    case True
    then show ?thesis using Cons upperHex_val[OF c(1)] upperHex_val[OF c(2)]
      by (simp add: pathEscape_def)
  next
    case False
    then have "c \<noteq> CHR ''%''" by (auto simp: shouldEscape_def alnum_def isDigit_def)
    then show ?thesis using Cons False by (simp add: pathEscape_def)
  qed
qed (simp add: pathEscape_def)

lemma unescape_plain: "CHR ''%'' \<notin> set s \<Longrightarrow> pathUnescape s = Some s"
  by (induction s) auto


text \<open>A clean path: names joined by slashes.\<close>

lemma push_names: "list_all plainName cs \<Longrightarrow> foldl (pushComp r) acc cs = acc @ cs"
  by (induction cs arbitrary: acc) (auto simp: pushComp_def plainName_def)

lemma cleanPath_names:
  assumes "cs \<noteq> []" "list_all plainName cs"
  shows "cleanPath (slash # joinOn slash cs) = slash # joinOn slash cs"
    "segments (slash # joinOn slash cs) = map (\<lambda>s. case pathUnescape s of None \<Rightarrow> s | Some t \<Rightarrow> t) cs"
proof -
  have "\<forall>x \<in> set cs. slash \<notin> set x" using assms(2) by (auto simp: list_all_iff plainName_def)
  then have s: "splitOn slash (joinOn slash cs) = cs" by (rule splitOn_joinOn[OF assms(1)])
  then show "segments (slash # joinOn slash cs) = map (\<lambda>s. case pathUnescape s of None \<Rightarrow> s | Some t \<Rightarrow> t) cs"
    using assms(2) by (simp add: segments_def list_all_iff plainName_def)
  have "pathClean (slash # joinOn slash cs) = slash # joinOn slash cs"
    using s push_names[OF assms(2)] by (simp add: pathClean_def resolve_def hasPrefix_def pushComp_def render_def Let_def)
  moreover have "last (slash # joinOn slash cs) \<noteq> slash"
  proof -
    from assms(1) obtain ds d where cs: "cs = ds @ [d]" by (metis rev_exhaust)
    then have d: "plainName d" "d \<noteq> []" using assms(2) by (auto simp: plainName_def)
    then have "last d \<noteq> slash" using last_in_set[of d] by (auto simp: plainName_def simp del: last_in_set)
    then show ?thesis using d(2) cs by (cases "ds = []") (auto simp: joinOn_snoc)
  qed
  ultimately show "cleanPath (slash # joinOn slash cs) = slash # joinOn slash cs"
    by (simp add: cleanPath_def hasPrefix_def Let_def)
qed

text \<open>A name that needs no escaping.\<close>

definition pathName :: "string \<Rightarrow> bool" where
  "pathName s \<longleftrightarrow> plainName s \<and> list_all (\<lambda>c. \<not> shouldEscape c) s"

lemma pathName_unescape: "pathName s \<Longrightarrow> pathUnescape s = Some s"
  by (rule unescape_plain) (auto simp: pathName_def list_all_iff shouldEscape_def alnum_def isDigit_def)

lemma route_names:
  assumes "rqPath r = slash # joinOn slash cs" "cs \<noteq> []" "list_all pathName cs"
  shows "route ps r = (case findRoute ps (rqMethod r) cs of
     Some (h, vs) \<Rightarrow> Go h vs
   | None \<Rightarrow> if list_ex (\<lambda>(p, h). matchSegs (ptSegs p) (ptRest p) cs \<noteq> None) ps then NoMethod else NoPath)"
proof -
  have "list_all plainName cs" "map (\<lambda>s. case pathUnescape s of None \<Rightarrow> s | Some t \<Rightarrow> t) cs = cs"
    using assms(3) pathName_unescape by (auto simp: list_all_iff pathName_def intro!: map_idI)
  with cleanPath_names[OF assms(2)] show ?thesis by (simp add: route_def assms(1) Let_def)
qed

text \<open>An address followed by a path without special characters is sent as it is.\<close>

lemma cut_absent: "c \<notin> set s \<Longrightarrow> cut c s = (s, [], False)"
  by (induction s) (auto simp: cut_def)

lemma cut_present: "c \<notin> set s \<Longrightarrow> cut c (s @ c # t) = (s, t, True)"
  by (auto simp: cut_def takeWhile_append dropWhile_append takeWhile_eq_all_conv)

lemma alnum_plain: "alnum c \<Longrightarrow> c \<noteq> CHR ''#'' \<and> c \<noteq> CHR ''?'' \<and> c \<noteq> CHR ''/'' \<and> c \<noteq> CHR ''%'' \<and> \<not> isCTL c"
  by (auto simp: alnum_def isDigit_def isCTL_def)

lemma hostOk_plain:
  assumes "hostOk a"
  shows "CHR ''#'' \<notin> set a" "CHR ''?'' \<notin> set a" "slash \<notin> set a" "\<not> list_ex isCTL a"
proof -
  have a: "alnum c \<or> c \<in> set ''-_.~:''" if "c \<in> set a" for c using assms that by (simp add: hostOk_def list_all_iff)
  show "CHR ''#'' \<notin> set a" "CHR ''?'' \<notin> set a" "slash \<notin> set a"
    using a alnum_plain by (fastforce simp: slash_def)+
  show "\<not> list_ex isCTL a" using a alnum_plain by (fastforce simp: list_ex_iff isCTL_def)
qed

lemma noescape_plain:
  "\<not> shouldEscape c \<Longrightarrow> c \<noteq> CHR ''#'' \<and> c \<noteq> CHR ''?'' \<and> c \<noteq> CHR ''%'' \<and> \<not> isCTL c"
  using alnum_plain[of c] by (auto simp: shouldEscape_def isCTL_def)

lemma parseHTTP_split:
  assumes "hostOk a" "hasPrefix p [slash]" "list_all (\<lambda>c. \<not> shouldEscape c) p"
  shows "parseHTTP (a @ p) = Some (a, p, [])"
    "CHR ''#'' \<notin> set q \<Longrightarrow> \<not> list_ex isCTL q \<Longrightarrow> parseHTTP (a @ p @ CHR ''?'' # q) = Some (a, p, q)"
proof -
  have p: "CHR ''#'' \<notin> set p" "CHR ''?'' \<notin> set p" "CHR ''%'' \<notin> set p" "\<not> list_ex isCTL p"
    using assms(3) noescape_plain by (auto simp: list_all_iff list_ex_iff)
  obtain p' where p': "p = slash # p'" using assms(2) by (cases p) (auto simp: hasPrefix_def)
  have sp: "takeWhile (\<lambda>c. c \<noteq> slash) (a @ p) = a" "dropWhile (\<lambda>c. c \<noteq> slash) (a @ p) = p"
    using hostOk_plain(3)[OF assms(1)] by (auto simp: p' takeWhile_append dropWhile_append takeWhile_eq_all_conv)
  have e: "escapedPath p = p" "pathUnescape p = Some p"
    using assms(3) unescape_plain[OF p(3)] by (auto simp: escapedPath_def validEncoded_def list_all_iff)
  note h = hostOk_plain[OF assms(1)]
  show "parseHTTP (a @ p) = Some (a, p, [])"
    using h p e sp assms(1) cut_absent[of "CHR ''#''" "a @ p"] cut_absent[of "CHR ''?''" "a @ p"]
    by (simp add: parseHTTP_def Let_def p')
  show "parseHTTP (a @ p @ CHR ''?'' # q) = Some (a, p, q)" if "CHR ''#'' \<notin> set q" "\<not> list_ex isCTL q"
    using h p e sp assms(1) that cut_absent[of "CHR ''#''" "a @ p @ CHR ''?'' # q"] cut_present[of "CHR ''?''" "a @ p" q]
    by (simp add: parseHTTP_def Let_def p' isCTL_def)
qed

end
