(* ===== verification/Cluster_Http.thy ===== *)
theory Cluster_Http
  imports Cluster Go_Http
begin

text \<open>
  The control plane of the in-process cluster (\<open>cluster/http.go\<close>): the routes, the operation each one
  runs on the cluster, and the JSON answers.
\<close>

subsection \<open>Answers\<close>

definition omitEmpty :: "string \<Rightarrow> string \<Rightarrow> (string \<times> json) list" where
  "omitEmpty k s = (if s = [] then [] else [(k, JStr s)])"

definition jStrings :: "string list \<Rightarrow> json" where
  "jStrings ss = JArr (map JStr ss)"

definition jView :: "View \<Rightarrow> json" where
  "jView v = JObj ([(''id'', JStr (vID v)), (''state'', JStr (vState v)), (''term'', jInt (vTerm v)),
     (''leader_id'', JStr (vLeaderID v))] @ omitEmpty ''leader_http'' (vLeaderHTTP v) @
    [(''commit_index'', jInt (vCommitIndex v)), (''snapshot_index'', jInt (vSnapshotIndex v)),
     (''log_len'', jInt (vLogLen v)), (''kv_size'', jInt (vKVSize v))] @
    (if vPeers v = [] then [] else [(''peers'', jStrings (vPeers v))]) @
    [(''http'', JStr (vHTTP v)), (''isolated'', JBool (vIsolated v)), (''crashed'', JBool (vCrashed v))])"

definition jNodes :: "Cluster \<Rightarrow> json" where
  "jNodes c = JArr (map jView (Cluster_Snapshot c))"

text \<open>The keys of a Go map are written in order.\<close>

definition jOk :: "Cluster \<Rightarrow> json" where
  "jOk c = JObj [(''nodes'', jNodes c), (''ok'', JBool True)]"

definition jError :: "string \<Rightarrow> json" where
  "jError msg = JObj [(''error'', JStr msg), (''ok'', JBool False)]"

definition jHelp :: json where
  "jHelp = JObj [(''help'', JStr ''chaos control plane for the -dev cluster''),
     (''try'', jStrings [
       ''curl -s http://127.0.0.1:18280/cluster'',
       ''curl -s -X POST http://127.0.0.1:18280/chaos/crash/n2'',
       ''curl -s -X POST http://127.0.0.1:18280/chaos/isolate/n2'',
       ''curl -s -X POST http://127.0.0.1:18280/chaos/heal/n2'',
       ''curl -s -X POST http://127.0.0.1:18280/chaos/restart/n2'',
       ''curl -s -X POST http://127.0.0.1:18280/chaos/partition/n1/n2'',
       ''curl -s -X POST http://127.0.0.1:18280/chaos/heal-all'',
       ''curl -s -X POST http://127.0.0.1:18280/cluster/add/n4'',
       ''curl -s -X POST http://127.0.0.1:18280/cluster/remove/n4''])]"

subsection \<open>Routes\<close>

datatype control =
    CtlHelp | CtlCluster | CtlIsolate | CtlHeal | CtlCrash | CtlRestart | CtlPartition | CtlHealAll | CtlAdd | CtlRemove

definition control_mux :: "control mux" where
  "control_mux =
     [(\<lparr>ptMethod = ''GET'', ptSegs = [Lit ''cluster''], ptRest = False\<rparr>, CtlCluster),
      (\<lparr>ptMethod = ''POST'', ptSegs = [Lit ''chaos'', Lit ''isolate'', Var], ptRest = False\<rparr>, CtlIsolate),
      (\<lparr>ptMethod = ''POST'', ptSegs = [Lit ''chaos'', Lit ''heal'', Var], ptRest = False\<rparr>, CtlHeal),
      (\<lparr>ptMethod = ''POST'', ptSegs = [Lit ''chaos'', Lit ''crash'', Var], ptRest = False\<rparr>, CtlCrash),
      (\<lparr>ptMethod = ''POST'', ptSegs = [Lit ''chaos'', Lit ''restart'', Var], ptRest = False\<rparr>, CtlRestart),
      (\<lparr>ptMethod = ''POST'', ptSegs = [Lit ''chaos'', Lit ''partition'', Var, Var], ptRest = False\<rparr>, CtlPartition),
      (\<lparr>ptMethod = ''POST'', ptSegs = [Lit ''chaos'', Lit ''heal-all''], ptRest = False\<rparr>, CtlHealAll),
      (\<lparr>ptMethod = ''POST'', ptSegs = [Lit ''cluster'', Lit ''add'', Var], ptRest = False\<rparr>, CtlAdd),
      (\<lparr>ptMethod = ''POST'', ptSegs = [Lit ''cluster'', Lit ''remove'', Var], ptRest = False\<rparr>, CtlRemove),
      (\<lparr>ptMethod = ''GET'', ptSegs = [], ptRest = True\<rparr>, CtlHelp)]"

text \<open>
  What surrounds a request: the clock, the attempts to listen, the course of a membership change, and
  what the nodes do before each snapshot the handler takes.
\<close>

record control_run =
  ctEnv :: Env
  ctListen :: "bool list"
  ctChange :: change_run
  ctSnap :: "string \<Rightarrow> kv_node \<Rightarrow> kv_node"
  ctLead1 :: "string \<Rightarrow> kv_node \<Rightarrow> kv_node"
  ctLead2 :: "string \<Rightarrow> kv_node \<Rightarrow> kv_node"

text \<open>The operation of a route with the values of its wildcards; \<open>None\<close> while it waits.\<close>

fun control_op :: "control \<Rightarrow> string list \<Rightarrow> control_run \<Rightarrow> Cluster \<Rightarrow> raft_error option option \<times> Cluster" where
  "control_op CtlIsolate [i] run c = apfst Some (Cluster_Isolate i c)"
| "control_op CtlHeal [i] run c = apfst Some (Cluster_Heal i c)"
| "control_op CtlCrash [i] run c = apfst Some (Cluster_Crash i c)"
| "control_op CtlRestart [i] run c = apfst Some (Cluster_Restart (ctEnv run) (ctListen run) i c)"
| "control_op CtlPartition [a, b] run c = apfst Some (Cluster_Partition a b c)"
| "control_op CtlHealAll [] run c = (Some None, Cluster_HealAll c)"
| "control_op CtlAdd [i] run c = Cluster_Add i [] [] (ctChange run) c"
| "control_op CtlRemove [i] run c = Cluster_Remove i (ctChange run) c"
| "control_op _ _ run c = (Some None, c)"

definition chaos ::
  "(string \<Rightarrow> kv_node \<Rightarrow> kv_node) \<Rightarrow> raft_error option option \<times> Cluster \<Rightarrow> HttpResponse option \<times> Cluster" where
  "chaos g res = (case res of
     (None, c) \<Rightarrow> (None, c)
   | (Some (Some err), c) \<Rightarrow> (Some (writeJSON 400 (jError (raft_Error err))), c)
   | (Some None, c) \<Rightarrow> let c' = background g c in (Some (writeJSON 200 (jOk c')), c'))"

definition Cluster_Handler :: "HttpRequest \<Rightarrow> control_run \<Rightarrow> Cluster \<Rightarrow> reply option \<times> Cluster" where
  "Cluster_Handler r run c = (case route control_mux r of
     GoClean loc \<Rightarrow> (Some (Redirected loc), c)
   | NoMethod \<Rightarrow> (Some (Reply (http_Error ''Method Not Allowed'' 405)), c)
   | NoPath \<Rightarrow> (Some (Reply http_NotFound), c)
   | Go CtlHelp vs \<Rightarrow> (Some (Reply (if urlPath r \<noteq> [slash] then http_NotFound else writeJSON 200 jHelp)), c)
   | Go CtlCluster vs \<Rightarrow>
       (let c1 = background (ctSnap run) c; c2 = background (ctLead1 run) c1; c3 = background (ctLead2 run) c2 in
        (Some (Reply (writeJSON 200 (JObj [(''leader_http'', JStr (Cluster_LeaderHTTP c2 c3)), (''nodes'', jNodes c1),
           (''ok'', JBool True)]))), c3))
   | Go h vs \<Rightarrow> apfst (map_option Reply) (chaos (ctSnap run) (control_op h vs run c)))"


subsection \<open>Properties\<close>

text \<open>
  Every operation has its route.  The paths the help text names reach the operation they are
  named after, with the ids as they are in the path.
\<close>

theorem control_dispatch:
  assumes "pathName i" "pathName j" "rqMethod r = ''POST''"
  shows "list_all (\<lambda>(path, h, vs). route control_mux (r\<lparr>rqPath := path\<rparr>) = Go h vs)
    [(''/chaos/isolate/'' @ i, CtlIsolate, [i]), (''/chaos/heal/'' @ i, CtlHeal, [i]), (''/chaos/crash/'' @ i, CtlCrash, [i]),
     (''/chaos/restart/'' @ i, CtlRestart, [i]), (''/chaos/partition/'' @ i @ ''/'' @ j, CtlPartition, [i, j]),
     (''/chaos/heal-all'', CtlHealAll, []), (''/cluster/add/'' @ i, CtlAdd, [i]), (''/cluster/remove/'' @ i, CtlRemove, [i])]"
proof -
  have lits: "list_all pathName [''chaos'', ''cluster'', ''isolate'', ''heal'', ''crash'', ''restart'', ''partition'', ''heal-all'', ''add'', ''remove'']"
    by code_simp
  have ne: "i \<noteq> [slash]" "j \<noteq> [slash]" using assms(1,2) by (auto simp: pathName_def plainName_def)
  have r: "route control_mux (r\<lparr>rqPath := path\<rparr>) = Go h vs"
    if "path = slash # joinOn slash cs" "cs \<noteq> []" "list_all pathName cs" "findRoute control_mux ''POST'' cs = Some (h, vs)" for path cs h vs
    using route_names[of "r\<lparr>rqPath := path\<rparr>" cs control_mux] that assms(3) by simp
  have f: "findRoute control_mux ''POST'' [''chaos'', ''isolate'', i] = Some (CtlIsolate, [i])"
    "findRoute control_mux ''POST'' [''chaos'', ''heal'', i] = Some (CtlHeal, [i])"
    "findRoute control_mux ''POST'' [''chaos'', ''crash'', i] = Some (CtlCrash, [i])"
    "findRoute control_mux ''POST'' [''chaos'', ''restart'', i] = Some (CtlRestart, [i])"
    "findRoute control_mux ''POST'' [''chaos'', ''partition'', i, j] = Some (CtlPartition, [i, j])"
    "findRoute control_mux ''POST'' [''chaos'', ''heal-all''] = Some (CtlHealAll, [])"
    "findRoute control_mux ''POST'' [''cluster'', ''add'', i] = Some (CtlAdd, [i])"
    "findRoute control_mux ''POST'' [''cluster'', ''remove'', i] = Some (CtlRemove, [i])"
    using ne by (simp_all add: control_mux_def methodOk_def)
  show ?thesis
    using assms(1,2) lits r[OF _ _ _ f(1)] r[OF _ _ _ f(2)] r[OF _ _ _ f(3)] r[OF _ _ _ f(4)] r[OF _ _ _ f(5)] r[OF _ _ _ f(6)]
      r[OF _ _ _ f(7)] r[OF _ _ _ f(8)]
    by (simp add: slash_def)
qed

theorem control_dispatch_witness:
  "route control_mux \<lparr>rqMethod = ''POST'', rqPath = ''/chaos/crash/n2'', rqQuery = [], rqType = [], rqForwarded = [],
     rqBody = [], rqFail = None\<rparr> = Go CtlCrash [''n2'']"
proof -
  have "pathName ''n2''" by code_simp
  from control_dispatch[OF this this, of "\<lparr>rqMethod = ''POST'', rqPath = [], rqQuery = [], rqType = [], rqForwarded = [],
     rqBody = [], rqFail = None\<rparr>"] show ?thesis by simp
qed

lemma background_id: "background (\<lambda>i n. n) c = c"
proof -
  have "fmmap_keys (\<lambda>i m. if mCrashed m then m else m\<lparr>mNode := mNode m\<rparr>) (clMembers c) = clMembers c"
    by (intro fmap_ext) (simp add: option.map_ident_strong)
  then show ?thesis by (simp add: background_def)
qed

lemma background_comp: "background h (background g c) = background (\<lambda>i. h i \<circ> g i) c"
proof -
  have "fmmap_keys (\<lambda>i m. if mCrashed m then m else m\<lparr>mNode := h i (mNode m)\<rparr>)
      (fmmap_keys (\<lambda>i m. if mCrashed m then m else m\<lparr>mNode := g i (mNode m)\<rparr>) (clMembers c)) =
    fmmap_keys (\<lambda>i m. if mCrashed m then m else m\<lparr>mNode := h i (g i (mNode m))\<rparr>) (clMembers c)"
    by (intro fmap_ext) (auto simp: option.map_comp o_def intro!: option.map_cong0)
  then show ?thesis by (simp add: background_def o_def)
qed

lemma findRoute_method: "findRoute ps m ss = Some (h, vs) \<Longrightarrow> \<exists>p. (p, h) \<in> set ps \<and> methodOk (ptMethod p) m"
  by (induction ps m ss rule: findRoute.induct) (auto split: if_splits option.splits)

text \<open>
  C33: Only \<open>POST\<close> changes the cluster.  A request with another method leaves configuration, faults,
  members and disks alone; all that happens meanwhile is what the nodes do by themselves.
\<close>

theorem only_post_changes:
  assumes "rqMethod r \<noteq> ''POST''"
  shows "\<exists>g. snd (Cluster_Handler r run c) = background g c"
proof (cases "route control_mux r")
  case (Go h vs)
  then have "\<exists>p. (p, h) \<in> set control_mux \<and> methodOk (ptMethod p) (rqMethod r)"
    using findRoute_method[of control_mux "rqMethod r"] by (auto simp: route_def Let_def split: if_splits option.splits)
  then have "h = CtlHelp \<or> h = CtlCluster" using assms by (auto simp: control_mux_def methodOk_def)
  then show ?thesis
    using Go background_id[of c, symmetric] by (auto simp: Cluster_Handler_def Let_def background_comp)
qed (use background_id[of c, symmetric] in \<open>auto simp: Cluster_Handler_def\<close>)


definition quietControl :: control_run where
  "quietControl = \<lparr>ctEnv = \<lparr>now = 0, rnd = 0\<rparr>, ctListen = [], ctChange = \<lparr>crEnv = \<lparr>now = 0, rnd = 0\<rparr>, crListen = [], crPolls = [],
     crPropose = (\<lambda>i n. n), crWait = [], crEnd = (\<lambda>i n. n)\<rparr>, ctSnap = (\<lambda>i n. n), ctLead1 = (\<lambda>i n. n), ctLead2 = (\<lambda>i n. n)\<rparr>"

theorem only_post_changes_witness:
  "\<exists>g. snd (Cluster_Handler \<lparr>rqMethod = ''GET'', rqPath = ''/chaos/crash/n2'', rqQuery = [], rqType = [], rqForwarded = [],
     rqBody = [], rqFail = None\<rparr> quietControl (Cluster_New DevConfig True)) = background g (Cluster_New DevConfig True)"
  by (rule only_post_changes) simp

end
