(* ===== verification/Cmd_Main.thy ===== *)
theory Cmd_Main
  imports Cluster_Http
begin

text \<open>
  The command (\<open>cmd/main.go\<close>): its flags, the configuration they give, the start of a node or of the
  development cluster, and the HTTP interface of a node with the forwarding of requests to the
  leader.

  The HTTP client is the parameter \<open>exchange\<close>: the response to a request sent to an address, or none
  when the client gives up.  As in the model of the server, a request is handled with the nodes its
  critical sections see, and the result is missing while the call has not returned.
\<close>

subsection \<open>Flags and configuration\<close>

record Flags =
  flId :: string
  flRaftAddr :: string
  flHttpAddr :: string
  flPeers :: string
  flHttpPeers :: string
  flDev :: bool
  flData :: string
  flDataRoot :: string
  flJoin :: bool

definition DefaultFlags :: Flags where
  "DefaultFlags = \<lparr>flId = ''n1'', flRaftAddr = ''127.0.0.1:19101'', flHttpAddr = ''127.0.0.1:18101'', flPeers = [],
     flHttpPeers = [], flDev = False, flData = [], flDataRoot = ''data'', flJoin = False\<rparr>"

definition addPeer :: "string \<Rightarrow> addrmap \<Rightarrow> addrmap" where
  "addPeer part0 m =
     (let part = trimSpace part0; (i, addr, ok) = cut (CHR ''='') part in
      if part = [] \<or> \<not> ok then m else fmupd (trimSpace i) (trimSpace addr) m)"

definition parsePeers :: "string \<Rightarrow> addrmap" where
  "parsePeers s0 = (let s = trimSpace s0 in if s = [] then fmempty else fold addPeer (splitOn (CHR '','') s) fmempty)"

definition peerKeys :: "addrmap \<Rightarrow> string list" where
  "peerKeys m = map_keys m"

text \<open>The address maps \<open>main\<close> builds, and the data directory \<open>runNode\<close> uses.\<close>

definition mainPeers :: "Flags \<Rightarrow> addrmap" where
  "mainPeers f =
     (let p = parsePeers (flPeers f);
          p1 = (if map_len p = 0 then fmupd (flId f) (flRaftAddr f) fmempty else p)
      in if map_has p1 (flId f) then p1 else fmupd (flId f) (flRaftAddr f) p1)"

definition mainHTTP :: "Flags \<Rightarrow> addrmap" where
  "mainHTTP f =
     (let h = parsePeers (flHttpPeers f) in if flHttpAddr f \<noteq> [] then fmupd (flId f) (flHttpAddr f) h else h)"

definition dataDir :: "Flags \<Rightarrow> string" where
  "dataDir f = (if flData f = [] then ''data/'' @ flId f else flData f)"

subsection \<open>Starting\<close>

definition nodeBoot :: "string \<Rightarrow> addrmap \<Rightarrow> addrmap \<Rightarrow> string \<Rightarrow> bool \<Rightarrow> (KvWorld, disk_files) Boot" where
  "nodeBoot i peers https dir join =
     \<lparr>bCfg = (DefaultConfig i peers)\<lparr>cfgSnapshotter := Some storeSnapshotter, cfgHTTPAddrs := https, cfgJoin := join,
        cfgStorage := (if dir \<noteq> [] then Some (NewFileStorage diskOS dir) else None)\<rparr>,
      bApply = onApply, bSnap = storeSnapshotter, bHook = (\<lambda>peers https. SetHTTPAddrs https), bSetup = SetHTTPAddrs https,
      bTransport = GRPC (NewGRPCTransport peers), bWorld = \<lparr>store = NewStore, httpAddrs = fmempty\<rparr>\<rparr>"

definition startNode ::
  "Env \<Rightarrow> bool \<Rightarrow> string \<Rightarrow> string \<Rightarrow> addrmap \<Rightarrow> addrmap \<Rightarrow> string \<Rightarrow> bool \<Rightarrow> disk_files \<Rightarrow> raft_error + kv_node" where
  "startNode e listening i raftAddr peers https dir join d =
     (if \<not> listening then Inl (ErrMsg (''grpc listen '' @ raftAddr)) else Inr (boot (nodeBoot i peers https dir join) e d))"

text \<open>
  Between its start and the signal the node performs any \<open>run\<close>.  The process waits for the shutdown
  only so long, so the node may not have been stopped.
\<close>

definition runNode ::
  "Env \<Rightarrow> bool \<Rightarrow> (kv_node \<Rightarrow> kv_node) \<Rightarrow> bool \<Rightarrow> Flags \<Rightarrow> addrmap \<Rightarrow> addrmap \<Rightarrow> disk_files \<Rightarrow> raft_error + kv_node" where
  "runNode e listening run inTime f peers https d =
     (case startNode e listening (flId f) (flRaftAddr f) peers https (dataDir f) (flJoin f) d of
        Inl err \<Rightarrow> Inl err
      | Inr n \<Rightarrow> Inr (if inTime then Stop (run n) else run n))"

definition runDevCluster ::
  "(string \<Rightarrow> Env) \<Rightarrow> (string \<Rightarrow> bool list) \<Rightarrow> (Cluster \<Rightarrow> Cluster) \<Rightarrow> ClusterConfig \<Rightarrow> raft_error option \<times> Cluster" where
  "runDevCluster e attempts run cfg =
     (case Cluster_Start e attempts (Cluster_New cfg True) of
        (Some err, c) \<Rightarrow> (Some err, c)
      | (None, c) \<Rightarrow> (None, Cluster_Stop (run c)))"

text \<open>\<open>main\<close>: the exit code and what has become of the cluster or the node.\<close>

datatype outcome = DevDone Cluster | NodeDone kv_node | Failed

definition main ::
  "(string \<Rightarrow> Env) \<Rightarrow> (string \<Rightarrow> bool list) \<Rightarrow> (Cluster \<Rightarrow> Cluster) \<Rightarrow> (kv_node \<Rightarrow> kv_node) \<Rightarrow> bool \<Rightarrow>
     disk_files \<Rightarrow> Flags \<Rightarrow> int \<times> outcome" where
  "main e attempts crun nrun inTime d f =
     (if flDev f then
        (case runDevCluster e attempts crun (DevConfig\<lparr>DataDir := flDataRoot f\<rparr>) of
           (Some err, c) \<Rightarrow> (1, Failed)
         | (None, c) \<Rightarrow> (0, DevDone c))
      else
        (case runNode (e (flId f)) (list_ex (\<lambda>ok. ok) (take 1 (attempts (flId f)))) nrun inTime f (mainPeers f) (mainHTTP f) d of
           Inl err \<Rightarrow> (1, Failed)
         | Inr n \<Rightarrow> (0, NodeDone n)))"

subsection \<open>The HTTP interface of a node\<close>

definition jStatus :: "Status \<Rightarrow> json" where
  "jStatus s = JObj ([(''id'', JStr (stID s)), (''state'', JStr (stState s)), (''term'', jInt (stTerm s)),
     (''leader_id'', JStr (stLeaderID s))] @ omitEmpty ''leader_addr'' (stLeaderAddr s) @ omitEmpty ''leader_http'' (stLeaderHTTP s) @
    [(''voted_for'', JStr (stVotedFor s)), (''commit_index'', jInt (stCommitIndex s)), (''last_applied'', jInt (stLastApplied s)),
     (''last_log_index'', jInt (stLastLogIndex s)), (''snapshot_index'', jInt (stSnapshotIndex s)),
     (''log_len'', jInt (stLogLen s)), (''kv_size'', jInt (stKVSize s)), (''peers'', jStrings (stPeers s))])"

definition writeErr :: "kv_error \<Rightarrow> HttpResponse" where
  "writeErr err = (case err of
     NotLeader nl \<Rightarrow> writeJSON 503 (JObj [(''error'', JStr ''not_leader''), (''leader_addr'', JStr (nlLeaderAddr nl)),
       (''leader_http'', JStr (nlLeaderHTTP nl)), (''leader_id'', JStr (nlLeaderID nl)), (''ok'', JBool False)])
   | RaftErr e \<Rightarrow>
       if errorIs err ErrStaleLeader \<or> errorIs err ErrTimeout then writeJSON 503 (jError ''stale_leader'')
       else writeJSON 500 (jError (kv_Error err)))"

text \<open>\<open>None\<close> is the answer false: the caller has to report the error itself.\<close>

definition forwardToLeader ::
  "(string \<Rightarrow> HttpRequest \<Rightarrow> HttpResponse option) \<Rightarrow> HttpRequest \<Rightarrow> string \<Rightarrow> kv_error \<Rightarrow> string \<Rightarrow> HttpResponse option" where
  "forwardToLeader exchange r own err body =
     (case err of
        RaftErr e \<Rightarrow> None
      | NotLeader nl \<Rightarrow>
        if nlLeaderHTTP nl = [] then None
        else if rqForwarded r \<noteq> [] then None
        else if own \<noteq> [] \<and> own = nlLeaderHTTP nl then None
        else case parseHTTP (nlLeaderHTTP nl @ urlPath r) of
          None \<Rightarrow> None
        | Some (addr, path, query) \<Rightarrow>
          exchange addr \<lparr>rqMethod = rqMethod r, rqPath = path, rqQuery = query, rqType = rqType r, rqForwarded = ''1'',
            rqBody = body, rqFail = None\<rparr>)"

datatype kv_route = KvHealth | KvStatus | KvGet | KvPut

definition kv_mux :: "kv_route mux" where
  "kv_mux =
     [(\<lparr>ptMethod = ''GET'', ptSegs = [Lit ''health''], ptRest = False\<rparr>, KvHealth),
      (\<lparr>ptMethod = ''GET'', ptSegs = [Lit ''status''], ptRest = False\<rparr>, KvStatus),
      (\<lparr>ptMethod = ''GET'', ptSegs = [Lit ''kv'', Var], ptRest = False\<rparr>, KvGet),
      (\<lparr>ptMethod = ''PUT'', ptSegs = [Lit ''kv'', Var], ptRest = False\<rparr>, KvPut)]"

record 'd kv_run =
  krGet :: "'d get_run"
  krPut :: "'d put_run"
  krNode :: "(KvWorld, 'd) RaftNode"

definition serveGet ::
  "(string \<Rightarrow> HttpRequest \<Rightarrow> HttpResponse option) \<Rightarrow> HttpRequest \<Rightarrow> 'd kv_run \<Rightarrow> string \<Rightarrow> HttpResponse option" where
  "serveGet exchange r run key = (case Get key (krGet run) of
     None \<Rightarrow> None
   | Some (Inl err) \<Rightarrow>
     (case forwardToLeader exchange r (OwnHTTP (krNode run)) err [] of
        Some resp \<Rightarrow> Some resp
      | None \<Rightarrow> Some (writeErr err))
   | Some (Inr (v, found)) \<Rightarrow>
     if \<not> found then Some (writeJSON 404 (JObj [(''found'', JBool False), (''key'', JStr key)]))
     else Some (writeJSON 200 (JObj [(''found'', JBool True), (''key'', JStr key), (''value'', JStr v)])))"

text \<open>The body of a put is read up to a limit.\<close>

definition bodyLimit :: nat where
  "bodyLimit = 2 ^ 20"

definition servePut ::
  "(string \<Rightarrow> HttpRequest \<Rightarrow> HttpResponse option) \<Rightarrow> HttpRequest \<Rightarrow> 'd kv_run \<Rightarrow> string \<Rightarrow>
     HttpResponse option \<times> (KvWorld, 'd) RaftNode" where
  "servePut exchange r run key =
     (case rqFail r of
        Some msg \<Rightarrow> (Some (http_Error msg 400), prPropose (krPut run))
      | None \<Rightarrow>
        let body = take bodyLimit (rqBody r) in
        (case Put key body (krPut run) of
           (None, n) \<Rightarrow> (None, n)
         | (Some (Some err), n) \<Rightarrow>
           (Some (case forwardToLeader exchange r (OwnHTTP (krNode run)) err body of
              Some resp \<Rightarrow> resp
            | None \<Rightarrow> writeErr err), n)
         | (Some None, n) \<Rightarrow> (Some (writeJSON 200 (JObj [(''key'', JStr key), (''ok'', JBool True)])), n)))"

text \<open>The handler of a node: the reply and, for a put, the node after the proposal.\<close>

definition httpMux ::
  "(string \<Rightarrow> HttpRequest \<Rightarrow> HttpResponse option) \<Rightarrow> HttpRequest \<Rightarrow> 'd kv_run \<Rightarrow> reply option \<times> (KvWorld, 'd) RaftNode option" where
  "httpMux exchange r run = (case route kv_mux r of
     GoClean loc \<Rightarrow> (Some (Redirected loc), None)
   | NoMethod \<Rightarrow> (Some (Reply (http_Error ''Method Not Allowed'' 405)), None)
   | NoPath \<Rightarrow> (Some (Reply http_NotFound), None)
   | Go KvHealth vs \<Rightarrow> (Some (Reply \<lparr>rsStatus = 200, rsType = ''text/plain; charset=utf-8'', rsBody = ''ok'' @ newline\<rparr>), None)
   | Go KvStatus vs \<Rightarrow> (Some (Reply (writeJSON 200 (jStatus (Server_Status (krNode run))))), None)
   | Go KvGet vs \<Rightarrow> (map_option Reply (serveGet exchange r run (hd vs)), None)
   | Go KvPut vs \<Rightarrow> (let (resp, n) = servePut exchange r run (hd vs) in (map_option Reply resp, Some n)))"


subsection \<open>Membership flags\<close>

text \<open>The flag that describes a membership, and the text that needs no trimming.\<close>

definition showPeers :: "addrmap \<Rightarrow> string" where
  "showPeers m = joinOn (CHR '','') (map (\<lambda>i. i @ CHR ''='' # map_get [] m i) (map_keys m))"

definition printable :: "string \<Rightarrow> bool" where
  "printable s = list_all (\<lambda>c. 33 \<le> code c \<and> code c < 127) s"

lemma spaces_edges: "list_all (\<lambda>w. w \<noteq> [] \<and> \<not> (33 \<le> code (hd w) \<and> code (hd w) < 127) \<and> \<not> (33 \<le> code (last w) \<and> code (last w) < 127)) spaces"
  by code_simp

lemma find_None: "(\<And>x. x \<in> set xs \<Longrightarrow> \<not> P x) \<Longrightarrow> find P xs = None"
  by (simp add: find_None_iff)

lemma trimSpace_printable:
  assumes "printable s"
  shows "trimSpace s = s"
proof (cases "s = []")
  case True
  then show ?thesis by (simp add: trimSpace_def trimLeft.simps[of "[]"] trimRight.simps[of "[]"])
next
  case False
  have ends: "33 \<le> code (hd s) \<and> code (hd s) < 127" "33 \<le> code (last s) \<and> code (last s) < 127"
    using assms False by (auto simp: printable_def list_all_iff)
  have "take (length w) s \<noteq> w" if "w \<in> set spaces" for w
  proof
    assume "take (length w) s = w"
    moreover have "w \<noteq> []" using spaces_edges that by (auto simp: list_all_iff)
    ultimately have "hd w = hd s" by (metis hd_take length_greater_0_conv)
    then show False using spaces_edges that ends(1) by (auto simp: list_all_iff)
  qed
  then have l: "spaceAt s = 0" unfolding spaceAt_def by (subst find_None) auto
  have "\<not> (drop (length s - length w) s = w \<and> length w \<le> length s)" if "w \<in> set spaces" for w
  proof
    assume d: "drop (length s - length w) s = w \<and> length w \<le> length s"
    have "w \<noteq> []" using spaces_edges that by (auto simp: list_all_iff)
    then have "last w = last s" using d by (metis last_drop drop_all not_le_imp_less)
    then show False using spaces_edges that ends(2) by (auto simp: list_all_iff)
  qed
  then have r: "spaceEnd s = 0" unfolding spaceEnd_def by (subst find_None) auto
  show ?thesis using l r by (simp add: trimSpace_def trimLeft.simps[of s] trimRight.simps[of s])
qed


lemma printable_append [simp]: "printable (s @ t) \<longleftrightarrow> printable s \<and> printable t"
  by (simp add: printable_def)

lemma printable_join:
  "33 \<le> code c \<Longrightarrow> code c < 127 \<Longrightarrow> list_all printable xs \<Longrightarrow> printable (joinOn c xs)"
  by (induction c xs rule: joinOn.induct) (auto simp: printable_def)

lemma addPeer_part:
  assumes "printable i" "printable a" "CHR ''='' \<notin> set i"
  shows "addPeer (i @ CHR ''='' # a) m = fmupd i a m"
proof -
  have "printable (i @ CHR ''='' # a)" using assms by (simp add: printable_def)
  then have t: "trimSpace (i @ CHR ''='' # a) = i @ CHR ''='' # a" by (rule trimSpace_printable)
  have "takeWhile (\<lambda>x. x \<noteq> CHR ''='') i = i" "dropWhile (\<lambda>x. x \<noteq> CHR ''='') i = []"
    using assms(3) by (auto simp: takeWhile_eq_all_conv)
  then have c: "cut (CHR ''='') (i @ CHR ''='' # a) = (i, a, True)"
    using assms(3) by (simp add: cut_def takeWhile_append dropWhile_append)
  show ?thesis using assms(1,2) by (simp add: addPeer_def t c trimSpace_printable Let_def)
qed

text \<open>
  C38: The membership flag can describe every membership.  Writing the members as \<open>id=address\<close> separated
  by commas and parsing the result gives the same map, for ids and addresses of printable characters
  without a comma, and ids without an equals sign.
\<close>

theorem parsePeers_roundtrip:
  assumes "\<forall>i \<in> set (map_keys m). printable i \<and> printable (map_get [] m i) \<and> CHR ''='' \<notin> set i \<and>
     CHR '','' \<notin> set (i @ map_get [] m i)"
  shows "parsePeers (showPeers m) = m"
proof -
  let ?part = "\<lambda>i. i @ CHR ''='' # map_get [] m i"
  have "list_all printable (map ?part (map_keys m))" using assms by (auto simp: list_all_iff printable_def)
  then have t: "trimSpace (showPeers m) = showPeers m"
    unfolding showPeers_def by (intro trimSpace_printable printable_join) simp_all
  have f: "fold addPeer (map ?part is) n = fold (\<lambda>i. fmupd i (map_get [] m i)) is n" if "set is \<subseteq> set (map_keys m)" for "is" n
    using that assms by (induction "is" arbitrary: n) (auto simp: addPeer_part)
  have id: "fold (\<lambda>i. fmupd i (map_get [] m i)) (map_keys m) fmempty = m"
    using cloneAddrs_id[of m] by (simp only: cloneAddrs_def)
  show ?thesis
  proof (cases "map_keys m = []")
    case True
    then show ?thesis using t id by (simp add: parsePeers_def showPeers_def Let_def)
  next
    case False
    have "splitOn (CHR '','') (showPeers m) = map ?part (map_keys m)"
      unfolding showPeers_def using False assms by (intro splitOn_joinOn) auto
    moreover from False have "showPeers m \<noteq> []"
      unfolding showPeers_def by (cases "map_keys m" rule: list.exhaust; cases "tl (map_keys m)") auto
    ultimately show ?thesis using t f[of "map_keys m" fmempty] id by (simp add: parsePeers_def Let_def)
  qed
qed

theorem parsePeers_roundtrip_witness:
  "parsePeers (showPeers (fmupd ''n2'' ''b:2'' (fmupd ''n1'' ''a:1'' fmempty))) = fmupd ''n2'' ''b:2'' (fmupd ''n1'' ''a:1'' fmempty)"
proof -
  have "printable ''n1''" "printable ''n2''" "printable ''a:1''" "printable ''b:2''" by code_simp+
  moreover have "set (map_keys (fmupd ''n2'' ''b:2'' (fmupd ''n1'' ''a:1'' fmempty))) = {''n1'', ''n2''}"
    by (auto simp: map_keys_def)
  ultimately show ?thesis by (intro parsePeers_roundtrip) simp
qed

definition mainNet :: "addrmap \<Rightarrow> (string \<Rightarrow> Flags) \<Rightarrow> (KvWorld, disk_files, addrmap) Net" where
  "mainNet peers F = \<lparr>cIds = map_keys peers,
     cBoot = \<lambda>i. nodeBoot (flId (F i)) (mainPeers (F i)) (mainHTTP (F i)) (dataDir (F i)) (flJoin (F i)),
     cSm = kvState, cAp = kvStep, cWf = valid_map, cStart = fmempty\<rparr>"




subsection \<open>Forwarding\<close>

text \<open>
  C39: A request is forwarded at most once.  The node sends only requests that carry the mark of a
  forwarded request, and it sends none for a request that carries it.
\<close>

theorem forward_at_most_once:
  "httpMux exchange r run = httpMux (\<lambda>addr q. if rqForwarded q = [] then None else exchange addr q) r run \<and>
   httpMux exchange (r\<lparr>rqForwarded := c # cs\<rparr>) run = httpMux (\<lambda>addr q. None) (r\<lparr>rqForwarded := c # cs\<rparr>) run"
proof -
  have f: "forwardToLeader (\<lambda>addr q. if rqForwarded q = [] then None else exchange addr q) = forwardToLeader exchange"
    by (intro ext) (simp add: forwardToLeader_def split: kv_error.split option.split)
  have g: "forwardToLeader exchange (r\<lparr>rqForwarded := c # cs\<rparr>) = forwardToLeader (\<lambda>addr q. None) (r\<lparr>rqForwarded := c # cs\<rparr>)"
    by (intro ext) (simp add: forwardToLeader_def split: kv_error.split)
  show ?thesis unfolding httpMux_def serveGet_def servePut_def f g by (intro conjI refl)
qed


lemma kv_path: "''/kv/'' @ k = slash # joinOn slash [''kv'', k]"
  by (simp add: slash_def)

lemma kv_name: "plainName ''kv''" "pathUnescape ''kv'' = Some ''kv''"
  by (simp_all add: plainName_def slash_def)

lemma kv_route_key:
  assumes "plainName s" "pathUnescape s = Some k" "k \<noteq> [slash]" "rqPath r = ''/kv/'' @ s" "rqMethod r = ''GET'' \<or> rqMethod r = ''PUT''"
  shows "route kv_mux r = Go (if rqMethod r = ''GET'' then KvGet else KvPut) [k]" "urlPath r = ''/kv/'' @ k"
proof -
  have n: "list_all plainName [''kv'', s]" using assms(1) kv_name by simp
  show "route kv_mux r = Go (if rqMethod r = ''GET'' then KvGet else KvPut) [k]"
    using cleanPath_names[OF _ n] assms(2,3,5) kv_name
    unfolding route_def assms(4) kv_path by (auto simp: kv_mux_def methodOk_def Let_def)
  show "urlPath r = ''/kv/'' @ k" using assms(2) by (simp add: urlPath_def assms(4))
qed

text \<open>
  The leader gets the client's request.  For a key that needs no escaping in a path, a follower that
  knows the leader's address forwards a request with the same method, path, type and body, marked as
  forwarded.
\<close>

theorem forward_keeps_request:
  assumes "pathName key" "rqPath r = ''/kv/'' @ key" "rqForwarded r = []"
    and "hostOk (nlLeaderHTTP nl)" "nlLeaderHTTP nl \<noteq> []" "own \<noteq> nlLeaderHTTP nl"
  shows "forwardToLeader exchange r own (NotLeader nl) body =
     exchange (nlLeaderHTTP nl) (r\<lparr>rqQuery := [], rqForwarded := ''1'', rqBody := body, rqFail := None\<rparr>)"
proof -
  have u: "urlPath r = ''/kv/'' @ key" using pathName_unescape[OF assms(1)] by (simp add: urlPath_def assms(2))
  have "list_all (\<lambda>c. \<not> shouldEscape c) (''/kv/'' @ key)"
    using assms(1) by (simp add: pathName_def shouldEscape_def alnum_def)
  then have "parseHTTP (nlLeaderHTTP nl @ ''/kv/'' @ key) = Some (nlLeaderHTTP nl, ''/kv/'' @ key, [])"
    by (intro parseHTTP_split(1)[OF assms(4)]) (simp_all add: hasPrefix_def slash_def)
  then show ?thesis using assms(2,3,5,6) u by (cases r) (auto simp: forwardToLeader_def)
qed

text \<open>
  C40: Forwarding can change the key.  A follower takes the key \<open>a?b\<close>, sent as \<open>a%3Fb\<close>, for what it is, but
  the request it forwards to the leader is a request for the key \<open>a\<close>.
\<close>

theorem forward_changes_key:
  assumes "pathName a" "pathName b" "rqPath r = ''/kv/'' @ a @ ''%3F'' @ b" "rqMethod r = ''PUT''" "rqForwarded r = []"
    and "hostOk (nlLeaderHTTP nl)" "nlLeaderHTTP nl \<noteq> []" "own \<noteq> nlLeaderHTTP nl"
  shows "route kv_mux r = Go KvPut [a @ ''?'' @ b] \<and>
     (\<exists>q. (\<forall>exchange. forwardToLeader exchange r own (NotLeader nl) body = exchange (nlLeaderHTTP nl) q) \<and>
        rqMethod q = ''PUT'' \<and> rqBody q = body \<and> route kv_mux q = Go KvPut [a])"
proof -
  have q: "chr 63 = CHR ''?''" by code_simp
  have un: "pathUnescape (s @ ''%3F'' @ b) = Some (s @ ''?'' @ b)" if "CHR ''%'' \<notin> set s" for s
    using that pathName_unescape[OF assms(2)] by (induction s) (auto simp: hexVal_def Let_def q)
  have a: "CHR ''%'' \<notin> set a" "plainName a" "slash \<notin> set a" "a \<noteq> []" "a \<noteq> [slash]"
    using assms(1) noescape_plain by (auto simp: pathName_def plainName_def list_all_iff)
  have "plainName (a @ ''%3F'' @ b)" using a assms(2) by (auto simp: pathName_def plainName_def slash_def dest: arg_cong[where f = set])
  then have r: "route kv_mux r = Go KvPut [a @ ''?'' @ b]" "urlPath r = ''/kv/'' @ a @ ''?'' @ b"
    using kv_route_key[OF _ un[OF a(1)] _ assms(3)] assms(4) a(4) by (auto simp: append_eq_Cons_conv)
  let ?q = "r\<lparr>rqPath := ''/kv/'' @ a, rqQuery := b, rqForwarded := ''1'', rqBody := body, rqFail := None\<rparr>"
  have "list_all (\<lambda>c. \<not> shouldEscape c) (''/kv/'' @ a)"
    using assms(1) by (simp add: pathName_def shouldEscape_def alnum_def)
  moreover have "CHR ''#'' \<notin> set b" "\<not> list_ex isCTL b"
    using assms(2) noescape_plain by (auto simp: pathName_def list_all_iff list_ex_iff)
  ultimately have "parseHTTP (nlLeaderHTTP nl @ (''/kv/'' @ a) @ CHR ''?'' # b) = Some (nlLeaderHTTP nl, ''/kv/'' @ a, b)"
    by (intro parseHTTP_split(2)[OF assms(6)]) (simp_all add: hasPrefix_def slash_def)
  then have "forwardToLeader exchange r own (NotLeader nl) body = exchange (nlLeaderHTTP nl) ?q" for exchange
    using assms(5,7,8) r(2) by (cases r) (auto simp: forwardToLeader_def)
  moreover have "route kv_mux ?q = Go KvPut [a]"
    using kv_route_key(1)[OF a(2) pathName_unescape[OF assms(1)] a(5), of ?q] assms(4) by simp
  ultimately show ?thesis using r(1) assms(4) by (intro conjI exI[of _ ?q]) simp_all
qed


definition followerPut :: "string \<Rightarrow> HttpRequest" where
  "followerPut path = \<lparr>rqMethod = ''PUT'', rqPath = path, rqQuery = [], rqType = [], rqForwarded = [], rqBody = ''v'', rqFail = None\<rparr>"

definition leader2 :: NotLeaderError where
  "leader2 = \<lparr>nlLeaderID = ''n2'', nlLeaderAddr = ''127.0.0.1:19102'', nlLeaderHTTP = ''127.0.0.1:18102''\<rparr>"

lemma leader2_ok: "hostOk (nlLeaderHTTP leader2)" "pathName ''a''" "pathName ''b''"
  by code_simp+

theorem forward_keeps_request_witness:
  "\<exists>q. forwardToLeader (\<lambda>addr q. if rqPath q = ''/kv/a'' \<and> addr = ''127.0.0.1:18102'' then Some http_NotFound else None)
     (followerPut ''/kv/a'') [] (NotLeader leader2) ''v'' = Some q"
  using forward_keeps_request[OF leader2_ok(2) _ _ leader2_ok(1), of "followerPut ''/kv/a''" "[]" _ "''v''"]
  by (simp add: followerPut_def leader2_def)

theorem forward_changes_key_witness: "route kv_mux (followerPut ''/kv/a%3Fb'') = Go KvPut [''a?b'']"
  using forward_changes_key[OF leader2_ok(2,3) _ _ _ leader2_ok(1), of "followerPut ''/kv/a%3Fb''" "[]" "[]"]
  by (simp add: followerPut_def leader2_def)

end
