(* ===== verification/Raft_Change.thy ===== *)
theory Raft_Change
  imports Raft_Rules
begin

text \<open>
  Rules for membership (\<open>raft/membership.go\<close>) and snapshots (\<open>raft/snapshot.go\<close>) of a node: the
  configuration in force is the one the log describes, compaction keeps it, an accepted change moves
  one member so that the majorities before and after it meet, and what installing a snapshot does to
  a log that is ahead of it.
\<close>

subsection \<open>The configuration of the log\<close>

definition logConfig :: "('w, 'd) RaftNode \<Rightarrow> addrmap \<times> addrmap" where
  "logConfig n = configOf (basePeers n, baseHTTP n) (tl (rlog n))"

definition in_sync :: "('w, 'd) RaftNode \<Rightarrow> bool" where
  "in_sync n \<longleftrightarrow> (peerAddrs n, peerHTTP n) = logConfig n \<and> peerIDs n = map_keys (peerAddrs n)"

lemma rebuild_sync: "in_sync (rebuildMembershipLocked n)"
  by (simp add: in_sync_def logConfig_def configOf_def rebuildMembershipLocked_def rebuildPeerIDsLocked_def cloneStringMap_def Let_def)

lemma takeWhile_index:
  assumes "contiguous es" "es \<noteq> []"
  shows "takeWhile (\<lambda>e. \<not> eIndex e > eIndex (hd es) + int s) (tl es) = take s (tl es)"
proof (rule takeWhile_eq_take_P_nth)
  have i: "eIndex (tl es ! i) = eIndex (hd es) + int i + 1" if "i < length (tl es)" for i
    using contiguousD[OF assms(1), of "Suc i"] that by (simp add: nth_tl)
  then show "\<not> eIndex (tl es ! i) > eIndex (hd es) + int s" if "i < s" "i < length (tl es)" for i
    using that by simp
  show "\<not> \<not> eIndex (tl es ! s) > eIndex (hd es) + int s" if "s < length (tl es)" using i[OF that] by simp
qed

lemma sync_broadcast: "in_sync (broadcastAppendEntriesLocked n) = in_sync n"
  by (simp add: in_sync_def logConfig_def)

lemma compact_log:
  assumes "log_ok (rlog n)" "s < length (rlog n)" "eIndex x = lastIncludedIndexLocked n + int s"
    and m: "rlog m = x # drop (Suc s) (rlog n)"
  shows "lastLogIndexLocked m = lastLogIndexLocked n"
    "lastIncludedIndexLocked m < j \<Longrightarrow> entryAtLocked m j = entryAtLocked n j"
proof -
  let ?b = "lastIncludedIndexLocked n"
  have es: "contiguous (rlog n)" "rlog n \<noteq> []" using assms(1) by auto
  have b: "lastIncludedIndexLocked m = ?b + int s" "length (rlog m) = length (rlog n) - s"
    using assms(2,3) by (auto simp: lastIncludedIndexLocked_def m)
  show "lastLogIndexLocked m = lastLogIndexLocked n"
    using lastLogIndexLocked_eq[OF es] assms(2,3) by (cases "Suc s = length (rlog n)") (auto simp: lastLogIndexLocked_def m)
  assume j: "lastIncludedIndexLocked m < j"
  have "rlog m ! nat (j - (?b + int s)) = rlog n ! nat (j - ?b)" if "j < ?b + int (length (rlog n))"
  proof -
    obtain d where d: "nat (j - (?b + int s)) = Suc d" using j b(1) by (metis gr0_conv_Suc zero_less_nat_eq diff_gt_0_iff_gt)
    then have "nat (j - ?b) = Suc s + d" by linarith
    then show ?thesis using that d by (simp add: m)
  qed
  then show "entryAtLocked m j = entryAtLocked n j"
    using j b assms(2) by (simp add: entryAtLocked_def sliceIndexLocked_def Let_def flip: lastIncludedIndexLocked_def)
qed

lemma compact_keeps:
  fixes k
  assumes "log_ok (rlog n)" "in_sync n"
  defines "m \<equiv> compactLocked k n"
  shows "in_sync m" "peerAddrs m = peerAddrs n" "peerHTTP m = peerHTTP n"
    "lastLogIndexLocked m = lastLogIndexLocked n"
    "lastIncludedIndexLocked m < j \<Longrightarrow> entryAtLocked m j = entryAtLocked n j"
proof -
  have "in_sync m \<and> peerAddrs m = peerAddrs n \<and> peerHTTP m = peerHTTP n \<and> lastLogIndexLocked m = lastLogIndexLocked n \<and>
    (lastIncludedIndexLocked m < j \<longrightarrow> entryAtLocked m j = entryAtLocked n j)"
  proof (cases "m = n")
    case False
    let ?b = "lastIncludedIndexLocked n"
    have sl: "sliceIndexLocked n k = k - ?b" by (simp add: sliceIndexLocked_def lastIncludedIndexLocked_def)
    obtain x data where x: "\<not> k \<le> ?b" "entryAtLocked n k = Some x"
      and m: "m = persistLocked (notifyPeersLocked (rebuildMembershipLocked (n\<lparr>rlog :=
        \<lparr>eTerm = eTerm x, eIndex = k, eCommand = [], eChange = None\<rparr> # drop (nat (k - ?b) + 1) (rlog n),
        snapshot := data, basePeers := fst (membershipAtLocked n k), baseHTTP := snd (membershipAtLocked n k)\<rparr>)))"
      using False unfolding m_def compactLocked_def
      by (auto simp: Let_def sl split: if_splits option.splits sum.splits)
    define s where "s = nat (k - ?b)"
    have s: "k = ?b + int s" using x(1) by (simp add: s_def)
    have es: "contiguous (rlog n)" "rlog n \<noteq> []" "?b = eIndex (hd (rlog n))" using assms(1) by (auto simp: log_ok_def lastIncludedIndexLocked_def)
    have len: "s < length (rlog n)" using x(2) s es by (auto simp: entryAtLocked_def sliceIndexLocked_def Let_def split: if_splits)
    have "membershipAtLocked n k = fold applyEntryChange (take s (tl (rlog n))) (basePeers n, baseHTTP n)"
      using takeWhile_index[OF es(1,2), of s] by (simp add: membershipAtLocked_def cloneStringMap_def s es(3))
    moreover have "tl (rlog n) = take s (tl (rlog n)) @ drop (Suc s) (rlog n)" by (simp add: drop_Suc)
    ultimately have c: "fold applyEntryChange (drop (Suc s) (rlog n)) (membershipAtLocked n k) = logConfig n"
      by (metis logConfig_def configOf_def configOf_append)
    have "(peerAddrs m, peerHTTP m) = logConfig n"
      by (simp add: m rebuildMembershipLocked_def rebuildPeerIDsLocked_def cloneStringMap_def Let_def c flip: s_def)
    then have "peerAddrs m = peerAddrs n" "peerHTTP m = peerHTTP n" using assms(2) by (metis in_sync_def prod.inject)+
    moreover have "in_sync m"
      by (simp add: m in_sync_def logConfig_def configOf_def rebuildMembershipLocked_def rebuildPeerIDsLocked_def cloneStringMap_def Let_def)
    moreover have "rlog m = \<lparr>eTerm = eTerm x, eIndex = k, eCommand = [], eChange = None\<rparr> # drop (Suc s) (rlog n)"
      by (simp add: m flip: s_def)
    then have "lastLogIndexLocked m = lastLogIndexLocked n" "lastIncludedIndexLocked m < j \<longrightarrow> entryAtLocked m j = entryAtLocked n j"
      using compact_log[OF assms(1) len, of "\<lparr>eTerm = eTerm x, eIndex = k, eCommand = [], eChange = None\<rparr>" m] s by simp_all
    ultimately show ?thesis by blast
  qed (use assms(2) in simp)
  then show "in_sync m" "peerAddrs m = peerAddrs n" "peerHTTP m = peerHTTP n"
    "lastLogIndexLocked m = lastLogIndexLocked n"
    "lastIncludedIndexLocked m < j \<Longrightarrow> entryAtLocked m j = entryAtLocked n j" by simp_all
qed


lemma apply_keeps:
  assumes "log_ok (rlog n)" "in_sync n"
  shows "in_sync (applyCommittedLocked n) \<and> peerAddrs (applyCommittedLocked n) = peerAddrs n \<and>
     peerIDs (applyCommittedLocked n) = peerIDs n \<and> lastLogIndexLocked (applyCommittedLocked n) = lastLogIndexLocked n \<and>
     (\<forall>j. lastIncludedIndexLocked (applyCommittedLocked n) < j \<longrightarrow> entryAtLocked (applyCommittedLocked n) j = entryAtLocked n j)"
proof -
  let ?n = "applyLoop n"
  have l: "log_ok (rlog ?n)" "in_sync ?n" using assms by (simp_all add: in_sync_def logConfig_def)
  have e: "entryAtLocked ?n j = entryAtLocked n j" "lastLogIndexLocked ?n = lastLogIndexLocked n" for j
    by (rule entryAtLocked_cong) (simp_all add: lastLogIndexLocked_def)
  have p: "in_sync m \<Longrightarrow> peerAddrs m = peerAddrs n \<Longrightarrow> peerIDs m = peerIDs n" for m :: "('a, 'b) RaftNode"
    using assms(2) by (simp add: in_sync_def)
  note c = compact_keeps[OF l, of "lastApplied ?n", simplified e, simplified]
  have "applyCommittedLocked n = ?n \<or> applyCommittedLocked n = compactLocked (lastApplied ?n) ?n"
    by (simp add: applyCommittedLocked_def maybeCompactLocked_def Let_def)
  then show ?thesis
  proof
    assume "applyCommittedLocked n = ?n"
    then show ?thesis using l e by simp
  next
    assume "applyCommittedLocked n = compactLocked (lastApplied ?n) ?n"
    then show ?thesis using c p[OF c(1,2)] by simp
  qed
qed

text \<open>
  C18: Applying and compacting leave the configuration and the rest of the log alone.  When a node
  applies its committed entries and takes a snapshot, its members and the entries above the
  snapshot stay as they were, and the members are still those the log describes.
\<close>

theorem applyCommitted_keeps_config:
  assumes "log_ok (rlog n)" "in_sync n"
  shows "in_sync (applyCommittedLocked n) \<and> peerAddrs (applyCommittedLocked n) = peerAddrs n \<and>
     peerIDs (applyCommittedLocked n) = peerIDs n \<and> lastLogIndexLocked (applyCommittedLocked n) = lastLogIndexLocked n \<and>
     (\<forall>j. lastIncludedIndexLocked (applyCommittedLocked n) < j \<longrightarrow> entryAtLocked (applyCommittedLocked n) j = entryAtLocked n j)"
  by (rule apply_keeps[OF assms])

subsection \<open>Changes\<close>

lemma newConfig_keys:
  assumes "newConfig ch n = Inr (np, nh)" "in_sync n"
  shows "set (map_keys np) = insert (chID ch) (set (peerIDs n)) \<and> chID ch \<notin> set (peerIDs n) \<or>
     set (map_keys np) = set (peerIDs n) - {chID ch} \<and> chID ch \<in> set (peerIDs n)" "0 < map_len np"
proof -
  have k: "set (peerIDs n) = {k. map_has (peerAddrs n) k}" and d: "distinct (peerIDs n)" using assms(2) by (simp_all add: in_sync_def)
  from assms(1) consider
      (add) "\<not> map_has (peerAddrs n) (chID ch)" "np = fmupd (chID ch) (chAddr ch) (peerAddrs n)"
    | (remove) "map_has (peerAddrs n) (chID ch)" "1 < length (peerIDs n)" "np = fmdrop (chID ch) (peerAddrs n)"
    unfolding newConfig_def Let_def cloneStringMap_def by (simp split: if_splits)
  then have "(set (map_keys np) = insert (chID ch) (set (peerIDs n)) \<and> chID ch \<notin> set (peerIDs n) \<or>
     set (map_keys np) = set (peerIDs n) - {chID ch} \<and> chID ch \<in> set (peerIDs n)) \<and> set (map_keys np) \<noteq> {}"
  proof cases
    case add
    then show ?thesis unfolding k set_map_keys by (auto simp: map_has_def)
  next
    case remove
    have "1 < card (set (peerIDs n))" using remove(2) d by (simp add: distinct_card)
    then have "\<not> set (peerIDs n) \<subseteq> {chID ch}" by (metis One_nat_def card.empty card.insert card_mono empty_iff finite.intros leD)
    moreover have "set (map_keys np) = set (peerIDs n) - {chID ch}" unfolding k set_map_keys by (auto simp: remove(3) map_has_def split: if_splits)
    ultimately show ?thesis using remove(1) k by simp
  qed
  then show "set (map_keys np) = insert (chID ch) (set (peerIDs n)) \<and> chID ch \<notin> set (peerIDs n) \<or>
     set (map_keys np) = set (peerIDs n) - {chID ch} \<and> chID ch \<in> set (peerIDs n)" "0 < map_len np"
    by (auto simp: map_len_def simp del: set_map_keys)
qed

lemma adjacent_majorities:
  assumes "set bs = insert x (set as)" "x \<notin> set as" "is_majority as P" "is_majority bs Q"
  shows "P \<inter> Q \<noteq> {}"
proof
  assume dis: "P \<inter> Q = {}"
  have fin: "finite P" "finite Q" and sub: "P \<union> Q \<subseteq> set bs"
    using assms by (auto simp: is_majority_def intro: finite_subset)
  have "card P + card Q = card (P \<union> Q)" using dis fin by (simp add: card_Un_disjoint)
  also have "\<dots> \<le> card (set bs)" using sub by (simp add: card_mono)
  also have "card (set bs) = card (set as) + 1" using assms(1,2) by simp
  finally have "card P + card Q \<le> card (set as) + 1" .
  moreover have "int (card P) \<ge> int (card (set as)) div 2 + 1" "int (card Q) \<ge> (int (card (set as)) + 1) div 2 + 1"
    using assms by (auto simp: is_majority_def)
  ultimately show False by presburger
qed


lemma fold_trackPeer_frame [simp]:
  "peerAddrs (fold trackPeer ps n) = peerAddrs n" "peerHTTP (fold trackPeer ps n) = peerHTTP n"
  "peerIDs (fold trackPeer ps n) = peerIDs n" "rlog (fold trackPeer ps n) = rlog n"
  "basePeers (fold trackPeer ps n) = basePeers n" "baseHTTP (fold trackPeer ps n) = baseHTTP n"
  "nid (fold trackPeer ps n) = nid n"
  by (induction ps arbitrary: n) (simp_all add: trackPeer_def Let_def)

text \<open>The node of a leader after it has recorded a change, before it commits and applies.\<close>

lemma change_recorded:
  fixes n :: "('w, 'd) RaftNode"
  assumes "log_ok (rlog n)" "0 < map_len (chPeers cp)"
  defines "x \<equiv> \<lparr>eTerm = currentTerm n, eIndex = lastLogIndexLocked n + 1, eCommand = [], eChange = Some cp\<rparr>"
  defines "m \<equiv> recordMatch (nid n) (lastLogIndexLocked n + 1) (persistLocked (notifyPeersLocked (ensurePeerTrackingLocked
     (rebuildMembershipLocked (appendOwn x n)))))"
  shows "rlog m = rlog n @ [x]" "in_sync m" "peerAddrs m = chPeers cp"
proof -
  let ?r = "rebuildMembershipLocked (appendOwn x n)"
  have s: "in_sync ?r" by (rule rebuild_sync)
  have m: "peerAddrs m = peerAddrs ?r" "peerHTTP m = peerHTTP ?r" "peerIDs m = peerIDs ?r" "rlog m = rlog ?r"
    "basePeers m = basePeers ?r" "baseHTTP m = baseHTTP ?r"
    by (simp_all add: m_def recordMatch_def ensurePeerTrackingLocked_def)
  show r: "rlog m = rlog n @ [x]" unfolding m by (simp add: appendOwn_def)
  show "in_sync m" using s unfolding in_sync_def logConfig_def m .
  have "tl (rlog n @ [x]) = tl (rlog n) @ [x]" using assms(1) by (simp add: log_ok_def)
  then have "logConfig ?r = (chPeers cp, chHTTPAddrs cp)"
    using assms(2) by (simp add: logConfig_def appendOwn_def configOf_def applyEntryChange_def applyChange_def x_def)
  then show "peerAddrs m = chPeers cp" using s unfolding m in_sync_def by simp
qed



text \<open>
  C17: When a change is accepted.  A leader accepts a change exactly if it is running, no uncommitted entry
  of its log is a change, and the change adds a new id, or removes a member other than itself from a
  configuration with other members.
\<close>

theorem change_accepted_iff:
  "(\<exists>index. fst (proposeChangeLocked ch n) = Inr index) \<longleftrightarrow>
     state n = Leader \<and> \<not> stopped n \<and>
     \<not> (\<exists>i. commitIndex n < i \<and> i \<le> lastLogIndexLocked n \<and> changeAt n i) \<and>
     (chType ch = ChangeAdd \<and> \<not> map_has (peerAddrs n) (chID ch) \<or>
      chType ch = ChangeRemove \<and> map_has (peerAddrs n) (chID ch) \<and> chID ch \<noteq> nid n \<and> 1 < length (peerIDs n))"
proof -
  have t: "ChangeAdd \<noteq> ChangeRemove" by (simp add: ChangeAdd_def ChangeRemove_def)
  have "(\<exists>c. newConfig ch n = Inr c) \<longleftrightarrow>
     chType ch = ChangeAdd \<and> \<not> map_has (peerAddrs n) (chID ch) \<or>
     chType ch = ChangeRemove \<and> map_has (peerAddrs n) (chID ch) \<and> chID ch \<noteq> nid n \<and> 1 < length (peerIDs n)"
    using t by (auto simp: newConfig_def Let_def)
  moreover have "(\<exists>index. fst (proposeChangeLocked ch n) = Inr index) \<longleftrightarrow>
     state n = Leader \<and> \<not> stopped n \<and> \<not> hasUncommittedConfigLocked n \<and> (\<exists>c. newConfig ch n = Inr c)"
    by (auto simp: proposeChangeLocked_def Let_def split: sum.split)
  ultimately show ?thesis unfolding hasUncommittedConfigLocked_iff by blast
qed

subsection \<open>Installing an older snapshot\<close>

text \<open>
  C19: Installing a snapshot behind the commit index.  A follower that has committed entries beyond a
  snapshot it is sent drops them from its log and goes back to the snapshot, while its commit index
  stays: the commit index then lies beyond the end of the log.
\<close>

theorem install_behind_commit:
  assumes "currentTerm n \<le> isTerm req" "lastIncludedIndexLocked n < isLastIncludedIndex req" "isLastIncludedIndex req < commitIndex n"
    and "HandleInstallSnapshot e req n = (resp, m)"
  shows "lastLogIndexLocked m = isLastIncludedIndex req \<and> lastApplied m = isLastIncludedIndex req \<and>
     commitIndex m = commitIndex n \<and> lastLogIndexLocked m < commitIndex m"
proof -
  define n2 where "n2 = (resetElectionTimerLocked e ((if isTerm req > currentTerm n \<or> state n \<noteq> Follower
     then becomeFollowerLocked (isTerm req) (isLeaderID req) n else n)\<lparr>leaderID := isLeaderID req\<rparr>))\<lparr>joining := False\<rparr>"
  have f: "rlog n2 = rlog n" "commitIndex n2 = commitIndex n"
    by (simp_all add: n2_def)
  then have "m = installSnapshot req n2"
    using assms(1,2,4) unfolding HandleInstallSnapshot_def Let_def n2_def[symmetric] by (auto simp: lastIncludedIndexLocked_def)
  then show ?thesis using assms(3) f by (simp add: installSnapshot_def Let_def lastLogIndexLocked_def)
qed

subsection \<open>Examples\<close>

definition lonelyLeader :: "(unit, disk_files) RaftNode" where
  "lonelyLeader = (sampleNode [''n1''])\<lparr>state := Leader, currentTerm := 1\<rparr>"

definition addN2 :: MembershipChange where
  "addN2 = \<lparr>chType = ChangeAdd, chID = ''n2'', chAddr = ''host2'', chHTTP = [], chPeers = fmempty, chHTTPAddrs = fmempty\<rparr>"

lemma lonelyLeader_ok:
  "log_ok (rlog lonelyLeader)" "in_sync lonelyLeader" "lastLogTermLocked lonelyLeader \<le> currentTerm lonelyLeader"
  by (simp_all add: lonelyLeader_def log_ok_def in_sync_def logConfig_def configOf_def lastLogTermLocked_def)


theorem applyCommitted_keeps_config_witness: "peerIDs (applyCommittedLocked lonelyLeader) = [''n1'']"
  using applyCommitted_keeps_config[OF lonelyLeader_ok(1,2)] by (simp add: lonelyLeader_def)

theorem install_behind_commit_witness:
  "commitIndex (snd (HandleInstallSnapshot \<lparr>now = 0, rnd = 0\<rparr> \<lparr>isTerm = 1, isLeaderID = ''n2'', isLastIncludedIndex = 2,
     isLastIncludedTerm = 1, isData = [], isPeers = fmempty, isHTTP = fmempty\<rparr> ((sampleNode [''n1''])\<lparr>commitIndex := 5\<rparr>))) = 5"
  using install_behind_commit[OF _ _ _ prod.collapse[symmetric], of "(sampleNode [''n1''])\<lparr>commitIndex := 5\<rparr>"
      "\<lparr>isTerm = 1, isLeaderID = ''n2'', isLastIncludedIndex = 2, isLastIncludedTerm = 1, isData = [], isPeers = fmempty, isHTTP = fmempty\<rparr>"]
  by (simp add: lastIncludedIndexLocked_def)

end
