(* ===== verification/Spec2Isabelle.thy ===== *)
theory Spec2Isabelle
  imports Cluster_Runs Cmd_Main Raft_Change
begin

text \<open>
  Verification of a replicated key-value store in Go: a Raft library (\<open>raft/\<close>), a key-value server on
  top of it (\<open>kv/\<close>), a cluster inside one process with fault injection (\<open>cluster/\<close>), and the command that
  runs a node or such a cluster (\<open>cmd/main.go\<close>).

  \<^bold>\<open>The program.\<close>  A node (\<open>RaftNode\<close>) keeps a log of commands, elects a leader with the other nodes, replicates
  the log of the leader and passes committed entries to a callback.  The server of package \<open>kv\<close> gives it
  a callback that changes a map, proposes a \<open>Put\<close> as a command and answers a \<open>Get\<close> from the map after
  \<open>ReadIndex\<close> has confirmed that it is still the leader.  A node writes its term, vote, log and snapshot to
  a file.  Nodes talk over gRPC or, in tests, through a network in memory; a filter in front of either
  drops RPCs as a table of faults says.

  \<^bold>\<open>How code becomes definitions.\<close>  A struct is a record and an enumeration a datatype; definitions have the
  name of the Go function, with a prefix of the receiver where names clash.  A method that
  runs under the node's mutex is a function from the node to its result and the node it leaves; time,
  random numbers and the outcome of system calls are arguments (\<open>Env\<close>).  A goroutine that a method starts is
  recorded in the field \<open>goroutines\<close>.  Code that releases the mutex between its steps (\<open>replicateTo\<close>, \<open>Put\<close>,
  \<open>ReadIndex\<close>, \<open>WaitApplied\<close>) is cut at these points: each piece is a function of its own, and the call is a
  function of the nodes its pieces find, given as a list or a record, with \<open>None\<close> for a call that has
  not returned yet.  No loop needs fuel: loops over the log have a termination proof, and loops that wait
  recurse over the list of their wake-ups.  Go's \<open>int\<close> is \<open>int\<close>, since indices and terms only grow by one at a
  time; strings are lists of bytes.

  \<^bold>\<open>Language and library.\<close>
  \<^item> \<open>Go_Prelude\<close>: types, collections of rules, lemmas on lists, sorted keys and counting.
  \<^item> \<open>Go_Utf8\<close>, \<open>Go_Quote\<close>, \<open>Go_Json\<close>, \<open>Go_Base64\<close>, \<open>Go_Marshal\<close>: \<open>encoding/json\<close> as a printer and a parser of bytes, with
    the proof that decoding inverts encoding for well-formed UTF-8.
  \<^item> \<open>Go_Strings\<close>, \<open>Go_Http\<close>: the parts of \<open>strings\<close>, \<open>path/filepath\<close>, \<open>net/url\<close> and \<open>net/http\<close> that are used.
  \<^item> \<open>Go_Os\<close>: files with synced and unsynced contents; the interface \<open>file_os\<close> has an operating system that always
    succeeds and one in which every call may fail, with partial writes, as instances.

  \<^bold>\<open>Package raft.\<close>
  \<^item> \<open>Raft_Types\<close>: messages, configuration and the record \<open>RaftNode\<close> (\<open>raft/rpc.go\<close>, \<open>raft/node.go\<close>).
  \<^item> \<open>Raft_Log\<close>, \<open>Raft_Membership\<close>, \<open>Raft_Snapshot\<close>, \<open>Raft_Replication\<close>, \<open>Raft_Election\<close>, \<open>Raft_Read\<close>, \<open>Raft_Node\<close>: the operations
    of the files with these names, with \<open>NewNode\<close>, the ticker, \<open>Propose\<close>, \<open>WaitApplied\<close> and \<open>Stop\<close> in \<open>Raft_Node\<close>.
    \<open>Raft_Membership\<close> has the interface \<open>quorum_system\<close>, with majorities as its instance.
  \<^item> \<open>Raft_Persist\<close>: \<open>FileStorage\<close> and the format of \<open>state.json\<close>.  \<open>Raft_Faults\<close>: the fault table, the filter
    and the network in memory (\<open>raft/faults.go\<close>, \<open>raft/rpc.go\<close>).  \<open>Raft_Grpc\<close>: the gRPC transport, with the library as
    a parameter.
  \<^item> \<open>Raft_Events\<close>, \<open>Raft_Frames\<close>, \<open>Raft_Durable\<close>, \<open>Raft_Text\<close>: a node as a machine whose events are its critical
    sections and restarts; what each leaves alone; that the disk holds what a node must remember (the
    interface \<open>voting_process\<close>); that names stay well-formed text.
  \<^item> \<open>Raft_Rules\<close>, \<open>Raft_Change\<close>: the behaviour of single operations: voting, committing, applying, timers, lone
    nodes, membership changes, compaction and installed snapshots.

  \<^bold>\<open>Safety of a cluster.\<close>
  \<^item> \<open>Raft_System\<close>: the nodes of a configuration and the messages in flight, as the step relation \<open>sys_step\<close>.
    Messages may be lost, repeated and reordered, goroutines may run at any moment, nodes may crash
    between any two critical sections and restart from disk.  The interface \<open>replicated_machine\<close> says what Raft needs of
    the machine it replicates; the key-value store is its instance.
  \<^item> \<open>Raft_Spec\<close>, \<open>Raft_Spec_Logs\<close>, \<open>Raft_Spec_Steps\<close>, \<open>Raft_Spec_Safety\<close>, \<open>Raft_Spec_Reads\<close>: an abstract protocol over
    whole logs, its inductive invariant and what follows from it.
  \<^item> \<open>Raft_View\<close>, \<open>Raft_Refine_Base\<close>, \<open>Raft_Refine_Apply\<close>, \<open>Raft_Refine_Append\<close>, \<open>Raft_Refine_Roles\<close>, \<open>Raft_Refine_Snapshot\<close>,
    \<open>Raft_Refine_System\<close>: every step of the cluster is a sequence of steps of the abstract protocol.
  \<^item> \<open>Raft_Safety\<close>: the results for the nodes: election safety, log matching, leader completeness, state
    machine safety, permanence of committed entries, one vote per term, bounds of indices, reads.

  \<^bold>\<open>Servers and processes.\<close>
  \<^item> \<open>Kv_Store\<close>, \<open>Kv_Server\<close> (\<open>kv/\<close>): the store and its snapshot; \<open>Put\<close>, \<open>Get\<close>, \<open>Status\<close> with every error, and the gRPC
    methods.
  \<^item> \<open>Cluster\<close>, \<open>Cluster_Http\<close> (\<open>cluster/\<close>): start, crash, restart, isolation, adding and removing members, and the
    control requests.  \<open>Cmd_Main\<close> (\<open>cmd/main.go\<close>): flags, starting nodes, the HTTP interface, forwarding.
  \<^item> \<open>Cluster_Safety\<close>: a started cluster is an initial state of the system above, so that a read finds the
    last completed write and replicas agree.  \<open>Cluster_Runs\<close>: runs of concrete clusters, to which the
    properties are applied.

  \<^bold>\<open>What the safety of whole runs assumes.\<close>
  \<^item> The configuration is fixed.  Membership changes are modelled, and \<open>Raft_Change\<close> shows what an accepted
    change does, but a change accepted before the leader has committed an entry of its term is not safe in
    general (\<open>raft/membership.go\<close> does not check this), so runs with changes are left out.
  \<^item> A snapshot is delivered only where it does not cut entries of the follower (\<open>installSafe\<close>).  Without
    this the code can lose acknowledged entries; \<open>install_behind_commit\<close> in \<open>Raft_Change\<close> shows how.
  \<^item> Every node has a storage whose saves succeed (\<open>storage_ok\<close>, proved of \<open>FileStorage\<close>), since the code goes on
    when a save fails.  \<open>Raft_Persist\<close> shows what a failing save leaves on disk.
  \<^item> The members' names and addresses are valid UTF-8, since the state file replaces other bytes.

  \<^bold>\<open>What is not modelled.\<close>  Logging; the sockets of the servers and the waiting for signals, of which only
  success or failure remains; the libraries for gRPC and the HTTP client, which are parameters; the code
  generated in \<open>proto/\<close>; the benchmark \<open>cmd/bench\<close>, which only measures; the tests.
\<close>

end
